(* ===== verification/Prelude.thy ===== *)
theory Prelude
  imports Main "HOL-Library.Word"
begin

text \<open>
  Shared vocabulary of the development: the machine types, the panics of the kernel as
  values, the checked arithmetic of the build profile the repository ships
  (\<^verbatim>\<open>cargo build\<close>, the dev profile, in which an integer overflow panics), the integer
  helpers of the Rust core library that the kernel calls, and the generic lemmas every
  component uses.

  Two representations of integers are used. Registers, bit fields and device words are
  \<open>w word\<close>, because their wrap-around and their bits matter. Frame numbers, bit indices,
  sizes and addresses are \<open>nat\<close>, with the bound \<open>2 ^ 64\<close> written out in the checked
  operations below.
\<close>

unbundle bit_operations_syntax

section \<open>Machine types and panics\<close>

type_synonym u8 = "8 word"
type_synonym u16 = "16 word"
type_synonym u32 = "32 word"
type_synonym u64 = "64 word"

text \<open>
  Every way the kernel can panic. \<open>LibPanic\<close> is a panic raised inside a third-party crate;
  \<open>UninitUse\<close> stands for the use of a static that has not been written yet, which the code
  does not check; \<open>NullDeref\<close> and \<open>Misaligned\<close> are accesses through a null pointer and through one that
  is not aligned for its type, which the dev profile checks.
\<close>

datatype panic =
    AssertFailed
  | IndexOutOfBounds
  | ArithOverflow
  | DivByZero
  | UnwrapFailed
  | Unreachable
  | Unimplemented
  | ExplicitPanic
  | LibPanic
  | UninitUse
  | NullDeref
  | Misaligned

type_synonym 'a res = "panic + 'a"

definition bindR :: "'a res \<Rightarrow> ('a \<Rightarrow> 'b res) \<Rightarrow> 'b res" where
  "bindR m f = (case m of Inl e \<Rightarrow> Inl e | Inr x \<Rightarrow> f x)"

definition assertR :: "bool \<Rightarrow> unit res" where
  "assertR b = (if b then Inr () else Inl AssertFailed)"

definition expectR :: "'a option \<Rightarrow> 'a res" where
  "expectR x = (case x of None \<Rightarrow> Inl UnwrapFailed | Some v \<Rightarrow> Inr v)"

text \<open>
  A reference to a value at an address: the dev profile checks that the pointer is not null and
  aligned for the type.
\<close>

definition ref_to :: "nat \<Rightarrow> nat \<Rightarrow> 'a \<Rightarrow> 'a res" where
  "ref_to align ptr x = (if ptr = 0 then Inl NullDeref else if ptr mod align \<noteq> 0 then Inl Misaligned else Inr x)"

text \<open>A \<open>for\<close> loop whose body may panic.\<close>

primrec forR :: "('a \<Rightarrow> 's \<Rightarrow> 's res) \<Rightarrow> 'a list \<Rightarrow> 's \<Rightarrow> 's res" where
  "forR f [] s = Inr s"
| "forR f (x # xs) s = bindR (f x s) (forR f xs)"

named_theorems res_simps \<open>evaluation rules of the panic monad and the checked operations\<close>
named_theorems layout_defs \<open>constants of the virtual memory layout\<close>
named_theorems frame_simps \<open>effect of the bit array operations on the free frames\<close>

lemma bindR_Inr [simp, res_simps]: "bindR (Inr x) f = f x"
  by (simp add: bindR_def)

lemma bindR_Inl [simp, res_simps]: "bindR (Inl e) f = Inl e"
  by (simp add: bindR_def)

lemma bindR_eq_Inr: "bindR m f = Inr y \<longleftrightarrow> (\<exists>x. m = Inr x \<and> f x = Inr y)"
  by (cases m) auto

lemma bindR_assoc: "bindR (bindR m f) g = bindR m (\<lambda>x. bindR (f x) g)"
  by (cases m) auto

lemma assertR_True [simp, res_simps]: "assertR True = Inr ()"
  by (simp add: assertR_def)

lemma assertR_False [simp, res_simps]: "assertR False = Inl AssertFailed"
  by (simp add: assertR_def)

lemma assertR_eq_Inr [simp]: "assertR b = Inr u \<longleftrightarrow> b"
  by (simp add: assertR_def)

lemma expectR_simps [simp, res_simps]:
  "expectR None = Inl UnwrapFailed" "expectR (Some v) = Inr v"
  by (simp_all add: expectR_def)

lemma ref_to_ok [simp]: "0 < ptr \<Longrightarrow> ptr mod align = 0 \<Longrightarrow> ref_to align ptr x = Inr x"
  by (simp add: ref_to_def)

section \<open>Checked arithmetic on 64-bit quantities\<close>

definition uadd :: "nat \<Rightarrow> nat \<Rightarrow> nat res" where
  "uadd a b = (if a + b < 2 ^ 64 then Inr (a + b) else Inl ArithOverflow)"

definition usub :: "nat \<Rightarrow> nat \<Rightarrow> nat res" where
  "usub a b = (if b \<le> a then Inr (a - b) else Inl ArithOverflow)"

definition umul :: "nat \<Rightarrow> nat \<Rightarrow> nat res" where
  "umul a b = (if a * b < 2 ^ 64 then Inr (a * b) else Inl ArithOverflow)"

text \<open>
  A shift to the left: the shift amount is checked, the bits shifted out are lost.
\<close>

definition ushl :: "nat \<Rightarrow> nat \<Rightarrow> nat res" where
  "ushl a k = (if k < 64 then Inr ((a * 2 ^ k) mod 2 ^ 64) else Inl ArithOverflow)"

definition ushr :: "nat \<Rightarrow> nat \<Rightarrow> nat res" where
  "ushr a k = (if k < 64 then Inr (a div 2 ^ k) else Inl ArithOverflow)"

lemma uadd_ok [simp]: "a + b < 2 ^ 64 \<Longrightarrow> uadd a b = Inr (a + b)"
  by (simp add: uadd_def)

lemma usub_ok [simp]: "b \<le> a \<Longrightarrow> usub a b = Inr (a - b)"
  by (simp add: usub_def)

lemma umul_ok [simp]: "a * b < 2 ^ 64 \<Longrightarrow> umul a b = Inr (a * b)"
  by (simp add: umul_def)

lemma ushl_ok: "k < 64 \<Longrightarrow> a * 2 ^ k < 2 ^ 64 \<Longrightarrow> ushl a k = Inr (a * 2 ^ k)"
  by (simp add: ushl_def)

lemma ushr_ok: "k < 64 \<Longrightarrow> ushr a k = Inr (a div 2 ^ k)"
  by (simp add: ushr_def)

lemmas checked_defs = uadd_def usub_def umul_def ushl_def ushr_def

section \<open>Integer helpers of the Rust core library\<close>

text \<open>
  \<^verbatim>\<open>lowest_one\<close> and \<^verbatim>\<open>highest_one\<close> give the position of the least and of the most
  significant set bit; \<^verbatim>\<open>next_power_of_two\<close> the least power of two not below its
  argument (of 0 it is 1), with a panic when that does not fit 64 bits.
\<close>

fun trailing_zeros :: "nat \<Rightarrow> nat" where
  "trailing_zeros n = (if n = 0 \<or> odd n then 0 else Suc (trailing_zeros (n div 2)))"

fun top_bit :: "nat \<Rightarrow> nat" where
  "top_bit n = (if n < 2 then 0 else Suc (top_bit (n div 2)))"

declare trailing_zeros.simps [simp del] top_bit.simps [simp del]

definition lowest_one :: "nat \<Rightarrow> nat option" where
  "lowest_one n = (if n = 0 then None else Some (trailing_zeros n))"

definition highest_one :: "nat \<Rightarrow> nat option" where
  "highest_one n = (if n = 0 then None else Some (top_bit n))"

definition next_power_of_two :: "nat \<Rightarrow> nat res" where
  "next_power_of_two n =
     (if n \<le> 1 then Inr 1
      else if n \<le> 2 ^ 63 then Inr (2 ^ Suc (top_bit (n - 1)))
      else Inl ArithOverflow)"

lemma top_bit_bounds: "0 < n \<Longrightarrow> 2 ^ top_bit n \<le> n \<and> n < 2 ^ Suc (top_bit n)"
proof (induction n rule: top_bit.induct)
  case (1 n)
  show ?case
  proof (cases "n < 2")
    case True
    with 1(2) show ?thesis by (simp add: top_bit.simps)
  next
    case False
    with 1 have "2 ^ top_bit (n div 2) \<le> n div 2 \<and> n div 2 < 2 ^ Suc (top_bit (n div 2))"
      by simp
    then have "2 ^ Suc (top_bit (n div 2)) \<le> n" "n < 2 ^ Suc (Suc (top_bit (n div 2)))"
      by (simp_all, linarith+)
    with False show ?thesis by (simp add: top_bit.simps [of n])
  qed
qed

lemma trailing_zeros_power [simp]: "trailing_zeros (2 ^ k) = k"
  by (induction k) (simp_all add: trailing_zeros.simps)

lemma next_power_of_two_cover:
  assumes "n \<le> 2 ^ k" "k \<le> 63"
  obtains j where "next_power_of_two n = Inr (2 ^ j)" "n \<le> 2 ^ j" "j \<le> k"
    "0 < j \<Longrightarrow> 2 ^ (j - 1) < n"
proof (cases "n \<le> 1")
  case True
  then show ?thesis using that [of 0] by (auto simp: next_power_of_two_def)
next
  case False
  let ?t = "top_bit (n - 1)"
  from False have b: "2 ^ ?t \<le> n - 1" "n - 1 < 2 ^ Suc ?t"
    using top_bit_bounds [of "n - 1"] by auto
  have "(2::nat) ^ k \<le> 2 ^ 63"
    using assms(2) by (intro power_increasing) auto
  with assms have le: "n \<le> 2 ^ 63" by linarith
  have "(2::nat) ^ ?t < 2 ^ k"
    using b(1) assms(1) False by linarith
  then have "?t < k" by (simp add: power_strict_increasing_iff)
  with b le False show ?thesis
    using that [of "Suc ?t"] by (auto simp: next_power_of_two_def)
qed

section \<open>Intervals of powers of two\<close>

lemma div_power_Suc: "(f::nat) div 2 ^ Suc l = (f div 2 ^ l) div 2"
  by (metis div_mult2_eq power_Suc2)

lemma div_eq_iff_interval:
  "0 < (d::nat) \<Longrightarrow> f div d = k \<longleftrightarrow> k * d \<le> f \<and> f < (k + 1) * d"
  by (metis div_nat_eqI dividend_less_div_times mult.commute mult_Suc_right
      times_div_less_eq_dividend Suc_eq_plus1)

lemma top_bit_power: "top_bit (2 ^ k) = k"
proof -
  have "2 ^ top_bit (2 ^ k) \<le> (2::nat) ^ k" "(2::nat) ^ k < 2 ^ Suc (top_bit (2 ^ k))"
    using top_bit_bounds [of "2 ^ k"] by simp_all
  then have "top_bit (2 ^ k) \<le> k" "k < Suc (top_bit (2 ^ k))"
    by (simp_all only: power_increasing_iff power_strict_increasing_iff)
  then show ?thesis by simp
qed

end
