(* ===== verification/X86_Crate.thy ===== *)
theory X86_Crate
  imports Prelude
begin

text \<open>
  The address arithmetic the kernel takes from the \<^verbatim>\<open>x86_64\<close> crate. The crate is not part
  of the repository, so its operations are a parameter: a record of functions that the
  definitions using them take as an argument. The locale states the documented behaviour
  the kernel relies on, and \<open>x86_doc\<close> is the instance that follows the documentation
  word by word.

  A \<^verbatim>\<open>VirtAddr\<close>, a \<^verbatim>\<open>PhysAddr\<close> and the start address of a \<^verbatim>\<open>Page\<close> or a \<^verbatim>\<open>PhysFrame\<close>
  are the number they wrap.
\<close>

definition canonical :: "nat \<Rightarrow> bool" where
  "canonical a \<longleftrightarrow> a < 2 ^ 47 \<or> (2 ^ 64 - 2 ^ 47 \<le> a \<and> a < 2 ^ 64)"

record x86_ops =
  va_new :: "nat \<Rightarrow> nat res"
  va_new_truncate :: "nat \<Rightarrow> nat"
  va_add :: "nat \<Rightarrow> nat \<Rightarrow> nat res"
  va_sub_u64 :: "nat \<Rightarrow> nat \<Rightarrow> nat res"
  va_diff :: "nat \<Rightarrow> nat \<Rightarrow> nat res"
  va_align_down :: "nat \<Rightarrow> nat \<Rightarrow> nat res"
  va_align_up :: "nat \<Rightarrow> nat \<Rightarrow> nat res"
  page_add :: "nat \<Rightarrow> nat \<Rightarrow> nat \<Rightarrow> nat res"
  page_sub :: "nat \<Rightarrow> nat \<Rightarrow> nat \<Rightarrow> nat res"
  pa_new :: "nat \<Rightarrow> nat res"
  frame_add :: "nat \<Rightarrow> nat \<Rightarrow> nat \<Rightarrow> nat res"
  pa_add :: "nat \<Rightarrow> nat \<Rightarrow> nat res"
  frame_containing :: "nat \<Rightarrow> nat \<Rightarrow> nat"
  frame_range :: "nat \<Rightarrow> nat \<Rightarrow> nat \<Rightarrow> nat list"
  page_from_start :: "nat \<Rightarrow> nat \<Rightarrow> nat option"
  frame_from_start :: "nat \<Rightarrow> nat \<Rightarrow> nat option"
  align_up_u64 :: "nat \<Rightarrow> nat \<Rightarrow> nat res"

text \<open>
  \<open>page_add X s p n\<close> is \<^verbatim>\<open>page + n\<close> for a page of size \<open>s\<close> that starts at \<open>p\<close>, and \<open>page_sub\<close>
  is \<^verbatim>\<open>page - n\<close>; \<open>frame_add\<close> is the addition on physical frames. \<open>frame_range\<close> lists the frames of
  \<^verbatim>\<open>PhysFrame::range_inclusive\<close>; \<open>page_from_start\<close> and \<open>frame_from_start\<close> are the fallible
  \<^verbatim>\<open>from_start_address\<close>; \<open>align_up_u64\<close> is the free function \<^verbatim>\<open>align_up\<close>.
\<close>

locale x86_64 =
  fixes X :: x86_ops
  assumes va_new: "va_new X a = (if canonical a then Inr a else Inl LibPanic)"
    and va_new_truncate: "canonical a \<Longrightarrow> va_new_truncate X a = a"
    and va_new_truncate_high:
      "2 ^ 47 \<le> a \<Longrightarrow> a < 2 ^ 48 \<Longrightarrow> va_new_truncate X a = a + (2 ^ 64 - 2 ^ 48)"
    and va_add: "canonical a \<Longrightarrow> canonical (a + b) \<Longrightarrow> va_add X a b = Inr (a + b)"
    and va_add_bad: "\<not> canonical (a + b) \<Longrightarrow> va_add X a b = Inl LibPanic"
    and va_sub_u64: "canonical a \<Longrightarrow> b \<le> a \<Longrightarrow> canonical (a - b) \<Longrightarrow> va_sub_u64 X a b = Inr (a - b)"
    and va_diff: "canonical a \<Longrightarrow> b \<le> a \<Longrightarrow> va_diff X a b = Inr (a - b)"
    and va_align_down:
      "canonical a \<Longrightarrow> k < 47 \<Longrightarrow> va_align_down X a (2 ^ k) = Inr (a div 2 ^ k * 2 ^ k)"
    and va_align_up:
      "canonical a \<Longrightarrow> k < 47 \<Longrightarrow> canonical ((a + 2 ^ k - 1) div 2 ^ k * 2 ^ k) \<Longrightarrow>
       va_align_up X a (2 ^ k) = Inr ((a + 2 ^ k - 1) div 2 ^ k * 2 ^ k)"
    and page_add: "canonical p \<Longrightarrow> canonical (p + n * s) \<Longrightarrow> page_add X s p n = Inr (p + n * s)"
    and page_sub: "canonical p \<Longrightarrow> n * s \<le> p \<Longrightarrow> canonical (p - n * s) \<Longrightarrow>
      page_sub X s p n = Inr (p - n * s)"
    and pa_new: "pa_new X a = (if a < 2 ^ 52 then Inr a else Inl LibPanic)"
    and frame_add: "p + n * s < 2 ^ 52 \<Longrightarrow> frame_add X s p n = Inr (p + n * s)"
    and pa_add: "a + b < 2 ^ 52 \<Longrightarrow> pa_add X a b = Inr (a + b)"
    and frame_containing: "frame_containing X s a = a div s * s"
    and frame_range: "0 < s \<Longrightarrow> f \<le> l \<Longrightarrow>
      frame_range X s f l = map (\<lambda>i. f + i * s) [0..<(l - f) div s + 1]"
    and page_from_start: "page_from_start X s a = (if a mod s = 0 then Some a else None)"
    and frame_from_start: "frame_from_start X s a = (if a mod s = 0 then Some a else None)"
    and align_up_u64: "align_up_u64 X a (2 ^ k) =
      (if (a + 2 ^ k - 1) div 2 ^ k * 2 ^ k < 2 ^ 64 then Inr ((a + 2 ^ k - 1) div 2 ^ k * 2 ^ k) else Inl LibPanic)"

definition x86_doc :: x86_ops where
  "x86_doc = \<lparr>
     va_new = (\<lambda>a. if canonical a then Inr a else Inl LibPanic),
     va_new_truncate = (\<lambda>a. if a mod 2 ^ 48 < 2 ^ 47 then a mod 2 ^ 48
                            else a mod 2 ^ 48 + (2 ^ 64 - 2 ^ 48)),
     va_add = (\<lambda>a b. if canonical (a + b) then Inr (a + b) else Inl LibPanic),
     va_sub_u64 = (\<lambda>a b. if b \<le> a \<and> canonical (a - b) then Inr (a - b) else Inl LibPanic),
     va_diff = (\<lambda>a b. if b \<le> a then Inr (a - b) else Inl LibPanic),
     va_align_down = (\<lambda>a k. Inr (a div k * k)),
     va_align_up = (\<lambda>a k. let r = (a + k - 1) div k * k
                          in if r < 2 ^ 64 then Inr r else Inl LibPanic),
     page_add = (\<lambda>s p n. if canonical (p + n * s) then Inr (p + n * s) else Inl LibPanic),
     page_sub = (\<lambda>s p n. if n * s \<le> p \<and> canonical (p - n * s) then Inr (p - n * s) else Inl LibPanic),
     pa_new = (\<lambda>a. if a < 2 ^ 52 then Inr a else Inl LibPanic),
     frame_add = (\<lambda>s p n. if p + n * s < 2 ^ 52 then Inr (p + n * s) else Inl LibPanic),
     pa_add = (\<lambda>a b. if a + b < 2 ^ 52 then Inr (a + b) else Inl LibPanic),
     frame_containing = (\<lambda>s a. a div s * s),
     frame_range = (\<lambda>s f l. map (\<lambda>i. f + i * s) [0..<(l - f) div s + 1]),
     page_from_start = (\<lambda>s a. if a mod s = 0 then Some a else None),
     frame_from_start = (\<lambda>s a. if a mod s = 0 then Some a else None),
     align_up_u64 = (\<lambda>a k. if k = 0 \<or> 2 ^ top_bit k \<noteq> k then Inl LibPanic
        else let r = (a + k - 1) div k * k in if r < 2 ^ 64 then Inr r else Inl LibPanic)\<rparr>"

lemma canonical_less: "canonical a \<Longrightarrow> a < 2 ^ 64"
  by (auto simp: canonical_def)

lemma canonical_low: "a < 2 ^ 47 \<Longrightarrow> canonical a"
  by (simp add: canonical_def)

lemma canonical_high: "2 ^ 64 - 2 ^ 47 \<le> a \<Longrightarrow> a < 2 ^ 64 \<Longrightarrow> canonical a"
  by (simp add: canonical_def)

text \<open>Between two addresses of the upper half every address is canonical.\<close>

lemma canonical_between:
  assumes "2 ^ 64 - 2 ^ 47 \<le> a" "a \<le> b" "b < 2 ^ 64"
  shows "canonical b"
  using assms by (intro canonical_high) auto

interpretation x86d: x86_64 x86_doc
proof
  show "va_new_truncate x86_doc a = a" if "canonical a" for a
  proof (cases "a < 2 ^ 47")
    case False
    with that have "a = (2 ^ 64 - 2 ^ 48) + (a - (2 ^ 64 - 2 ^ 48))"
      and b: "2 ^ 47 \<le> a - (2 ^ 64 - 2 ^ 48)" "a - (2 ^ 64 - 2 ^ 48) < 2 ^ 48"
      by (auto simp: canonical_def)
    then have "a mod 2 ^ 48 = (65535 * 2 ^ 48 + (a - (2 ^ 64 - 2 ^ 48))) mod 2 ^ 48"
      by simp
    also have "\<dots> = a - (2 ^ 64 - 2 ^ 48)"
      using b by (simp only: mod_mult_self3 mod_less)
    finally have m: "a mod 2 ^ 48 = a - (2 ^ 64 - 2 ^ 48)" .
    then show ?thesis using b by (simp add: x86_doc_def)
  qed (simp add: x86_doc_def)
next
  show "va_new_truncate x86_doc a = a + (2 ^ 64 - 2 ^ 48)" if "2 ^ 47 \<le> a" "a < 2 ^ 48" for a
    using that by (simp only: x86_doc_def x86_ops.simps mod_less) simp
next
  show "va_align_up x86_doc a (2 ^ k) = Inr ((a + 2 ^ k - 1) div 2 ^ k * 2 ^ k)"
    if "canonical ((a + 2 ^ k - 1) div 2 ^ k * 2 ^ k)" for a k
    using canonical_less [OF that] by (simp add: x86_doc_def Let_def)
qed (simp_all add: x86_doc_def Let_def top_bit_power)

end
