(* ===== verification/Bit_Array.thy ===== *)
theory Bit_Array
  imports Prelude
begin

text \<open>
  The fixed-length bit array of the \<^verbatim>\<open>bitvec\<close> crate, which the frame allocator and the
  stack manager keep their state in. The crate is not part of the repository: its
  operations are a record of functions taken as an argument, and the locale states the
  documented behaviour. \<open>bits\<close> is the set of the indices whose bit is one, read off the
  array with its own index operation. \<open>bitset_ops\<close> is the instance in which an array is
  this set.
\<close>

record 'b bit_ops =
  bit_get :: "'b \<Rightarrow> nat \<Rightarrow> bool res"
  bit_set :: "'b \<Rightarrow> nat \<Rightarrow> bool \<Rightarrow> 'b res"
  bit_first_one :: "'b \<Rightarrow> nat \<Rightarrow> nat option res"
  bit_fill :: "'b \<Rightarrow> nat \<Rightarrow> nat \<Rightarrow> bool \<Rightarrow> 'b res"

text \<open>
  \<open>bit_first_one B b s\<close> is \<^verbatim>\<open>b[s..].first_one()\<close>, the position of the first one relative
  to \<open>s\<close>; \<open>bit_fill B b s e v\<close> is \<^verbatim>\<open>b[s..e].fill(v)\<close>.
\<close>

definition bits :: "'b bit_ops \<Rightarrow> 'b \<Rightarrow> nat set" where
  "bits B b = {i. bit_get B b i = Inr True}"

locale bit_array =
  fixes B :: "'b bit_ops" and N :: nat
  assumes bit_get: "i < N \<Longrightarrow> bit_get B b i = Inr (i \<in> bits B b)"
    and bit_get_out: "N \<le> i \<Longrightarrow> bit_get B b i = Inl IndexOutOfBounds"
    and bit_set: "i < N \<Longrightarrow> \<exists>b'. bit_set B b i v = Inr b' \<and>
      bits B b' = (if v then insert i (bits B b) else bits B b - {i})"
    and bit_set_out: "N \<le> i \<Longrightarrow> bit_set B b i v = Inl IndexOutOfBounds"
    and bit_first_one: "s \<le> N \<Longrightarrow> bit_first_one B b s =
      Inr (if \<exists>i\<in>bits B b. s \<le> i then Some (Min {i \<in> bits B b. s \<le> i} - s) else None)"
    and bit_first_one_out: "N < s \<Longrightarrow> bit_first_one B b s = Inl IndexOutOfBounds"
    and bit_fill: "s \<le> e \<Longrightarrow> e \<le> N \<Longrightarrow> \<exists>b'. bit_fill B b s e v = Inr b' \<and>
      bits B b' = (if v then bits B b \<union> {s..<e} else bits B b - {s..<e})"
    and bit_fill_out: "\<not> (s \<le> e \<and> e \<le> N) \<Longrightarrow> bit_fill B b s e v = Inl IndexOutOfBounds"
begin

lemma bits_bound: "i \<in> bits B b \<Longrightarrow> i < N"
  using bit_get_out [of i b] by (cases "i < N") (auto simp: bits_def)

lemma finite_bits: "finite (bits B b)"
  by (rule finite_subset [of _ "{..<N}"]) (auto dest: bits_bound)

lemma set_True:
  assumes "i < N"
  obtains b' where "bit_set B b i True = Inr b'" "bits B b' = insert i (bits B b)"
  using bit_set [OF assms, of b True] by auto

lemma set_False:
  assumes "i < N"
  obtains b' where "bit_set B b i False = Inr b'" "bits B b' = bits B b - {i}"
  using bit_set [OF assms, of b False] by auto

lemma first_one_None:
  "s \<le> N \<Longrightarrow> bit_first_one B b s = Inr None \<longleftrightarrow> (\<forall>i\<in>bits B b. i < s)"
  by (simp add: bit_first_one) (meson leD leI)

lemma first_one_Some:
  assumes "s \<le> N" "bit_first_one B b s = Inr (Some k)"
  shows "s + k \<in> bits B b" "\<And>i. i \<in> bits B b \<Longrightarrow> s \<le> i \<Longrightarrow> s + k \<le> i"
proof -
  let ?M = "{i \<in> bits B b. s \<le> i}"
  from assms have ne: "?M \<noteq> {}" and k: "k = Min ?M - s"
    by (auto simp: bit_first_one split: if_splits)
  have fin: "finite ?M" using finite_bits by simp
  have m: "Min ?M \<in> ?M" using fin ne by (rule Min_in)
  then show "s + k \<in> bits B b" using k by auto
  show "s + k \<le> i" if "i \<in> bits B b" "s \<le> i" for i
    using Min_le [OF fin, of i] that m k by auto
qed

end

definition bitset_ops :: "nat \<Rightarrow> nat set bit_ops" where
  "bitset_ops N = \<lparr>
     bit_get = (\<lambda>b i. if i < N then Inr (i \<in> b) else Inl IndexOutOfBounds),
     bit_set = (\<lambda>b i v. if i < N then Inr (if v then insert i b else Set.remove i b)
                        else Inl IndexOutOfBounds),
     bit_first_one = (\<lambda>b s. if s \<le> N
        then Inr (let m = Set.filter (\<lambda>i. s \<le> i \<and> i < N) b
                  in if Set.is_empty m then None else Some (Min m - s))
        else Inl IndexOutOfBounds),
     bit_fill = (\<lambda>b s e v. if s \<le> e \<and> e \<le> N
        then Inr (if v then b \<union> {s..<e} else b - {s..<e}) else Inl IndexOutOfBounds)\<rparr>"

lemma bitset_sel:
  "bit_get (bitset_ops N) b i = (if i < N then Inr (i \<in> b) else Inl IndexOutOfBounds)"
  "bit_set (bitset_ops N) b i v =
     (if i < N then Inr (if v then insert i b else b - {i}) else Inl IndexOutOfBounds)"
  "bit_first_one (bitset_ops N) b s =
     (if s \<le> N
      then Inr (if {i \<in> b. s \<le> i \<and> i < N} = {} then None
                else Some (Min {i \<in> b. s \<le> i \<and> i < N} - s))
      else Inl IndexOutOfBounds)"
  "bit_fill (bitset_ops N) b s e v =
     (if s \<le> e \<and> e \<le> N then Inr (if v then b \<union> {s..<e} else b - {s..<e})
      else Inl IndexOutOfBounds)"
  by (simp_all add: bitset_ops_def Let_def)

lemma bits_bitset: "bits (bitset_ops N) b = {i \<in> b. i < N}"
  by (auto simp: bits_def bitset_sel split: if_splits)

interpretation bset: bit_array "bitset_ops N" N for N
proof
  fix b :: "nat set" and s
  have "{i \<in> b. s \<le> i \<and> i < N} = {i \<in> {i \<in> b. i < N}. s \<le> i}" by auto
  moreover have "({i \<in> {i \<in> b. i < N}. s \<le> i} = {}) = (\<not> (\<exists>i\<in>{i \<in> b. i < N}. s \<le> i))"
    by blast
  ultimately show "bit_first_one (bitset_ops N) b s =
      Inr (if \<exists>i\<in>bits (bitset_ops N) b. s \<le> i
           then Some (Min {i \<in> bits (bitset_ops N) b. s \<le> i} - s) else None)"
    if "s \<le> N" using that by (simp only: bitset_sel bits_bitset if_True if_not_P if_P split: if_split) blast
next
  fix b :: "nat set" and s e v
  show "\<exists>b'. bit_fill (bitset_ops N) b s e v = Inr b' \<and> bits (bitset_ops N) b' =
      (if v then bits (bitset_ops N) b \<union> {s..<e} else bits (bitset_ops N) b - {s..<e})"
    if "s \<le> e" "e \<le> N" using that by (simp add: bitset_sel bits_bitset) auto
next
  fix b :: "nat set" and i v
  show "\<exists>b'. bit_set (bitset_ops N) b i v = Inr b' \<and> bits (bitset_ops N) b' =
      (if v then insert i (bits (bitset_ops N) b) else bits (bitset_ops N) b - {i})"
    if "i < N" using that by (simp add: bitset_sel bits_bitset) auto
qed (simp_all add: bitset_sel bits_bitset)

end
