(* ===== verification/Limine.thy ===== *)
theory Limine
  imports Prelude
begin

text \<open>
  The part of the boot protocol that the memory management reads: the memory map
  (\<^verbatim>\<open>limine/memmap.rs\<close>).
\<close>

datatype MemmapType =
    Usable
  | Reserved
  | AcpiReclaimable
  | AcpiNvs
  | BadMemory
  | BootloaderReclaimable
  | ExecutableAndModules
  | Framebuffer
  | ReservedMapped

record MemmapEntry =
  mm_base :: nat
  mm_length :: nat
  mm_ty :: MemmapType

end
