(* ===== verification/Frame_Meaning.thy ===== *)
theory Frame_Meaning
  imports Frame_Allocator
begin

text \<open>
  What the bit array of the frame allocator means. The chunk with index \<open>k\<close> of level \<open>l\<close>
  consists of the frames \<open>f\<close> with \<open>f div 2 ^ l = k\<close>, and its bit stands at
  \<open>level_start l + k\<close>. A frame is free when the bit of one of its sixteen chunks is set;
  the array is well-formed when that chunk is unique for every free frame.
\<close>

section \<open>The levels and their offsets\<close>

definition level_start :: "nat \<Rightarrow> nat" where
  "level_start l = 2 ^ 25 - 2 ^ (25 - l)"

lemma level_start_Suc: "l < 25 \<Longrightarrow> level_start (Suc l) = level_start l + 2 ^ (24 - l)"
proof -
  assume "l < 25"
  then have "(2::nat) ^ (25 - l) = 2 * 2 ^ (24 - l)" "25 - Suc l = 24 - l"
    by (simp_all flip: power_Suc add: Suc_diff_le)
  moreover have "(2::nat) ^ (24 - l) \<le> 2 ^ 24" by (rule power_increasing) auto
  ultimately show ?thesis by (simp add: level_start_def)
qed

lemma MAX_BUDDY_BITS_power: "MAX_BUDDY_BITS = 2 ^ 25"
  by (simp add: MAX_BUDDY_BITS_def MAX_PHYS_MAP_PAGES_def MAX_PHYS_MAP_def PAGE_SIZE_def)

lemma level_start_mono: "l \<le> l' \<Longrightarrow> level_start l \<le> level_start l'"
  unfolding level_start_def
  by (rule diff_le_mono2, rule power_increasing) auto

lemma LEVEL_OFFSETS_fold:
  "0 < n \<Longrightarrow> n \<le> 17 \<Longrightarrow>
   fold (\<lambda>level slice. slice[level := slice ! (level - 1) + MAX_BUDDY_BITS div 2 ^ level])
     [1..<n] (replicate 17 0) = map (\<lambda>l. if l < n then level_start l else 0) [0..<17]"
proof (induction n)
  case (Suc n)
  show ?case
  proof (cases "n = 0")
    case True
    then show ?thesis by (auto intro!: nth_equalityI simp: level_start_def)
  next
    case False
    have "MAX_BUDDY_BITS div 2 ^ n = 2 ^ (25 - n)"
      using Suc.prems by (simp only: MAX_BUDDY_BITS_power power_diff)
    moreover have "level_start n = level_start (n - 1) + 2 ^ (25 - n)"
      using False Suc.prems level_start_Suc [of "n - 1"] by simp
    ultimately show ?thesis
      using False Suc by (auto intro!: nth_equalityI simp: nth_list_update less_Suc_eq simp del: upt_Suc)
        (auto simp: upt_Suc nth_list_update)
  qed
qed simp

lemma LEVEL_OFFSETS_table:
  "LEVEL_OFFSETS = map level_start [0..<17]"
  using LEVEL_OFFSETS_fold [of 17]
  by (simp add: LEVEL_OFFSETS_def BUDDY_LEVELS_def del: upt_Suc)

lemma length_LEVEL_OFFSETS [simp]: "length LEVEL_OFFSETS = 17"
  by (simp add: LEVEL_OFFSETS_table)

lemma LEVEL_OFFSETS_nth [simp]: "l \<le> 16 \<Longrightarrow> LEVEL_OFFSETS ! l = level_start l"
  by (simp add: LEVEL_OFFSETS_table del: upt_Suc)

lemma BUDDY_LEVELS_16 [simp]: "BUDDY_LEVELS = 16"
  by (simp add: BUDDY_LEVELS_def)

lemma level_start_0 [simp]: "level_start 0 = 0"
  by (simp add: level_start_def)

lemma TOTAL_start: "TOTAL_BUDDY_BITS = level_start 16"
  by (simp add: TOTAL_BUDDY_BITS_def)

lemma even_level_start: "l \<le> 16 \<Longrightarrow> even (level_start l)"
  by (simp add: level_start_def)

lemma level_offset_ok [simp]: "l \<le> 16 \<Longrightarrow> level_offset l = Inr (level_start l)"
  by (simp add: level_offset_def)

text \<open>The bit of a chunk determines the level and the index.\<close>

lemma level_bit_less:
  assumes "l < 16" "k < 2 ^ (24 - l)"
  shows "level_start l + k < level_start (Suc l)"
  using assms by (simp add: level_start_Suc)

lemma level_bit_total:
  assumes "l < 16" "k < 2 ^ (24 - l)"
  shows "level_start l + k < TOTAL_BUDDY_BITS"
proof -
  have "level_start (Suc l) \<le> level_start 16" using assms(1) by (intro level_start_mono) auto
  with level_bit_less [OF assms] show ?thesis by (simp add: TOTAL_start)
qed

lemma level_bit_inj:
  assumes "l < 16" "k < 2 ^ (24 - l)" "l' < 16" "k' < 2 ^ (24 - l')"
  shows "level_start l + k = level_start l' + k' \<longleftrightarrow> l = l' \<and> k = k'"
proof (cases l l' rule: linorder_cases)
  case less
  then have "level_start (Suc l) \<le> level_start l'" by (intro level_start_mono) auto
  with less level_bit_less [OF assms(1,2)] show ?thesis by auto
next
  case greater
  then have "level_start (Suc l') \<le> level_start l" by (intro level_start_mono) auto
  with greater level_bit_less [OF assms(3,4)] show ?thesis by auto
qed auto

lemma level_bit_exists:
  assumes "i < TOTAL_BUDDY_BITS"
  obtains l k where "l < 16" "k < 2 ^ (24 - l)" "i = level_start l + k"
proof -
  let ?P = "\<lambda>l. i < level_start (Suc l)"
  have P15: "?P 15" using assms by (simp add: TOTAL_start)
  define l where "l = (LEAST l. ?P l)"
  have l: "?P l" unfolding l_def using P15 by (rule LeastI)
  have l15: "l \<le> 15" unfolding l_def using P15 by (rule Least_le)
  have "level_start l \<le> i"
  proof (cases l)
    case (Suc m)
    then have "\<not> ?P m" using not_less_Least [of m ?P] l_def by simp
    with Suc show ?thesis by simp
  qed simp
  with l l15 show ?thesis
    using that [of l "i - level_start l"] by (simp add: level_start_Suc)
qed

section \<open>Free frames\<close>

definition N_FRAMES :: nat where
  "N_FRAMES = 2 ^ 24"

definition chunk :: "nat \<Rightarrow> nat \<Rightarrow> nat set" where
  "chunk k l = {f. f div 2 ^ l = k}"

definition free_at :: "nat set \<Rightarrow> nat \<Rightarrow> nat \<Rightarrow> bool" where
  "free_at S f l \<longleftrightarrow> level_start l + f div 2 ^ l \<in> S"

definition free_frames :: "nat set \<Rightarrow> nat set" where
  "free_frames S = {f. f < N_FRAMES \<and> (\<exists>l<16. free_at S f l)}"

definition buddy_wf :: "nat set \<Rightarrow> bool" where
  "buddy_wf S \<longleftrightarrow>
     (\<forall>f<N_FRAMES. \<forall>l<16. \<forall>l'<16. free_at S f l \<longrightarrow> free_at S f l' \<longrightarrow> l = l')"

lemma chunk_interval: "chunk k l = {k * 2 ^ l..<(k + 1) * 2 ^ l}"
  by (auto simp: chunk_def div_eq_iff_interval)

lemma mem_chunk: "f \<in> chunk k l \<longleftrightarrow> f div 2 ^ l = k"
  by (simp add: chunk_def)

lemma chunk_index_bound:
  assumes "f < N_FRAMES" "l \<le> 24"
  shows "f div 2 ^ l < 2 ^ (24 - l)"
proof -
  have "(2::nat) ^ 24 = 2 ^ (24 - l) * 2 ^ l" using assms(2) by (simp flip: power_add)
  with assms(1) show ?thesis by (simp add: N_FRAMES_def div_less_iff_less_mult)
qed

lemma chunk_in_range:
  assumes "k < 2 ^ (24 - l)" "l \<le> 24" "f \<in> chunk k l"
  shows "f < N_FRAMES"
proof -
  have "f < (k + 1) * 2 ^ l" using assms(3) by (simp add: chunk_interval)
  also have "\<dots> \<le> 2 ^ (24 - l) * 2 ^ l" using assms(1) by (intro mult_le_mono1) simp
  also have "\<dots> = 2 ^ 24" using assms(2) by (simp flip: power_add)
  finally show ?thesis by (simp add: N_FRAMES_def)
qed

lemma free_at_insert:
  assumes "l < 16" "k < 2 ^ (24 - l)" "l' < 16" "f < N_FRAMES"
  shows "free_at (insert (level_start l + k) S) f l' \<longleftrightarrow> (l' = l \<and> f \<in> chunk k l) \<or> free_at S f l'"
  using level_bit_inj [OF assms(1,2,3), of "f div 2 ^ l'"] chunk_index_bound [OF assms(4), of l'] assms(3)
  by (auto simp: free_at_def mem_chunk)

lemma free_at_remove:
  assumes "l < 16" "k < 2 ^ (24 - l)" "l' < 16" "f < N_FRAMES"
  shows "free_at (S - {level_start l + k}) f l' \<longleftrightarrow> \<not> (l' = l \<and> f \<in> chunk k l) \<and> free_at S f l'"
  using level_bit_inj [OF assms(1,2,3), of "f div 2 ^ l'"] chunk_index_bound [OF assms(4), of l'] assms(3)
  by (auto simp: free_at_def mem_chunk)

lemma free_frames_insert:
  assumes "l < 16" "k < 2 ^ (24 - l)"
  shows "free_frames (insert (level_start l + k) S) = free_frames S \<union> chunk k l"
  using assms chunk_in_range [OF assms(2)]
  by (auto simp: free_frames_def free_at_insert)

lemma buddy_wf_insert:
  assumes "l < 16" "k < 2 ^ (24 - l)" "buddy_wf S" "free_frames S \<inter> chunk k l = {}"
  shows "buddy_wf (insert (level_start l + k) S)"
  using assms by (auto simp: buddy_wf_def free_at_insert free_frames_def)

lemma buddy_wf_subset: "buddy_wf S \<Longrightarrow> T \<subseteq> S \<Longrightarrow> buddy_wf T"
  unfolding buddy_wf_def free_at_def by blast

lemma chunk_subset_free:
  assumes "l < 16" "k < 2 ^ (24 - l)" "level_start l + k \<in> S"
  shows "chunk k l \<subseteq> free_frames S"
  using assms chunk_in_range [OF assms(2)]
  by (auto simp: free_frames_def free_at_def mem_chunk intro!: exI [of _ l])

lemma free_frames_remove:
  assumes "l < 16" "k < 2 ^ (24 - l)" "buddy_wf S" "level_start l + k \<in> S"
  shows "free_frames (S - {level_start l + k}) = free_frames S - chunk k l"
proof -
  have "l' = l" if "f \<in> chunk k l" "f < N_FRAMES" "l' < 16" "free_at S f l'" for f l'
    using that assms by (auto simp: buddy_wf_def free_at_def mem_chunk)
  with assms show ?thesis by (auto simp: free_frames_def free_at_remove)
qed

lemma free_frames_remove_absent:
  assumes "free_frames S \<inter> chunk k l = {}" "l < 16" "k < 2 ^ (24 - l)"
  shows "free_frames (S - {level_start l + k}) = free_frames S"
proof -
  have "f \<notin> chunk k l" if "f < N_FRAMES" "l' < 16" "free_at S f l'" for f l'
    using assms(1) that by (auto simp: free_frames_def)
  with assms(2,3) show ?thesis by (auto simp: free_frames_def free_at_remove)
qed

lemma not_free_not_set:
  assumes "free_frames S \<inter> chunk k l = {}" "l < 16" "k < 2 ^ (24 - l)"
  shows "level_start l + k \<notin> S"
proof
  assume "level_start l + k \<in> S"
  then have "chunk k l \<subseteq> free_frames S" by (rule chunk_subset_free [OF assms(2,3)])
  moreover have "k * 2 ^ l \<in> chunk k l" by (simp add: mem_chunk)
  ultimately show False using assms(1) by auto
qed

text \<open>Several chunks of one level that become free together.\<close>

lemma free_frames_region:
  assumes "\<And>f l. f < N_FRAMES \<Longrightarrow> l < 16 \<Longrightarrow> free_at T f l \<longleftrightarrow> free_at S f l \<or> (l = L \<and> f \<in> R)"
    and "L < 16" "\<And>f. f \<in> R \<Longrightarrow> f < N_FRAMES"
  shows "free_frames T = free_frames S \<union> R"
  unfolding free_frames_def using assms by blast

lemma buddy_wf_region:
  assumes "\<And>f l. f < N_FRAMES \<Longrightarrow> l < 16 \<Longrightarrow> free_at T f l \<longleftrightarrow> free_at S f l \<or> (l = L \<and> f \<in> R)"
    and "buddy_wf S" "free_frames S \<inter> R = {}"
  shows "buddy_wf T"
  using assms(2,3) unfolding buddy_wf_def free_frames_def by (simp add: assms(1)) blast

text \<open>A chunk is the disjoint union of its two buddies.\<close>

lemma chunk_split: "chunk i (Suc l) = chunk (2 * i) l \<union> chunk (2 * i + 1) l"
proof -
  have "g div 2 = i \<longleftrightarrow> g = 2 * i \<or> g = 2 * i + 1" for g :: nat by presburger
  then have "f div 2 ^ Suc l = i \<longleftrightarrow> f div 2 ^ l = 2 * i \<or> f div 2 ^ l = 2 * i + 1" for f
    unfolding div_power_Suc .
  then show ?thesis by (auto simp: mem_chunk simp del: power_Suc)
qed

lemma chunk_disjoint: "k \<noteq> k' \<Longrightarrow> chunk k l \<inter> chunk k' l = {}"
  by (auto simp: mem_chunk)

lemma chunk_nonempty: "chunk k l \<noteq> {}"
proof -
  have "k * 2 ^ l \<in> chunk k l" by (simp add: mem_chunk)
  then show ?thesis by auto
qed

lemma buddy_index_bound: "(i::nat) < 2 ^ (24 - Suc l) \<Longrightarrow> l < 24 \<Longrightarrow> 2 * i + 1 < 2 ^ (24 - l)"
proof -
  assume a: "i < 2 ^ (24 - Suc l)" "l < 24"
  then have "(2::nat) ^ (24 - l) = 2 * 2 ^ (24 - Suc l)"
    by (simp flip: power_Suc add: Suc_diff_Suc)
  with a show ?thesis by simp
qed

text \<open>Whether a chunk of level \<open>m\<close> or above is free.\<close>

definition has_chunk :: "nat set \<Rightarrow> nat \<Rightarrow> bool" where
  "has_chunk S m \<longleftrightarrow> (\<exists>l k. m \<le> l \<and> l < 16 \<and> k < 2 ^ (24 - l) \<and> level_start l + k \<in> S)"

lemma has_chunk_iff:
  assumes "S \<subseteq> {..<TOTAL_BUDDY_BITS}"
  shows "has_chunk S m \<longleftrightarrow> (\<exists>i\<in>S. level_start m \<le> i)"
proof
  assume "has_chunk S m"
  then obtain l k where "m \<le> l" "level_start l + k \<in> S" by (auto simp: has_chunk_def)
  moreover have "level_start m \<le> level_start l" using \<open>m \<le> l\<close> by (rule level_start_mono)
  ultimately show "\<exists>i\<in>S. level_start m \<le> i" by (auto intro: trans_le_add1)
next
  assume "\<exists>i\<in>S. level_start m \<le> i"
  then obtain i where i: "i \<in> S" "level_start m \<le> i" by blast
  with assms have "i < TOTAL_BUDDY_BITS" by auto
  then obtain l k where lk: "l < 16" "k < 2 ^ (24 - l)" "i = level_start l + k"
    by (rule level_bit_exists)
  have "m \<le> l"
  proof (rule ccontr)
    assume "\<not> m \<le> l"
    then have "level_start (Suc l) \<le> level_start m" by (intro level_start_mono) auto
    with level_bit_less [OF lk(1,2)] lk(3) i(2) show False by simp
  qed
  with lk i show "has_chunk S m" unfolding has_chunk_def by blast
qed

end
