(* ===== verification/Frame_Correct.thy ===== *)
theory Frame_Correct
  imports Frame_Meaning
begin

text \<open>
  Correctness of the frame allocator, for every bit array and address arithmetic that
  behave as documented: what each operation of \<^verbatim>\<open>RuneFrameAllocator\<close> does to the set of
  free frames, that it keeps the array well-formed, and that it does not panic.
\<close>

abbreviation free_in :: "'b bit_ops \<Rightarrow> 'b \<Rightarrow> nat set" where
  "free_in B b \<equiv> free_frames (bits B b)"

abbreviation wf_in :: "'b bit_ops \<Rightarrow> 'b \<Rightarrow> bool" where
  "wf_in B b \<equiv> buddy_wf (bits B b)"

text \<open>
  The result of an allocation at a level: an aligned chunk of free frames, which stop being
  free; or none, when no chunk of the level or a higher one is free.
\<close>

definition alloc_post :: "'b bit_ops \<Rightarrow> 'b \<Rightarrow> nat \<Rightarrow> 'b \<Rightarrow> nat option \<Rightarrow> bool" where
  "alloc_post B b m b' r \<longleftrightarrow>
     wf_in B b' \<and>
     (case r of
        None \<Rightarrow> b' = b \<and> (\<forall>i\<in>bits B b. i < level_start m)
      | Some addr \<Rightarrow> \<exists>k. addr = k * 2 ^ m * PAGE_SIZE \<and> k < 2 ^ (24 - m) \<and>
          chunk k m \<subseteq> free_in B b \<and> free_in B b' = free_in B b - chunk k m)"

text \<open>
  The frames of a memory map entry, and the memory maps the array can represent: the usable
  entries are page-aligned, end below \<open>N_FRAMES\<close>, and do not overlap.
\<close>

definition entry_frames :: "MemmapEntry \<Rightarrow> nat set" where
  "entry_frames e = {mm_base e div PAGE_SIZE..<mm_base e div PAGE_SIZE + mm_length e div PAGE_SIZE}"

definition entry_ok :: "MemmapEntry \<Rightarrow> bool" where
  "entry_ok e \<longleftrightarrow> PAGE_SIZE dvd mm_base e \<and>
     mm_base e div PAGE_SIZE + mm_length e div PAGE_SIZE \<le> N_FRAMES"

fun memmap_ok :: "MemmapEntry list \<Rightarrow> bool" where
  "memmap_ok [] = True"
| "memmap_ok (e # es) =
     (entry_ok e \<and> (\<forall>e'\<in>set es. entry_frames e \<inter> entry_frames e' = {}) \<and> memmap_ok es)"

abbreviation usable :: "MemmapEntry list \<Rightarrow> MemmapEntry list" where
  "usable es \<equiv> filter (\<lambda>entry. mm_ty entry = Usable) es"

lemma interval_given_back:
  "{s..<s + m} \<subseteq> A \<Longrightarrow> n \<le> m \<Longrightarrow> A - {s..<s + m} - {s..<s + m} \<union> {s + n..<s + m} = A - {s..<s + n}"
  for s m n :: nat
  by (auto simp: subset_iff not_le not_less)

locale frame_env = x86_64 X + bit_array B TOTAL_BUDDY_BITS
  for X :: x86_ops and B :: "'b bit_ops"
begin

subsection \<open>One bit\<close>

lemma bit_on:
  assumes "l < 16" "k < 2 ^ (24 - l)"
  obtains b' where "bit_set B b (level_start l + k) True = Inr b'"
    "bits B b' = insert (level_start l + k) (bits B b)"
    "free_in B b' = free_in B b \<union> chunk k l"
  using set_True [OF level_bit_total [OF assms], of b] free_frames_insert [OF assms]
  by metis

lemma bit_off:
  assumes "l < 16" "k < 2 ^ (24 - l)"
  obtains b' where "bit_set B b (level_start l + k) False = Inr b'"
    "bits B b' = bits B b - {level_start l + k}"
  using set_False [OF level_bit_total [OF assms], of b] by metis

text \<open>
  Taking a chunk: the bit goes, and with it the frames of the chunk, whether the bit was
  set or none of the frames was free.
\<close>

lemma take_chunk:
  assumes "l < 16" "k < 2 ^ (24 - l)" "wf_in B b"
    and "level_start l + k \<in> bits B b \<or> free_in B b \<inter> chunk k l = {}"
  obtains b' where "bit_set B b (level_start l + k) False = Inr b'"
    "bits B b' = bits B b - {level_start l + k}"
    "free_in B b' = free_in B b - chunk k l" "wf_in B b'"
proof -
  obtain b' where b': "bit_set B b (level_start l + k) False = Inr b'"
    "bits B b' = bits B b - {level_start l + k}"
    using bit_off [OF assms(1,2)] by metis
  have "free_in B b' = free_in B b - chunk k l"
    using assms(4)
  proof
    assume "level_start l + k \<in> bits B b"
    with b' show ?thesis by (simp add: free_frames_remove [OF assms(1,2,3)])
  next
    assume "free_in B b \<inter> chunk k l = {}"
    with b' show ?thesis by (auto simp: free_frames_remove_absent [OF _ assms(1,2)])
  qed
  moreover have "wf_in B b'"
    using buddy_wf_subset [OF assms(3)] b'(2) by auto
  ultimately show ?thesis using that b' by blast
qed

lemma put_chunk:
  assumes "l < 16" "k < 2 ^ (24 - l)" "wf_in B b" "free_in B b \<inter> chunk k l = {}"
  obtains b' where "bit_set B b (level_start l + k) True = Inr b'"
    "bits B b' = insert (level_start l + k) (bits B b)"
    "free_in B b' = free_in B b \<union> chunk k l" "wf_in B b'"
  using bit_on [OF assms(1,2), of b] buddy_wf_insert [OF assms] by metis

subsection \<open>Allocating a chunk\<close>

lemma split_chunk_ok:
  assumes "m \<le> L" "L < 16" "i < 2 ^ (24 - L)" "wf_in B b"
    and "level_start L + i \<in> bits B b \<or> free_in B b \<inter> chunk i L = {}"
  shows "\<exists>b'. split_chunk B b (rev [m..<L]) i = Inr (b', i * 2 ^ (L - m)) \<and> wf_in B b' \<and>
    (level_start m + i * 2 ^ (L - m) \<in> bits B b' \<or>
     free_in B b' \<inter> chunk (i * 2 ^ (L - m)) m = {}) \<and>
    i * 2 ^ (L - m) < 2 ^ (24 - m) \<and> chunk (i * 2 ^ (L - m)) m \<subseteq> chunk i L \<and>
    free_in B b' - chunk (i * 2 ^ (L - m)) m =
      (free_in B b \<union> chunk i L) - chunk (i * 2 ^ (L - m)) m"
  using assms
proof (induction L arbitrary: b i)
  case 0
  then show ?case by auto
next
  case (Suc L)
  show ?case
  proof (cases "m = Suc L")
    case True
    with Suc.prems show ?thesis by auto
  next
    case False
    with Suc.prems(1) have m: "m \<le> L" by simp
    from Suc.prems(2) have L: "L < 16" "Suc L < 16" by simp_all
    have ib: "2 * i + 1 < 2 ^ (24 - L)"
      using Suc.prems(2,3) by (intro buddy_index_bound) auto
    obtain b1 where b1: "bit_set B b (level_start (Suc L) + i) False = Inr b1"
      "free_in B b1 = free_in B b - chunk i (Suc L)" "wf_in B b1"
      using take_chunk [OF L(2) Suc.prems(3,4,5)] by metis
    have dis: "free_in B b1 \<inter> chunk (2 * i + 1) L = {}" "free_in B b1 \<inter> chunk (2 * i) L = {}"
      using b1(2) by (auto simp: chunk_split)
    obtain b2 where b2: "bit_set B b1 (level_start L + (2 * i + 1)) True = Inr b2"
      "free_in B b2 = free_in B b1 \<union> chunk (2 * i + 1) L" "wf_in B b2"
      using put_chunk [OF L(1) ib b1(3) dis(1)] by metis
    have i0: "free_in B b2 \<inter> chunk (2 * i) L = {}"
      using b2(2) dis(2) chunk_disjoint [of "2 * i + 1" "2 * i" L] by auto
    have i64: "ushl i 1 = Inr (2 * i)"
    proof -
      have "(2::nat) ^ (24 - L) \<le> 2 ^ 24" by (rule power_increasing) auto
      with ib show ?thesis by (simp add: ushl_def)
    qed
    have step: "split_chunk B b (rev [m..<Suc L]) i = split_chunk B b2 (rev [m..<L]) (2 * i)"
      using m b1(1) b2(1) i64 L by (simp add: Let_def algebra_simps)
    have eq: "2 * i * 2 ^ (L - m) = i * 2 ^ (Suc L - m)"
      using m by (simp add: Suc_diff_le)
    from Suc.IH [OF m L(1) _ b2(3), of "2 * i"] ib i0
    obtain b' where b': "split_chunk B b2 (rev [m..<L]) (2 * i) = Inr (b', i * 2 ^ (Suc L - m))"
      "wf_in B b'"
      "level_start m + i * 2 ^ (Suc L - m) \<in> bits B b' \<or>
       free_in B b' \<inter> chunk (i * 2 ^ (Suc L - m)) m = {}"
      "i * 2 ^ (Suc L - m) < 2 ^ (24 - m)" "chunk (i * 2 ^ (Suc L - m)) m \<subseteq> chunk (2 * i) L"
      "free_in B b' - chunk (i * 2 ^ (Suc L - m)) m =
        (free_in B b2 \<union> chunk (2 * i) L) - chunk (i * 2 ^ (Suc L - m)) m"
      unfolding eq by auto
    have "free_in B b2 \<union> chunk (2 * i) L = free_in B b \<union> chunk i (Suc L)"
      using b1(2) b2(2) by (auto simp: chunk_split)
    with b' step show ?thesis by (auto simp: chunk_split)
  qed
qed

lemma absolute_to_relative_from_skip:
  assumes "level_start l \<le> i" "i < level_start (Suc l)" "j \<le> l" "l < 16"
  shows "absolute_to_relative_from i [j..<16] = Inr (i - level_start l, l)"
  using assms(3)
proof (induction "l - j" arbitrary: j)
  case 0
  then have "j = l" by simp
  with assms show ?case by (simp add: upt_conv_Cons)
next
  case (Suc d)
  then have j: "j < l" "d = l - Suc j" "Suc j \<le> l" by auto
  have "level_start (Suc j) \<le> level_start l" using j by (intro level_start_mono) auto
  with assms(1) have "\<not> i < level_start (Suc j)" by simp
  then have "absolute_to_relative_from i [j..<16] = absolute_to_relative_from i [Suc j..<16]"
    using j assms(4) by (simp add: upt_conv_Cons)
  with Suc.hyps(1) [OF j(2,3)] show ?case by simp
qed

lemma absolute_to_relative_ok:
  assumes "l < 16" "k < 2 ^ (24 - l)"
  shows "absolute_to_relative (level_start l + k) = Inr (k, l)"
  using absolute_to_relative_from_skip [of l "level_start l + k" 0] level_bit_less [OF assms] assms(1)
  by (simp add: absolute_to_relative_def)

lemma relative_index_to_addr_ok:
  assumes "l \<le> 16" "k < 2 ^ (24 - l)"
  shows "relative_index_to_addr X (k, l) = Inr (k * 2 ^ l * PAGE_SIZE)"
proof -
  have "k * 2 ^ l < 2 ^ (24 - l) * 2 ^ l" using assms(2) by simp
  also have "\<dots> = (2::nat) ^ 24" using assms(1) by (simp flip: power_add)
  finally have b: "k * 2 ^ l < 2 ^ 24" .
  moreover have "k \<le> k * 2 ^ l" by simp
  ultimately have "k < 2 ^ 24" by (rule order.strict_trans1 [rotated])
  then have "umul k PAGE_SIZE = Inr (k * PAGE_SIZE)" by (simp add: PAGE_SIZE_def)
  moreover have "ushl (k * PAGE_SIZE) l = Inr (k * PAGE_SIZE * 2 ^ l)"
    using assms(1) b by (intro ushl_ok) (auto simp: PAGE_SIZE_def)
  ultimately show ?thesis
    using b by (simp add: relative_index_to_addr_def pa_new PAGE_SIZE_def)
qed

lemma allocate_chunk_ok:
  assumes wf: "wf_in B (buddy_bytes a)" and m: "m \<le> 16"
  shows "\<exists>a' r. allocate_chunk_from_level X B a m = Inr (a', r) \<and>
    alloc_post B (buddy_bytes a) m (buddy_bytes a') r \<and>
    (r = None \<longleftrightarrow> (\<forall>i\<in>bits B (buddy_bytes a). i < level_start m))"
proof -
  let ?b = "buddy_bytes a"
  have mt: "level_start m \<le> TOTAL_BUDDY_BITS"
    using m by (simp add: TOTAL_start level_start_mono)
  show ?thesis
  proof (cases "\<forall>i\<in>bits B ?b. i < level_start m")
    case True
    then have "bit_first_one B ?b (level_start m) = Inr None"
      using first_one_None [OF mt] by blast
    with True m wf show ?thesis
      by (simp add: allocate_chunk_from_level_def alloc_post_def)
  next
    case False
    then obtain d where d: "bit_first_one B ?b (level_start m) = Inr (Some d)"
      using first_one_None [OF mt, of ?b] bit_first_one [OF mt, of ?b] by (auto split: if_splits)
    note found = first_one_Some [OF mt d]
    obtain l k where lk: "l < 16" "k < 2 ^ (24 - l)" "level_start m + d = level_start l + k"
      using level_bit_exists [OF bits_bound [OF found(1)]] by metis
    have ml: "m \<le> l"
    proof (rule ccontr)
      assume "\<not> m \<le> l"
      then have "level_start (Suc l) \<le> level_start m" by (intro level_start_mono) auto
      with level_bit_less [OF lk(1,2)] lk(3) show False by simp
    qed
    let ?i = "k * 2 ^ (l - m)"
    obtain b1 where b1: "split_chunk B ?b (rev [m..<l]) k = Inr (b1, ?i)" "wf_in B b1"
      "level_start m + ?i \<in> bits B b1 \<or> free_in B b1 \<inter> chunk ?i m = {}"
      "?i < 2 ^ (24 - m)" "chunk ?i m \<subseteq> chunk k l"
      "free_in B b1 - chunk ?i m = (free_in B ?b \<union> chunk k l) - chunk ?i m"
      using split_chunk_ok [OF ml lk(1,2) wf] found(1) lk(3) by auto
    have m16: "m < 16" using ml lk(1) by simp
    obtain b2 where b2: "bit_set B b1 (level_start m + ?i) False = Inr b2"
      "free_in B b2 = free_in B b1 - chunk ?i m" "wf_in B b2"
      using take_chunk [OF m16 b1(4,2,3)] by metis
    have sub: "chunk k l \<subseteq> free_in B ?b"
      using chunk_subset_free [OF lk(1,2)] found(1) lk(3) by simp
    have "allocate_chunk_from_level X B a m =
        Inr (a\<lparr>buddy_bytes := b2\<rparr>, Some (?i * 2 ^ m * PAGE_SIZE))"
      using d m b1(1) b2(1) lk absolute_to_relative_ok [OF lk(1,2)]
        relative_index_to_addr_ok [OF m b1(4)]
      by (simp add: allocate_chunk_from_level_def add.commute)
    moreover have "alloc_post B ?b m b2 (Some (?i * 2 ^ m * PAGE_SIZE))"
      unfolding alloc_post_def using b2(2,3) b1(4,5,6) sub
      by (auto intro!: exI [of _ ?i])
    ultimately show ?thesis using False by auto
  qed
qed

subsection \<open>Freeing a frame\<close>

lemma merge_up_ok:
  assumes "l \<le> 15" "k < 2 ^ (24 - l)" "wf_in B b"
  shows "\<exists>b'. merge_up B b [l..<15] (level_start l + k) = Inr b' \<and> wf_in B b' \<and>
    free_in B b' = free_in B b"
  using assms
proof (induction "15 - l" arbitrary: l k b)
  case 0
  then show ?case by simp
next
  case (Suc d)
  then have l: "l < 16" "Suc l < 16" "d = 15 - Suc l" "Suc l \<le> 15" "l < 15" by auto
  let ?j = "k div 2" and ?i = "level_start l + 2 * (k div 2)"
  have ev: "(level_start l + k) div 2 * 2 = ?i"
    using even_level_start [of l] l by (auto elim!: evenE)
  have "(2::nat) ^ (24 - l) = 2 * 2 ^ (24 - Suc l)"
    using l by (simp flip: power_Suc add: Suc_diff_Suc)
  then have j: "?j < 2 ^ (24 - Suc l)" using Suc.prems(2) by simp
  then have k1: "2 * ?j + 1 < 2 ^ (24 - l)" using l by (intro buddy_index_bound) auto
  then have k0: "2 * ?j < 2 ^ (24 - l)" by simp
  note tot = level_bit_total [OF l(1) k0] level_bit_total [OF l(1) k1]
  have up: "[l..<15] = l # [Suc l..<15]" using l by (simp add: upt_conv_Cons)
  show ?case
  proof (cases "?i \<in> bits B b \<and> ?i + 1 \<in> bits B b")
    case False
    with Suc.prems(3) tot show ?thesis
      unfolding up by (auto simp: Let_def ev bit_get)
  next
    case True
    obtain b1 where b1: "bit_set B b ?i False = Inr b1" "bits B b1 = bits B b - {?i}"
      "free_in B b1 = free_in B b - chunk (2 * ?j) l" "wf_in B b1"
      using take_chunk [OF l(1) k0 Suc.prems(3)] True by metis
    have "level_start l + (2 * ?j + 1) \<in> bits B b1" using True b1(2) by simp
    then obtain b2 where b2: "bit_set B b1 (level_start l + (2 * ?j + 1)) False = Inr b2"
      "free_in B b2 = free_in B b1 - chunk (2 * ?j + 1) l" "wf_in B b2"
      using take_chunk [OF l(1) k1 b1(4)] by metis
    have "free_in B b2 \<inter> chunk ?j (Suc l) = {}"
      using b1(3) b2(2) by (auto simp: chunk_split)
    then obtain b3 where b3: "bit_set B b2 (level_start (Suc l) + ?j) True = Inr b3"
      "free_in B b3 = free_in B b2 \<union> chunk ?j (Suc l)" "wf_in B b3"
      using put_chunk [OF l(2) j b2(3)] by metis
    have "chunk (2 * ?j) l \<subseteq> free_in B b" "chunk (2 * ?j + 1) l \<subseteq> free_in B b"
      using chunk_subset_free [OF l(1) k0] chunk_subset_free [OF l(1) k1] True by auto
    then have free: "free_in B b3 = free_in B b"
      using b1(3) b2(2) b3(2) by (auto simp: chunk_split)
    have "merge_up B b [l..<15] (level_start l + k) =
        merge_up B b3 [Suc l..<15] (level_start (Suc l) + ?j)"
      unfolding up using True tot b1(1) b2(1) b3(1) l
      by (simp add: Let_def ev bit_get add.commute [of "k div 2"])
    with Suc.hyps(1) [OF l(3,4) j b3(3)] free show ?thesis by simp
  qed
qed

lemma merge_up_from_ok:
  assumes "l \<le> 15" "k < 2 ^ (24 - l)" "wf_in B (buddy_bytes a)"
  shows "\<exists>b'. merge_up_from B a (k, l) = Inr (a\<lparr>buddy_bytes := b'\<rparr>) \<and> wf_in B b' \<and>
    free_in B b' = free_in B (buddy_bytes a)"
proof -
  have "level_start l + k < TOTAL_BUDDY_BITS" using assms by (intro level_bit_total) auto
  then have "k + level_start l < 2 ^ 64"
    by (simp add: TOTAL_start level_start_def)
  then show ?thesis
    using merge_up_ok [OF assms] assms(1)
    by (auto simp: merge_up_from_def relative_to_absolute_def add.commute)
qed

lemma deallocate_frame_4k_ok:
  assumes "wf_in B (buddy_bytes a)" "f < N_FRAMES" "f \<notin> free_in B (buddy_bytes a)"
  shows "\<exists>b'. deallocate_frame_4k B a (f * PAGE_SIZE) = Inr (a\<lparr>buddy_bytes := b'\<rparr>) \<and>
    wf_in B b' \<and> free_in B b' = insert f (free_in B (buddy_bytes a))"
proof -
  have f: "f < 2 ^ (24 - 0)" using assms(2) by (simp add: N_FRAMES_def)
  have c: "chunk f 0 = {f}" by (auto simp: mem_chunk)
  have "free_in B (buddy_bytes a) \<inter> chunk f 0 = {}" using assms(3) c by simp
  then obtain b1 where b1: "bit_set B (buddy_bytes a) (level_start 0 + f) True = Inr b1"
    "free_in B b1 = free_in B (buddy_bytes a) \<union> chunk f 0" "wf_in B b1"
    using put_chunk [OF _ f assms(1)] by (metis zero_less_numeral)
  have "addr_to_relative_index (f * PAGE_SIZE) 0 = Inr f"
    by (simp add: addr_to_relative_index_def ushr_def PAGE_SIZE_def)
  with b1 merge_up_from_ok [of 0 f "a\<lparr>buddy_bytes := b1\<rparr>"] f c show ?thesis
    by (auto simp: deallocate_frame_4k_def)
qed

subsection \<open>Picking contiguous frames\<close>

lemma give_back_ok:
  assumes "ol < 16" "oi \<le> 2 ^ (24 - ol)" "ov \<le> 2 ^ ol" "ov \<le> oi * 2 ^ ol" "wf_in B b"
    and "free_in B b \<inter> {oi * 2 ^ ol - ov..<oi * 2 ^ ol} = {}"
  shows "\<exists>b'. give_back B b ov oi ol = Inr b' \<and> wf_in B b' \<and>
    free_in B b' = free_in B b \<union> {oi * 2 ^ ol - ov..<oi * 2 ^ ol}"
  using assms
proof (induction ov arbitrary: oi ol b rule: less_induct)
  case (less ov)
  show ?case
  proof (cases "ov = 0")
    case True
    with less.prems show ?thesis by (simp add: give_back.simps highest_one_def)
  next
    case False
    define lv where "lv = top_bit ov"
    have lv: "2 ^ lv \<le> ov" "ov < 2 * 2 ^ lv"
      using top_bit_bounds [of ov] False by (auto simp: lv_def)
    have "(2::nat) ^ lv \<le> 2 ^ ol" using lv(1) less.prems(3) by (rule order_trans)
    then have le: "lv \<le> ol" by (rule power_le_imp_le_exp [rotated]) simp
    have pow: "(2::nat) ^ ol = 2 ^ (ol - lv) * 2 ^ lv" using le by (simp flip: power_add)
    define w where "w = oi * 2 ^ (ol - lv)"
    have e: "oi * 2 ^ ol = w * 2 ^ lv" by (simp add: w_def pow)
    have "w \<le> 2 ^ (24 - ol) * 2 ^ (ol - lv)" unfolding w_def using less.prems(2) by simp
    also have "\<dots> = 2 ^ (24 - lv)" using le less.prems(1) by (simp flip: power_add)
    finally have w24: "w \<le> 2 ^ (24 - lv)" .
    moreover have "(2::nat) ^ (24 - lv) \<le> 2 ^ 24" by (rule power_increasing) auto
    ultimately have w64: "w < 2 ^ 64" by simp
    have w0: "0 < w" using less.prems(4) e False by (cases "w = 0") auto
    have shl: "ushl oi (ol - lv) = Inr w"
      unfolding w_def using w64 less.prems(1) by (intro ushl_ok) (auto simp: w_def)
    have k: "w - 1 < 2 ^ (24 - lv)" using w24 w0 by simp
    have l16: "lv < 16" using le less.prems(1) by simp
    have wm: "(w - 1) * 2 ^ lv = w * 2 ^ lv - 2 ^ lv" by (simp add: diff_mult_distrib)
    have wge: "ov \<le> w * 2 ^ lv" using less.prems(4) e by simp
    have ch: "chunk (w - 1) lv = {w * 2 ^ lv - 2 ^ lv..<w * 2 ^ lv}"
      using w0 wm by (simp add: chunk_interval)
    have "chunk (w - 1) lv \<subseteq> {w * 2 ^ lv - ov..<w * 2 ^ lv}"
      unfolding ch using lv(1) by auto
    then have "free_in B b \<inter> chunk (w - 1) lv = {}"
      using less.prems(6) unfolding e by blast
    then obtain b1 where b1: "bit_set B b (level_start lv + (w - 1)) True = Inr b1"
      "free_in B b1 = free_in B b \<union> chunk (w - 1) lv" "wf_in B b1"
      using put_chunk [OF l16 k less.prems(5)] by metis
    have rel: "relative_to_absolute (w - 1, lv) = Inr (level_start lv + (w - 1))"
    proof -
      have "level_start lv + (w - 1) < 2 ^ 64"
        using level_bit_total [OF l16 k] by (simp add: TOTAL_start level_start_def)
      then show ?thesis using l16 by (simp add: relative_to_absolute_def add.commute)
    qed
    have step: "give_back B b ov oi ol = give_back B b1 (ov - 2 ^ lv) (w - 1) lv"
      using False le shl w0 rel b1(1)
      by (simp add: give_back.simps [of B b ov] highest_one_def flip: lv_def)
    have ov': "ov - 2 ^ lv < ov" "ov - 2 ^ lv \<le> 2 ^ lv" "ov - 2 ^ lv \<le> (w - 1) * 2 ^ lv"
      using lv wge wm False by auto
    have rest: "{(w - 1) * 2 ^ lv - (ov - 2 ^ lv)..<(w - 1) * 2 ^ lv} =
        {w * 2 ^ lv - ov..<w * 2 ^ lv - 2 ^ lv}"
      using lv(1) wge unfolding wm by simp
    have "{w * 2 ^ lv - ov..<w * 2 ^ lv - 2 ^ lv} \<subseteq> {w * 2 ^ lv - ov..<w * 2 ^ lv}" by auto
    then have "free_in B b \<inter> {w * 2 ^ lv - ov..<w * 2 ^ lv - 2 ^ lv} = {}"
      using less.prems(6) unfolding e by blast
    moreover have "chunk (w - 1) lv \<inter> {w * 2 ^ lv - ov..<w * 2 ^ lv - 2 ^ lv} = {}"
      unfolding ch by auto
    ultimately have disj:
      "free_in B b1 \<inter> {(w - 1) * 2 ^ lv - (ov - 2 ^ lv)..<(w - 1) * 2 ^ lv} = {}"
      unfolding rest b1(2) by blast
    have un: "chunk (w - 1) lv \<union> {(w - 1) * 2 ^ lv - (ov - 2 ^ lv)..<(w - 1) * 2 ^ lv} =
        {w * 2 ^ lv - ov..<w * 2 ^ lv}"
      using lv(1) wge unfolding ch rest by auto
    from less.IH [OF ov'(1) l16 _ ov'(2,3) b1(3) disj] k step b1(2) un show ?thesis
      unfolding e by (auto simp: Un_assoc)
  qed
qed

lemma find_level_None:
  assumes "\<forall>i\<in>bits B (buddy_bytes a). i < level_start t" "t \<le> 16" "wf_in B (buddy_bytes a)"
  shows "find_level X B a t ls = Inr (a, None)"
proof (induction ls)
  case (Cons l ls)
  obtain a' r where r: "allocate_chunk_from_level X B a t = Inr (a', r)"
    "alloc_post B (buddy_bytes a) t (buddy_bytes a') r" "r = None"
    using allocate_chunk_ok [OF assms(3,2)] assms(1) by blast
  then have "a' = a" by (simp add: alloc_post_def)
  with r Cons show ?case by simp
qed simp

text \<open>What a successful pick leaves behind; \<open>t\<close> is the level of the request.\<close>

lemma pick_off_target:
  assumes "0 < n" "n \<le> 2 ^ 16" "0 < mf" "mf \<le> n"
  obtains t mn where "next_power_of_two n = Inr (2 ^ t)" "next_power_of_two mf = Inr (2 ^ mn)"
    "n \<le> 2 ^ t" "t \<le> 16" "mn \<le> t" "0 < t \<Longrightarrow> 2 ^ (t - 1) < n"
proof -
  obtain t where t: "next_power_of_two n = Inr (2 ^ t)" "n \<le> 2 ^ t" "t \<le> 16"
    "0 < t \<Longrightarrow> 2 ^ (t - 1) < n"
    using next_power_of_two_cover [OF assms(2)] by auto
  have "mf \<le> 2 ^ t" using assms(4) t(2) by simp
  then obtain mn where mn: "next_power_of_two mf = Inr (2 ^ mn)" "mn \<le> t"
    using next_power_of_two_cover [of mf t] t(3) by auto
  show ?thesis using that [OF t(1) mn(1) t(2,3) mn(2) t(4)] .
qed

lemma pick_off_ok:
  assumes wf: "wf_in B (buddy_bytes a)"
    and n: "next_power_of_two n = Inr (2 ^ t)" "0 < n" "n \<le> 2 ^ t" "t \<le> 16"
    and mf: "next_power_of_two mf = Inr (2 ^ mn)" "mn \<le> t"
  shows "\<exists>a' r. pick_off_contiguous X B a n mf = Inr (a', r) \<and> wf_in B (buddy_bytes a') \<and>
    (r = None \<longleftrightarrow> (\<forall>i\<in>bits B (buddy_bytes a). i < level_start t)) \<and>
    (case r of
       None \<Rightarrow> a' = a
     | Some (addr, m) \<Rightarrow> m = n \<and> (\<exists>s. addr = s * PAGE_SIZE \<and> 2 ^ t dvd s \<and>
         {s..<s + n} \<subseteq> free_in B (buddy_bytes a) \<and>
         free_in B (buddy_bytes a') = free_in B (buddy_bytes a) - {s..<s + n}))"
proof -
  have low: "lowest_one (2 ^ j) = Some j" for j by (simp add: lowest_one_def)
  have up: "rev [mn..<t + 1] = t # rev [mn..<t]" using mf(2) by simp
  obtain a1 r where r: "allocate_chunk_from_level X B a t = Inr (a1, r)"
    "alloc_post B (buddy_bytes a) t (buddy_bytes a1) r"
    "r = None \<longleftrightarrow> (\<forall>i\<in>bits B (buddy_bytes a). i < level_start t)"
    using allocate_chunk_ok [OF wf n(4)] by blast
  show ?thesis
  proof (cases r)
    case None
    with r(3) have "find_level X B a t (rev [mn..<t + 1]) = Inr (a, None)"
      using find_level_None [OF _ n(4) wf] by blast
    with None r(3) wf n(1) mf(1) show ?thesis by (simp add: pick_off_contiguous_def low)
  next
    case (Some addr)
    then obtain k where k: "addr = k * 2 ^ t * PAGE_SIZE" "k < 2 ^ (24 - t)"
      "chunk k t \<subseteq> free_in B (buddy_bytes a)"
      "free_in B (buddy_bytes a1) = free_in B (buddy_bytes a) - chunk k t"
      "wf_in B (buddy_bytes a1)"
      using r(2) by (auto simp: alloc_post_def)
    obtain i where "i \<in> bits B (buddy_bytes a)" "level_start t \<le> i"
      using r(3) Some by (auto simp: not_less)
    then have t16: "t < 16"
      using bits_bound [of i] n(4) by (cases "t = 16") (auto simp: TOTAL_start)
    have idx: "addr_to_relative_index addr t = Inr k"
      using t16 by (simp add: addr_to_relative_index_def ushr_def k(1) PAGE_SIZE_def)
    have rel: "relative_to_absolute (k, t) = Inr (level_start t + k)"
    proof -
      have "level_start t + k < 2 ^ 64"
        using level_bit_total [OF t16 k(2)] by (simp add: TOTAL_start level_start_def)
      then show ?thesis using t16 by (simp add: relative_to_absolute_def add.commute)
    qed
    have "free_in B (buddy_bytes a1) \<inter> chunk k t = {}" using k(4) by auto
    then obtain b1 where b1: "bit_set B (buddy_bytes a1) (level_start t + k) False = Inr b1"
      "free_in B b1 = free_in B (buddy_bytes a1) - chunk k t" "wf_in B b1"
      using take_chunk [OF t16 k(2,5)] by metis
    have sh: "ushl 1 t = Inr (2 ^ t)"
    proof -
      have "(2::nat) ^ t < 2 ^ 64" using t16 by (intro power_strict_increasing) auto
      then show ?thesis using t16 by (simp add: ushl_def)
    qed
    let ?s = "k * 2 ^ t"
    have en: "(k + 1) * 2 ^ t - (2 ^ t - n) = ?s + n" "(k + 1) * 2 ^ t = ?s + 2 ^ t"
      using n(3) by (auto simp: algebra_simps)
    have ch: "chunk k t = {?s..<?s + 2 ^ t}" by (simp only: chunk_interval en(2))
    have gap: "free_in B b1 \<inter> {(k + 1) * 2 ^ t - (2 ^ t - n)..<(k + 1) * 2 ^ t} = {}"
      unfolding en b1(2) ch by auto
    have k1: "k + 1 \<le> 2 ^ (24 - t)" "2 ^ t - n \<le> 2 ^ t" "2 ^ t - n \<le> (k + 1) * 2 ^ t"
      using k(2) en(2) by auto
    obtain b2 where b2: "give_back B b1 (2 ^ t - n) (k + 1) t = Inr b2" "wf_in B b2"
      "free_in B b2 = free_in B b1 \<union> {(k + 1) * 2 ^ t - (2 ^ t - n)..<(k + 1) * 2 ^ t}"
      using give_back_ok [OF t16 k1 b1(3) gap] by blast
    have "free_in B b2 = free_in B (buddy_bytes a) - {?s..<?s + n}"
      using interval_given_back [OF k(3) [unfolded ch] n(3)] unfolding b2(3) b1(2) k(4) ch en(2) en(1) [unfolded en(2)] .
    moreover have "{?s..<?s + n} \<subseteq> free_in B (buddy_bytes a)"
      using k(3) n(3) unfolding ch by auto
    moreover have "find_level X B a t (rev [mn..<t + 1]) = Inr (a1, Some (addr, t))"
      unfolding up using r(1) Some by simp
    ultimately show ?thesis
      using r(3) Some n(1,3) mf(1) low idx rel b1(1) sh b2 k(1)
      by (auto simp: pick_off_contiguous_def intro!: exI [of _ ?s])
  qed
qed

lemma pick_off_result:
  assumes wf: "wf_in B (buddy_bytes a)" and mf: "0 < mf" "mf \<le> n" and n: "n \<le> 2 ^ 16"
  shows "\<exists>t a' r. 2 ^ t < 2 * n \<and> n \<le> 2 ^ t \<and>
    pick_off_contiguous X B a n mf = Inr (a', r) \<and> wf_in B (buddy_bytes a') \<and>
    (r = None \<longleftrightarrow> \<not> has_chunk (bits B (buddy_bytes a)) t) \<and>
    (case r of
       None \<Rightarrow> a' = a
     | Some (addr, m) \<Rightarrow> m = n \<and> (\<exists>s. addr = s * PAGE_SIZE \<and> 2 ^ t dvd s \<and>
         {s..<s + n} \<subseteq> free_in B (buddy_bytes a) \<and>
         free_in B (buddy_bytes a') = free_in B (buddy_bytes a) - {s..<s + n}))"
proof -
  have sub: "bits B (buddy_bytes a) \<subseteq> {..<TOTAL_BUDDY_BITS}"
    using bits_bound by auto
  have n0: "0 < n" using mf by simp
  obtain t mn where t: "next_power_of_two n = Inr (2 ^ t)" "next_power_of_two mf = Inr (2 ^ mn)"
    "n \<le> 2 ^ t" "t \<le> 16" "mn \<le> t" "0 < t \<Longrightarrow> 2 ^ (t - 1) < n"
    using pick_off_target [OF n0 n mf] by metis
  have up: "2 ^ t < 2 * n" using t(6) n0 by (cases t) auto
  have none: "(\<forall>i\<in>bits B (buddy_bytes a). i < level_start t) \<longleftrightarrow>
      \<not> has_chunk (bits B (buddy_bytes a)) t"
    unfolding has_chunk_iff [OF sub] by (auto simp: not_le)
  from pick_off_ok [OF wf t(1) n0 t(3,4,2,5)] up t(3)
  show ?thesis unfolding none by (fastforce split: option.splits prod.splits)
qed

subsection \<open>Entering the memory map\<close>

lemma mark_low:
  assumes "l < 16" "i < e" "e \<le> 2 ^ (24 - l)" "wf_in B b"
    "free_in B b \<inter> {i * 2 ^ l..<e * 2 ^ l} = {}"
  obtains b1 i1 where
    "(if i mod 2 \<noteq> 0 then bindR (bit_set B b (level_start l + i) True) (\<lambda>b1. Inr (b1, i + 1))
      else Inr (b, i)) = Inr (b1, i1)"
    "even i1" "i \<le> i1" "i1 \<le> e" "odd e \<Longrightarrow> i1 < e" "wf_in B b1"
    "free_in B b1 \<inter> {i1 * 2 ^ l..<e * 2 ^ l} = {}"
    "free_in B b1 \<union> {i1 * 2 ^ l..<e * 2 ^ l} = free_in B b \<union> {i * 2 ^ l..<e * 2 ^ l}"
proof (cases "odd i")
  case True
  have k: "i < 2 ^ (24 - l)" using assms(2,3) by simp
  have le: "(i + 1) * 2 ^ l \<le> e * 2 ^ l" using assms(2) by (intro mult_le_mono1) simp
  then have sub: "chunk i l \<subseteq> {i * 2 ^ l..<e * 2 ^ l}" by (auto simp: chunk_interval)
  then have "free_in B b \<inter> chunk i l = {}" using assms(5) by blast
  then obtain b1 where b1: "bit_set B b (level_start l + i) True = Inr b1"
    "free_in B b1 = free_in B b \<union> chunk i l" "wf_in B b1"
    using put_chunk [OF assms(1) k assms(4)] by metis
  have "chunk i l \<union> {(i + 1) * 2 ^ l..<e * 2 ^ l} = {i * 2 ^ l..<e * 2 ^ l}"
    "chunk i l \<inter> {(i + 1) * 2 ^ l..<e * 2 ^ l} = {}"
    using le by (auto simp: chunk_interval)
  then have "free_in B b1 \<inter> {(i + 1) * 2 ^ l..<e * 2 ^ l} = {}"
    "free_in B b1 \<union> {(i + 1) * 2 ^ l..<e * 2 ^ l} = free_in B b \<union> {i * 2 ^ l..<e * 2 ^ l}"
    using assms(5) unfolding b1(2) by blast+
  moreover have "odd e \<Longrightarrow> i + 1 < e" using True assms(2) by presburger
  ultimately show ?thesis
    using that [of b1 "i + 1"] True b1 assms(2) by (simp add: odd_iff_mod_2_eq_one)
next
  case False
  then show ?thesis
    using that [of b i] assms by (simp add: even_iff_mod_2_eq_zero)
qed

lemma mark_high:
  assumes "l < 16" "i \<le> e" "odd e \<Longrightarrow> i < e" "e \<le> 2 ^ (24 - l)" "wf_in B b"
    "free_in B b \<inter> {i * 2 ^ l..<e * 2 ^ l} = {}"
  obtains b1 where
    "(if e mod 2 \<noteq> 0 then bindR (usub (level_start l + e) 1) (\<lambda>j. bit_set B b j True)
      else Inr b) = Inr b1"
    "wf_in B b1" "free_in B b1 \<inter> {i * 2 ^ l..<e div 2 * 2 * 2 ^ l} = {}"
    "free_in B b1 \<union> {i * 2 ^ l..<e div 2 * 2 * 2 ^ l} = free_in B b \<union> {i * 2 ^ l..<e * 2 ^ l}"
proof (cases "odd e")
  case True
  then have e: "i \<le> e - 1" "e div 2 * 2 = e - 1" "e = Suc (e - 1)"
    using assms(3) by (auto elim!: oddE)
  have k: "e - 1 < 2 ^ (24 - l)" using assms(4) e(3) by linarith
  have le: "i * 2 ^ l \<le> (e - 1) * 2 ^ l" using e(1) by (intro mult_le_mono1)
  have ch: "chunk (e - 1) l = {(e - 1) * 2 ^ l..<e * 2 ^ l}"
    using e(3) by (simp add: chunk_interval)
  have "chunk (e - 1) l \<subseteq> {i * 2 ^ l..<e * 2 ^ l}" unfolding ch using le by auto
  then have "free_in B b \<inter> chunk (e - 1) l = {}" using assms(6) by blast
  then obtain b1 where b1: "bit_set B b (level_start l + (e - 1)) True = Inr b1"
    "free_in B b1 = free_in B b \<union> chunk (e - 1) l" "wf_in B b1"
    using put_chunk [OF assms(1) k assms(5)] by metis
  have "(e - 1) * 2 ^ l \<le> e * 2 ^ l" by (intro mult_le_mono1) simp
  from ivl_disj_un_two(3) [OF le this]
  have "{i * 2 ^ l..<(e - 1) * 2 ^ l} \<union> chunk (e - 1) l = {i * 2 ^ l..<e * 2 ^ l}"
    "{i * 2 ^ l..<(e - 1) * 2 ^ l} \<inter> chunk (e - 1) l = {}"
    unfolding ch by auto
  then have "free_in B b1 \<inter> {i * 2 ^ l..<(e - 1) * 2 ^ l} = {}"
    "free_in B b1 \<union> {i * 2 ^ l..<(e - 1) * 2 ^ l} = free_in B b \<union> {i * 2 ^ l..<e * 2 ^ l}"
    using assms(6) unfolding b1(2) by blast+
  moreover have "level_start l + e - 1 = level_start l + (e - 1)" "1 \<le> level_start l + e"
    "e mod 2 \<noteq> 0"
    using e(3) True by presburger+
  ultimately show ?thesis
    by (intro that [of b1]) (simp_all only: e(2) b1(1,3) usub_ok bindR_Inr if_True not_False_eq_True)
next
  case False
  then have "e div 2 * 2 = e" "e mod 2 = 0" by auto
  with assms(5,6) show ?thesis by (intro that [of b]) simp_all
qed

lemma mark_levels_ok:
  assumes "l \<le> 15" "i \<le> e" "e \<le> 2 ^ (24 - l)" "wf_in B b"
    "free_in B b \<inter> {i * 2 ^ l..<e * 2 ^ l} = {}"
  shows "\<exists>b' rest. mark_levels B b [l..<15] i e = Inr (b', rest) \<and> wf_in B b' \<and>
    (case rest of
       None \<Rightarrow> free_in B b' = free_in B b \<union> {i * 2 ^ l..<e * 2 ^ l}
     | Some (i', e') \<Rightarrow> i' \<le> e' \<and> e' \<le> 2 ^ 9 \<and>
         free_in B b' \<inter> {i' * 2 ^ 15..<e' * 2 ^ 15} = {} \<and>
         free_in B b' \<union> {i' * 2 ^ 15..<e' * 2 ^ 15} = free_in B b \<union> {i * 2 ^ l..<e * 2 ^ l})"
  using assms
proof (induction "15 - l" arbitrary: l i e b)
  case 0
  then have "l = 15" by simp
  with "0.prems" show ?case by simp
next
  case (Suc d)
  then have l: "l < 16" "d = 15 - Suc l" "Suc l \<le> 15" "l < 15" by auto
  have up: "[l..<15] = l # [Suc l..<15]" using l by (simp add: upt_conv_Cons)
  show ?case
  proof (cases "i = e")
    case True
    with Suc.prems show ?thesis unfolding up by simp
  next
    case False
    with Suc.prems(2) have "i < e" by simp
    from mark_low [OF l(1) this Suc.prems(3,4,5)]
    obtain b1 i1 where b1:
      "(if i mod 2 \<noteq> 0 then bindR (bit_set B b (level_start l + i) True) (\<lambda>b1. Inr (b1, i + 1))
        else Inr (b, i)) = Inr (b1, i1)"
      "even i1" "i1 \<le> e" "odd e \<Longrightarrow> i1 < e" "wf_in B b1"
      "free_in B b1 \<inter> {i1 * 2 ^ l..<e * 2 ^ l} = {}"
      "free_in B b1 \<union> {i1 * 2 ^ l..<e * 2 ^ l} = free_in B b \<union> {i * 2 ^ l..<e * 2 ^ l}"
      by metis
    from mark_high [OF l(1) b1(3,4) Suc.prems(3) b1(5,6)]
    obtain b2 where b2:
      "(if e mod 2 \<noteq> 0 then bindR (usub (level_start l + e) 1) (\<lambda>j. bit_set B b1 j True)
        else Inr b1) = Inr b2"
      "wf_in B b2" "free_in B b2 \<inter> {i1 * 2 ^ l..<e div 2 * 2 * 2 ^ l} = {}"
      "free_in B b2 \<union> {i1 * 2 ^ l..<e div 2 * 2 * 2 ^ l} = free_in B b1 \<union> {i1 * 2 ^ l..<e * 2 ^ l}"
      by metis
    have iv: "{i1 * 2 ^ l..<e div 2 * 2 * 2 ^ l} = {i1 div 2 * 2 ^ Suc l..<e div 2 * 2 ^ Suc l}"
      using b1(2) by (auto elim!: evenE simp: mult.assoc)
    have "(2::nat) ^ (24 - l) = 2 * 2 ^ (24 - Suc l)"
      using l by (simp flip: power_Suc add: Suc_diff_Suc)
    then have e2: "e div 2 \<le> 2 ^ (24 - Suc l)" using Suc.prems(3) by simp
    have step: "mark_levels B b [l..<15] i e = mark_levels B b2 [Suc l..<15] (i1 div 2) (e div 2)"
      unfolding up using False l b1(1) b2(1) by (simp add: Let_def)
    have tot: "free_in B b \<union> {i * 2 ^ l..<e * 2 ^ l} =
        free_in B b2 \<union> {i1 div 2 * 2 ^ Suc l..<e div 2 * 2 ^ Suc l}"
      using b1(7) b2(4) unfolding iv by (rule trans [OF sym sym])
    show ?thesis
      unfolding step tot
      by (rule Suc.hyps(1) [OF l(2,3) div_le_mono [OF b1(3)] e2 b2(2) b2(3) [unfolded iv]])
  qed
qed

lemma free_at_fill:
  assumes "e \<le> 2 ^ 9" "l < 16" "f < N_FRAMES"
  shows "free_at (S \<union> {level_start 15 + i..<level_start 15 + e}) f l \<longleftrightarrow>
    free_at S f l \<or> (l = 15 \<and> i \<le> f div 2 ^ 15 \<and> f div 2 ^ 15 < e)"
proof (cases "l = 15")
  case False
  then have "level_start (Suc l) \<le> level_start 15" using assms(2) by (intro level_start_mono) auto
  moreover have "level_start l + f div 2 ^ l < level_start (Suc l)"
    using assms(2,3) by (intro level_bit_less chunk_index_bound) auto
  ultimately show ?thesis using False by (auto simp: free_at_def)
next
  case True
  show ?thesis
    unfolding True free_at_def
    by (simp only: Un_iff atLeastLessThan_iff add_le_cancel_left add_less_cancel_left simp_thms)
qed

lemma fill_ok:
  assumes "i \<le> e" "e \<le> 2 ^ 9" "wf_in B b" "free_in B b \<inter> {i * 2 ^ 15..<e * 2 ^ 15} = {}"
  obtains b' where "bit_fill B b (level_start 15 + i) (level_start 15 + e) True = Inr b'"
    "wf_in B b'" "free_in B b' = free_in B b \<union> {i * 2 ^ 15..<e * 2 ^ 15}"
proof -
  have iv: "i \<le> f div 2 ^ 15 \<and> f div 2 ^ 15 < e \<longleftrightarrow> f \<in> {i * 2 ^ 15..<e * 2 ^ 15}" for f :: nat
    by (auto simp: div_less_iff_less_mult less_eq_div_iff_mult_less_eq)
  have rng: "f < N_FRAMES" if "f \<in> {i * 2 ^ 15..<e * 2 ^ 15}" for f
    using that assms(2) by (auto simp: N_FRAMES_def)
  have "level_start 15 + e \<le> TOTAL_BUDDY_BITS"
    using assms(2) by (simp add: TOTAL_start level_start_def)
  then obtain b' where b': "bit_fill B b (level_start 15 + i) (level_start 15 + e) True = Inr b'"
    "bits B b' = bits B b \<union> {level_start 15 + i..<level_start 15 + e}"
    using bit_fill [of "level_start 15 + i" "level_start 15 + e" b True] assms(1) by auto
  have fa: "free_at (bits B b') f l \<longleftrightarrow>
      free_at (bits B b) f l \<or> (l = 15 \<and> f \<in> {i * 2 ^ 15..<e * 2 ^ 15})"
    if "f < N_FRAMES" "l < 16" for f l
    unfolding b'(2) iv [symmetric] by (rule free_at_fill [OF assms(2) that(2,1)])
  have free: "free_in B b' = free_in B b \<union> {i * 2 ^ 15..<e * 2 ^ 15}"
    by (rule free_frames_region [OF fa _ rng]) simp_all
  have "wf_in B b'" by (rule buddy_wf_region [OF fa assms(3,4)])
  with b' free show ?thesis using that by blast
qed

lemma mark_entry_ok:
  assumes "entry_ok e" "wf_in B b" "free_in B b \<inter> entry_frames e = {}"
  shows "\<exists>b'. mark_entry X B e b = Inr b' \<and> wf_in B b' \<and>
    free_in B b' = free_in B b \<union> entry_frames e"
proof -
  define p n where "p = mm_base e div PAGE_SIZE" and "n = mm_length e div PAGE_SIZE"
  have base: "mm_base e = p * PAGE_SIZE" using assms(1) by (simp add: entry_ok_def p_def)
  have q: "p + n \<le> 2 ^ 24" using assms(1) by (simp add: entry_ok_def p_def n_def N_FRAMES_def)
  have fr: "entry_frames e = {p * 2 ^ 0..<(p + n) * 2 ^ 0}"
    by (simp add: entry_frames_def p_def n_def)
  have "mm_base e + n * PAGE_SIZE = (p + n) * PAGE_SIZE" by (simp add: base algebra_simps)
  moreover have "(p + n) * PAGE_SIZE < 2 ^ 52" using q by (simp add: PAGE_SIZE_def)
  ultimately have add: "frame_add X PAGE_SIZE (mm_base e) n = Inr ((p + n) * PAGE_SIZE)"
    using frame_add [of "mm_base e" n PAGE_SIZE] by simp
  have pg: "(p + n) * PAGE_SIZE div PAGE_SIZE = p + n" "0 < PAGE_SIZE" by (simp_all add: PAGE_SIZE_def)
  have disj: "free_in B b \<inter> {p * 2 ^ 0..<(p + n) * 2 ^ 0} = {}" using assms(3) by (simp only: fr)
  obtain b1 rest where b1: "mark_levels B b [0..<15] p (p + n) = Inr (b1, rest)" "wf_in B b1"
    "case rest of
       None \<Rightarrow> free_in B b1 = free_in B b \<union> entry_frames e
     | Some (i', e') \<Rightarrow> i' \<le> e' \<and> e' \<le> 2 ^ 9 \<and>
         free_in B b1 \<inter> {i' * 2 ^ 15..<e' * 2 ^ 15} = {} \<and>
         free_in B b1 \<union> {i' * 2 ^ 15..<e' * 2 ^ 15} = free_in B b \<union> entry_frames e"
    using mark_levels_ok [OF _ _ _ assms(2) disj] q unfolding fr by auto
  have unf: "mark_entry X B e b = (case rest of None \<Rightarrow> Inr b1
      | Some (i', e') \<Rightarrow> bit_fill B b1 (level_start 15 + i') (level_start 15 + e') True)"
    using add b1(1) pg by (simp add: mark_entry_def Let_def flip: p_def n_def)
  show ?thesis
  proof (cases rest)
    case None
    with b1 unf show ?thesis by simp
  next
    case (Some ie)
    obtain i' e' where ie: "ie = (i', e')" by (cases ie)
    note r = b1(3) [unfolded Some ie option.case prod.case]
    from r have "i' \<le> e'" "e' \<le> 2 ^ 9" "free_in B b1 \<inter> {i' * 2 ^ 15..<e' * 2 ^ 15} = {}" by blast+
    then obtain b' where "bit_fill B b1 (level_start 15 + i') (level_start 15 + e') True = Inr b'"
      "wf_in B b'" "free_in B b' = free_in B b1 \<union> {i' * 2 ^ 15..<e' * 2 ^ 15}"
      using fill_ok [OF _ _ b1(2)] by metis
    with r unf Some ie show ?thesis by simp
  qed
qed

lemma mark_entries_ok:
  assumes "memmap_ok es" "wf_in B b" "\<And>e. e \<in> set es \<Longrightarrow> free_in B b \<inter> entry_frames e = {}"
  shows "\<exists>b'. mark_entries X B es b = Inr b' \<and> wf_in B b' \<and>
    free_in B b' = free_in B b \<union> (\<Union>e\<in>set es. entry_frames e)"
  using assms
proof (induction es arbitrary: b)
  case (Cons e es)
  obtain b1 where b1: "mark_entry X B e b = Inr b1" "wf_in B b1"
    "free_in B b1 = free_in B b \<union> entry_frames e"
    using mark_entry_ok [of e b] Cons.prems by auto
  have "free_in B b1 \<inter> entry_frames e' = {}" if "e' \<in> set es" for e'
    using Cons.prems(1,3) that unfolding b1(3) by (auto simp: Int_Un_distrib2)
  with Cons.IH [of b1] Cons.prems(1) b1 show ?case by (auto simp: Un_assoc)
qed auto

lemma free_frames_empty [simp]: "free_frames {} = {}"
  by (simp add: free_frames_def free_at_def)

lemma new_ok:
  assumes "memmap_ok (usable es)" "bits B zeroed = {}"
  shows "\<exists>b. new X B zeroed es = Inr \<lparr>buddy_bytes = b\<rparr> \<and> wf_in B b \<and>
    free_in B b = (\<Union>e\<in>set (usable es). entry_frames e)"
proof -
  have "wf_in B zeroed" using assms(2) by (simp add: buddy_wf_def free_at_def)
  with mark_entries_ok [OF assms(1), of zeroed] assms(2) show ?thesis
    by (auto simp: new_def)
qed

subsection \<open>Where the code departs from the intended behaviour\<close>

text \<open>
  Freeing a 2 MiB frame sets the bit with the number of the frame, which is a bit of level
  0, and then tries to merge at level 9 around a bit it did not set.
\<close>

lemma deallocate_frame_2m_bits:
  assumes "k < 2 ^ 15"
    and "\<not> (level_start 9 + k div 2 * 2 \<in> bits B (buddy_bytes a) \<and>
            level_start 9 + k div 2 * 2 + 1 \<in> bits B (buddy_bytes a))"
  shows "\<exists>b'. deallocate_frame_2m B a (k * 512 * PAGE_SIZE) = Inr (a\<lparr>buddy_bytes := b'\<rparr>) \<and>
    bits B b' = insert k (bits B (buddy_bytes a))"
proof -
  let ?j = "k div 2"
  have st: "level_start 9 = 33488896" by (simp add: level_start_def)
  have idx: "addr_to_relative_index (k * 512 * PAGE_SIZE) LEVEL_2MIB = Inr k"
    by (simp add: addr_to_relative_index_def ushr_def PAGE_SIZE_def LEVEL_2MIB_def)
  have tot: "k < TOTAL_BUDDY_BITS" "33488896 + ?j * 2 + 1 < TOTAL_BUDDY_BITS"
    using assms(1) by (simp_all add: TOTAL_start level_start_def)
  obtain b1 where b1: "bit_set B (buddy_bytes a) k True = Inr b1"
    "bits B b1 = insert k (bits B (buddy_bytes a))"
    using set_True [OF tot(1)] by metis
  have ev: "(33488896 + k) div 2 * 2 = 33488896 + ?j * 2" by presburger
  have abs: "relative_to_absolute (k, LEVEL_2MIB) = Inr (33488896 + k)"
    using assms(1) st by (simp add: relative_to_absolute_def LEVEL_2MIB_def)
  have "\<not> (33488896 + ?j * 2 \<in> bits B b1 \<and> 33488896 + ?j * 2 + 1 \<in> bits B b1)"
    using assms unfolding b1(2) st by auto
  then have "merge_up B b1 [9..<15] (33488896 + k) = Inr b1"
    using tot(2) by (auto simp: upt_conv_Cons Let_def ev bit_get)
  with idx b1 abs have "deallocate_frame_2m B a (k * 512 * PAGE_SIZE) = Inr (a\<lparr>buddy_bytes := b1\<rparr>)"
    by (simp add: deallocate_frame_2m_def merge_up_from_def LEVEL_2MIB_def)
  with b1(2) show ?thesis by blast
qed

text \<open>
  A single odd frame above \<open>N_FRAMES\<close> (64 GiB, half of \<open>MAX_PHYS_MAP\<close>) is entered as a bit
  that belongs to a chunk of level 1, so two other frames become free.
\<close>

lemma mark_entry_beyond:
  assumes "k < 2 ^ 22" "odd k"
  shows "\<exists>b'. mark_entry X B
      \<lparr>mm_base = (N_FRAMES + k) * PAGE_SIZE, mm_length = PAGE_SIZE, mm_ty = Usable\<rparr> b = Inr b' \<and>
    bits B b' = insert (level_start 1 + k) (bits B b)"
proof -
  let ?p = "2 ^ 24 + k"
  have st: "level_start 1 = 2 ^ 24" by (simp add: level_start_def)
  have "?p < TOTAL_BUDDY_BITS" using assms(1) by (simp add: TOTAL_start level_start_def)
  then obtain b' where b': "bit_set B b ?p True = Inr b'" "bits B b' = insert ?p (bits B b)"
    using set_True by metis
  have add: "frame_add X PAGE_SIZE (?p * PAGE_SIZE) 1 = Inr ((?p + 1) * PAGE_SIZE)"
    using frame_add [of "?p * PAGE_SIZE" 1 PAGE_SIZE] assms(1)
    by (simp add: PAGE_SIZE_def algebra_simps)
  have odd: "?p mod 2 = 1" "(?p + 1) mod 2 = 0" "(?p + 1) div 2 = ?p div 2 + 1"
    using assms(2) by (auto elim!: oddE)
  have "mark_levels B b [0..<15] ?p (?p + 1) = Inr (b', None)"
    using b'(1) odd by (simp add: upt_conv_Cons Let_def)
  with add b' st show ?thesis
    by (simp add: mark_entry_def N_FRAMES_def PAGE_SIZE_def Let_def)
qed

end

end
