(* ===== verification/Frame_Properties.thy ===== *)
theory Frame_Properties
  imports Frame_Correct
begin

text \<open>
  The properties of the frame allocator of \<^verbatim>\<open>paging.rs\<close>, stated over the translated
  operations, each with an instance at a concrete memory map or array.
\<close>

abbreviation bitset :: "nat set bit_ops" where
  "bitset \<equiv> bitset_ops TOTAL_BUDDY_BITS"

abbreviation free_of :: "'b bit_ops \<Rightarrow> 'b RuneFrameAllocator \<Rightarrow> nat set" where
  "free_of B a \<equiv> free_frames (bits B (buddy_bytes a))"

abbreviation wf_of :: "'b bit_ops \<Rightarrow> 'b RuneFrameAllocator \<Rightarrow> bool" where
  "wf_of B a \<equiv> buddy_wf (bits B (buddy_bytes a))"

lemma frame_envI: "x86_64 X \<Longrightarrow> bit_array B TOTAL_BUDDY_BITS \<Longrightarrow> frame_env X B"
  by (rule frame_env.intro)

lemma doc_envI: "bit_array B TOTAL_BUDDY_BITS \<Longrightarrow> frame_env x86_doc B"
  using x86d.x86_64_axioms by (rule frame_envI)

lemma bitset_bits: "S \<subseteq> {..<TOTAL_BUDDY_BITS} \<Longrightarrow> bits bitset S = S"
  by (auto simp: bits_bitset)

lemma free_frames_chunk:
  assumes "l < 16" "k < 2 ^ (24 - l)"
  shows "free_frames {level_start l + k} = chunk k l"
  using free_frames_insert [OF assms, of "{}"] by (simp add: free_frames_def free_at_def)

lemma buddy_wf_chunk:
  assumes "l < 16" "k < 2 ^ (24 - l)"
  shows "buddy_wf {level_start l + k}"
  using buddy_wf_insert [OF assms, of "{}"] by (simp add: buddy_wf_def free_frames_def free_at_def)

text \<open>The array with the one free chunk of frames 0 to 7.\<close>

definition eight_free :: "nat set RuneFrameAllocator" where
  "eight_free = \<lparr>buddy_bytes = {level_start 3 + 0}\<rparr>"

lemma eight_free_facts:
  "bits bitset (buddy_bytes eight_free) = {level_start 3}" "wf_of bitset eight_free"
  "free_of bitset eight_free = {0..<8}"
proof -
  show b: "bits bitset (buddy_bytes eight_free) = {level_start 3}"
    using level_bit_total [of 3 0] by (simp add: eight_free_def bits_bitset) auto
  show "wf_of bitset eight_free" "free_of bitset eight_free = {0..<8}"
    using buddy_wf_chunk [of 3 0] free_frames_chunk [of 3 0] unfolding b
    by (simp_all add: chunk_interval)
qed

lemma eight_free_chunk: "t \<le> 3 \<Longrightarrow> has_chunk (bits bitset (buddy_bytes eight_free)) t"
  unfolding has_chunk_def eight_free_facts(1)
  by (rule exI [of _ 3], rule exI [of _ 0]) simp

text \<open>
  C1. The constructor enters the memory map exactly: for a memory map whose usable entries
  are page-aligned, disjoint and below 64 GiB it does not panic, the array is well-formed,
  and the free frames are the frames of the usable entries.
\<close>

theorem new_frees_usable:
  assumes "x86_64 X" "bit_array B TOTAL_BUDDY_BITS"
    and "memmap_ok (usable es)" "bits B zeroed = {}"
  shows "\<exists>a. new X B zeroed es = Inr a \<and> wf_of B a \<and>
    free_of B a = (\<Union>e\<in>set (usable es). entry_frames e)"
proof -
  from frame_env.new_ok [OF frame_envI [OF assms(1,2)] assms(3,4)]
  obtain b where "new X B zeroed es = Inr \<lparr>buddy_bytes = b\<rparr>" "buddy_wf (bits B b)"
    "free_frames (bits B b) = (\<Union>e\<in>set (usable es). entry_frames e)" by blast
  then show ?thesis by auto
qed

theorem new_frees_usable_witness:
  "\<exists>a. new x86_doc bitset {}
      [\<lparr>mm_base = 12288, mm_length = 20480, mm_ty = Usable\<rparr>,
       \<lparr>mm_base = 32768, mm_length = 4096, mm_ty = Reserved\<rparr>] = Inr a \<and>
    wf_of bitset a \<and> free_of bitset a = {3..<8}"
  using new_frees_usable [OF x86d.x86_64_axioms bset.bit_array_axioms,
    of "[\<lparr>mm_base = 12288, mm_length = 20480, mm_ty = Usable\<rparr>,
         \<lparr>mm_base = 32768, mm_length = 4096, mm_ty = Reserved\<rparr>]" "{}"]
  by (simp add: entry_ok_def entry_frames_def PAGE_SIZE_def N_FRAMES_def bits_bitset)

text \<open>
  C2. An allocation at a level does not panic and keeps the array well-formed. It finds a
  chunk exactly when a chunk of that level or a higher one is free; then the result is the
  address of an aligned run of \<open>2 ^ m\<close> free frames, and exactly these stop being free.
\<close>

theorem allocate_chunk_correct:
  assumes "x86_64 X" "bit_array B TOTAL_BUDDY_BITS" "wf_of B a" "m \<le> 16"
  shows "\<exists>a' r. allocate_chunk_from_level X B a m = Inr (a', r) \<and> wf_of B a' \<and>
    (r = None \<longleftrightarrow> \<not> has_chunk (bits B (buddy_bytes a)) m) \<and>
    (case r of
       None \<Rightarrow> a' = a
     | Some addr \<Rightarrow> \<exists>s. addr = s * PAGE_SIZE \<and> 2 ^ m dvd s \<and>
         {s..<s + 2 ^ m} \<subseteq> free_of B a \<and> free_of B a' = free_of B a - {s..<s + 2 ^ m})"
proof -
  note env = frame_envI [OF assms(1,2)]
  have sub: "bits B (buddy_bytes a) \<subseteq> {..<TOTAL_BUDDY_BITS}"
    using bit_array.bits_bound [OF assms(2)] by auto
  obtain a' r where r: "allocate_chunk_from_level X B a m = Inr (a', r)"
    "alloc_post B (buddy_bytes a) m (buddy_bytes a') r"
    "r = None \<longleftrightarrow> (\<forall>i\<in>bits B (buddy_bytes a). i < level_start m)"
    using frame_env.allocate_chunk_ok [OF env assms(3,4)] by blast
  have none: "r = None \<longleftrightarrow> \<not> has_chunk (bits B (buddy_bytes a)) m"
    unfolding has_chunk_iff [OF sub] r(3) by (auto simp: not_le)
  have iv: "chunk k m = {k * 2 ^ m..<k * 2 ^ m + 2 ^ m}" for k
    by (simp add: chunk_interval add.commute)
  show ?thesis
  proof (cases r)
    case None
    with r(2) have "buddy_bytes a' = buddy_bytes a" by (simp add: alloc_post_def)
    then have "a' = a" by (cases a, cases a') simp
    with r none None assms(3) show ?thesis by simp
  next
    case (Some addr)
    with r(2) obtain k where "wf_of B a'" "addr = k * 2 ^ m * PAGE_SIZE"
      "chunk k m \<subseteq> free_of B a" "free_of B a' = free_of B a - chunk k m"
      by (auto simp: alloc_post_def)
    with Some r(1) none show ?thesis unfolding iv by (auto intro!: exI [of _ "k * 2 ^ m"])
  qed
qed

theorem allocate_chunk_correct_witness:
  "\<exists>a' r. allocate_chunk_from_level x86_doc bitset eight_free 1 = Inr (a', r) \<and>
    wf_of bitset a' \<and> (\<exists>s. r = Some (s * PAGE_SIZE) \<and> 2 dvd s \<and> {s..<s + 2} \<subseteq> {0..<8} \<and>
      free_of bitset a' = {0..<8} - {s..<s + 2})"
  using allocate_chunk_correct [OF x86d.x86_64_axioms bset.bit_array_axioms eight_free_facts(2), of 1]
    eight_free_chunk [of 1]
  unfolding eight_free_facts(3) by (auto split: option.splits)

text \<open>
  C3. Picking contiguous frames, for a request of at most \<open>2 ^ 16\<close> frames that is not below
  its minimum: no panic and a well-formed array; on success the run has exactly the
  requested length, it was free, and exactly it stops being free (the surplus of the
  rounded-up chunk is given back); the request fails exactly when no chunk of the level it
  was rounded up to, or of a higher one, is free.
\<close>

theorem pick_off_contiguous_correct:
  assumes "x86_64 X" "bit_array B TOTAL_BUDDY_BITS" "wf_of B a"
    and "0 < mf" "mf \<le> n" "n \<le> 2 ^ 16"
  shows "\<exists>t a' r. 2 ^ t < 2 * n \<and> n \<le> 2 ^ t \<and>
    pick_off_contiguous X B a n mf = Inr (a', r) \<and> wf_of B a' \<and>
    (r = None \<longleftrightarrow> \<not> has_chunk (bits B (buddy_bytes a)) t) \<and>
    (case r of
       None \<Rightarrow> a' = a
     | Some (addr, m) \<Rightarrow> m = n \<and> (\<exists>s. addr = s * PAGE_SIZE \<and>
         {s..<s + n} \<subseteq> free_of B a \<and> free_of B a' = free_of B a - {s..<s + n}))"
proof -
  from frame_env.pick_off_result [OF frame_envI [OF assms(1,2)] assms(3-6)]
  show ?thesis by (fastforce split: option.splits prod.splits)
qed

theorem pick_off_contiguous_correct_witness:
  "\<exists>a' r. pick_off_contiguous x86_doc bitset eight_free 3 1 = Inr (a', r) \<and> wf_of bitset a' \<and>
    (\<exists>s. r = Some (s * PAGE_SIZE, 3) \<and> {s..<s + 3} \<subseteq> {0..<8} \<and>
      free_of bitset a' = {0..<8} - {s..<s + 3})"
proof -
  have lt: "t \<le> 3" if "2 ^ t < 2 * (3::nat)" for t
  proof (rule ccontr)
    assume "\<not> t \<le> 3"
    then have "(2::nat) ^ 3 \<le> 2 ^ t" by (intro power_increasing) auto
    with that show False by simp
  qed
  show ?thesis
    using pick_off_contiguous_correct [OF x86d.x86_64_axioms bset.bit_array_axioms
      eight_free_facts(2), of 1 3] eight_free_chunk [OF lt]
    unfolding eight_free_facts(3) by (auto split: option.splits)
qed

text \<open>
  C4. Freeing a 4 KiB frame that is not free makes exactly this frame free, whatever buddies
  are merged on the way up, and keeps the array well-formed.
\<close>

theorem deallocate_frame_4k_correct:
  assumes "bit_array B TOTAL_BUDDY_BITS" "wf_of B a"
    and "f < N_FRAMES" "f \<notin> free_of B a"
  shows "\<exists>a'. deallocate_frame_4k B a (f * PAGE_SIZE) = Inr a' \<and> wf_of B a' \<and>
    free_of B a' = insert f (free_of B a)"
  using frame_env.deallocate_frame_4k_ok [OF doc_envI [OF assms(1)] assms(2-4)] by auto

theorem deallocate_frame_4k_correct_witness:
  "\<exists>a'. deallocate_frame_4k bitset eight_free (9 * PAGE_SIZE) = Inr a' \<and> wf_of bitset a' \<and>
    free_of bitset a' = insert 9 {0..<8}"
  using deallocate_frame_4k_correct [OF bset.bit_array_axioms eight_free_facts(2), of 9]
  unfolding eight_free_facts(3) by (simp add: N_FRAMES_def)

text \<open>
  Allocating a 4 KiB frame and freeing it again gives back the same free frames, for
  every array in which a frame is free.
\<close>

theorem allocate_deallocate_4k:
  assumes "x86_64 X" "bit_array B TOTAL_BUDDY_BITS" "wf_of B a" "free_of B a \<noteq> {}"
  shows "\<exists>a1 addr a2. allocate_frame_4k X B a = Inr (a1, Some addr) \<and>
    deallocate_frame_4k B a1 addr = Inr a2 \<and> wf_of B a2 \<and> free_of B a2 = free_of B a"
proof -
  note env = frame_envI [OF assms(1,2)]
  obtain f l where f: "f < N_FRAMES" "l < 16" "level_start l + f div 2 ^ l \<in> bits B (buddy_bytes a)"
    using assms(4) by (auto simp: free_frames_def free_at_def)
  obtain a1 r where r: "allocate_chunk_from_level X B a 0 = Inr (a1, r)"
    "alloc_post B (buddy_bytes a) 0 (buddy_bytes a1) r"
    "r = None \<longleftrightarrow> (\<forall>i\<in>bits B (buddy_bytes a). i < level_start 0)"
    using frame_env.allocate_chunk_ok [OF env assms(3), of 0] by auto
  with f(3) obtain k where k: "r = Some (k * PAGE_SIZE)" "k < 2 ^ 24" "wf_of B a1"
    "chunk k 0 \<subseteq> free_of B a" "free_of B a1 = free_of B a - chunk k 0"
    by (cases r) (auto simp: alloc_post_def)
  have c: "chunk k 0 = {k}" by (auto simp: mem_chunk)
  have "\<exists>b'. deallocate_frame_4k B a1 (k * PAGE_SIZE) = Inr (a1\<lparr>buddy_bytes := b'\<rparr>) \<and>
      buddy_wf (bits B b') \<and> free_frames (bits B b') = insert k (free_of B a1)"
    using k(2,5) c by (intro frame_env.deallocate_frame_4k_ok [OF env k(3)]) (auto simp: N_FRAMES_def)
  then show ?thesis
    using r(1) k(1,4,5) c unfolding allocate_frame_4k_def by (auto simp: insert_absorb)
qed

theorem allocate_deallocate_4k_witness:
  "\<exists>a1 addr a2. allocate_frame_4k x86_doc bitset eight_free = Inr (a1, Some addr) \<and>
    deallocate_frame_4k bitset a1 addr = Inr a2 \<and> wf_of bitset a2 \<and> free_of bitset a2 = {0..<8}"
  using allocate_deallocate_4k [OF x86d.x86_64_axioms bset.bit_array_axioms eight_free_facts(2)]
  unfolding eight_free_facts(3) by auto

text \<open>
  C38. Freeing a 2 MiB frame frees one 4 KiB frame instead, namely the one whose number is the
  number of the 2 MiB frame: the bit is set without the offset of the level. (The case in
  which the two level 9 buddies of the frame are already both free is excluded.)
\<close>

theorem deallocate_frame_2m_frees_wrong_frame:
  assumes "bit_array B TOTAL_BUDDY_BITS" "k < 2 ^ 15"
    and "\<not> (level_start 9 + k div 2 * 2 \<in> bits B (buddy_bytes a) \<and>
            level_start 9 + k div 2 * 2 + 1 \<in> bits B (buddy_bytes a))"
  shows "\<exists>a'. deallocate_frame_2m B a (k * 512 * PAGE_SIZE) = Inr a' \<and>
    free_of B a' = insert k (free_of B a)"
proof -
  have c: "chunk k 0 = {k}" by (auto simp: mem_chunk)
  have "free_frames (insert k S) = insert k (free_frames S)" for S
    using free_frames_insert [of 0 k S] assms(2) c by simp
  then show ?thesis
    using frame_env.deallocate_frame_2m_bits [OF doc_envI [OF assms(1)] assms(2,3)] by auto
qed

theorem deallocate_frame_2m_frees_wrong_frame_witness:
  "\<exists>a'. deallocate_frame_2m bitset eight_free (20 * 512 * PAGE_SIZE) = Inr a' \<and>
    free_of bitset a' = insert 20 {0..<8}"
  using deallocate_frame_2m_frees_wrong_frame [OF bset.bit_array_axioms, of 20 eight_free]
  unfolding eight_free_facts(3) unfolding eight_free_facts(1) by (simp add: level_start_def)

text \<open>
  The search for a smaller chunk never succeeds: when no chunk of the rounded-up level is
  free the request fails and the array is unchanged, however many smaller chunks (of at
  least the requested minimum) are free. Every round of the search asks for the same level.
\<close>

theorem pick_off_no_fallback:
  assumes "x86_64 X" "bit_array B TOTAL_BUDDY_BITS" "wf_of B a"
    and "next_power_of_two n = Inr (2 ^ t)" "0 < n" "n \<le> 2 ^ t" "t \<le> 16" "0 < mf" "mf \<le> n"
    and "\<not> has_chunk (bits B (buddy_bytes a)) t"
  shows "pick_off_contiguous X B a n mf = Inr (a, None)"
proof -
  note env = frame_envI [OF assms(1,2)]
  have sub: "bits B (buddy_bytes a) \<subseteq> {..<TOTAL_BUDDY_BITS}"
    using bit_array.bits_bound [OF assms(2)] by auto
  have "mf \<le> 2 ^ t" using assms(6,9) by simp
  then obtain mn where mn: "next_power_of_two mf = Inr (2 ^ mn)" "mn \<le> t"
    using next_power_of_two_cover [of mf t] assms(7) by auto
  have "\<forall>i\<in>bits B (buddy_bytes a). i < level_start t"
    using assms(10) unfolding has_chunk_iff [OF sub] by (auto simp: not_le)
  with frame_env.pick_off_ok [OF env assms(3-7) mn] show ?thesis by auto
qed

theorem pick_off_no_fallback_witness:
  "free_of bitset eight_free = {0..<8} \<and>
   pick_off_contiguous x86_doc bitset eight_free 12 1 = Inr (eight_free, None)"
proof -
  have "next_power_of_two 12 = Inr (2 ^ 4)" by (simp add: next_power_of_two_def top_bit.simps)
  moreover have "\<not> has_chunk (bits bitset (buddy_bytes eight_free)) 4"
  proof -
    have "\<not> (\<exists>i\<in>{level_start 3}. level_start 4 \<le> i)" by (simp add: level_start_def)
    then show ?thesis unfolding eight_free_facts(1)
      by (subst has_chunk_iff) (simp_all add: TOTAL_start level_start_def)
  qed
  ultimately show ?thesis
    using pick_off_no_fallback [OF x86d.x86_64_axioms bset.bit_array_axioms eight_free_facts(2),
      of 12 4 1] eight_free_facts(3) by simp
qed

text \<open>
  The array holds 64 GiB, half of \<open>MAX_PHYS_MAP\<close>: a usable single frame with an odd
  number above that limit is entered as a chunk of level 1 of the low memory, so that the
  two frames \<open>2 k\<close> and \<open>2 k + 1\<close> are free instead of the frame \<open>N_FRAMES + k\<close>.
\<close>

theorem new_misplaces_high_frame:
  assumes "x86_64 X" "bit_array B TOTAL_BUDDY_BITS" "bits B zeroed = {}" "k < 2 ^ 22" "odd k"
  shows "(N_FRAMES + k) * PAGE_SIZE < MAX_PHYS_MAP \<and>
    (\<exists>a. new X B zeroed [\<lparr>mm_base = (N_FRAMES + k) * PAGE_SIZE, mm_length = PAGE_SIZE,
        mm_ty = Usable\<rparr>] = Inr a \<and> free_of B a = {2 * k, 2 * k + 1})"
proof -
  obtain b' where b': "mark_entry X B
      \<lparr>mm_base = (N_FRAMES + k) * PAGE_SIZE, mm_length = PAGE_SIZE, mm_ty = Usable\<rparr> zeroed = Inr b'"
    "bits B b' = {level_start 1 + k}"
    using frame_env.mark_entry_beyond [OF frame_envI [OF assms(1,2)] assms(4,5)] assms(3) by metis
  have "(2::nat) ^ 22 \<le> 2 ^ (24 - 1)" by (rule power_increasing) auto
  then have "free_frames {level_start 1 + k} = chunk k 1"
    using assms(4) by (intro free_frames_chunk) simp_all
  also have "\<dots> = {2 * k, 2 * k + 1}" by (auto simp: chunk_interval)
  finally show ?thesis
    using b' assms(4) by (simp add: new_def N_FRAMES_def PAGE_SIZE_def MAX_PHYS_MAP_def)
qed

theorem new_misplaces_high_frame_witness:
  "\<exists>a. new x86_doc bitset {} [\<lparr>mm_base = (N_FRAMES + 5) * PAGE_SIZE, mm_length = PAGE_SIZE,
      mm_ty = Usable\<rparr>] = Inr a \<and> free_of bitset a = {10, 11}"
  using new_misplaces_high_frame [OF x86d.x86_64_axioms bset.bit_array_axioms, of "{}" 5]
  by (simp add: bits_bitset)

end
