(* ===== verification/Mapper_Allocator.thy ===== *)
theory Mapper_Allocator
  imports Frame_Properties
begin

text \<open>
  The mapper-allocator pair of \<^verbatim>\<open>paging/mapall.rs\<close>. The page table mapper itself is the
  \<^verbatim>\<open>OffsetPageTable\<close> of the \<^verbatim>\<open>x86_64\<close> crate and a parameter: \<open>map_to_op\<close> is its
  \<^verbatim>\<open>Mapper::map_to\<close>, which may take frames for page tables from the allocator it is given,
  and \<open>page_of\<close> the translation of a page that it maintains.
\<close>

section \<open>The code\<close>

datatype PageSize = Size4KiB | Size2MiB

fun size_of :: "PageSize \<Rightarrow> nat" where
  "size_of Size4KiB = 4096"
| "size_of Size2MiB = 2097152"

datatype MapToError = FrameAllocationFailed | ParentEntryHugePage | PageAlreadyMapped

record ('m, 'b) mapper_ops =
  map_to_op :: "PageSize \<Rightarrow> nat \<Rightarrow> nat \<Rightarrow> u64 \<Rightarrow> 'm \<Rightarrow> 'b RuneFrameAllocator \<Rightarrow>
    ((MapToError + unit) \<times> 'm \<times> 'b RuneFrameAllocator) res"
  page_of :: "'m \<Rightarrow> nat \<Rightarrow> (nat \<times> u64) option"

record ('m, 'b) MapperAllocator =
  mapper :: 'm
  allocator :: "'b RuneFrameAllocator"

definition map_to ::
  "('m, 'b) mapper_ops \<Rightarrow> ('m, 'b) MapperAllocator \<Rightarrow> nat \<Rightarrow> nat \<Rightarrow> u64 \<Rightarrow>
   ((MapToError + unit) \<times> ('m, 'b) MapperAllocator) res" where
  "map_to M self page phys_frame flags =
     bindR (map_to_op M Size4KiB page phys_frame flags (mapper self) (allocator self))
       (\<lambda>(r, m, al).
     Inr (r, self\<lparr>mapper := m, allocator := al\<rparr>))"

text \<open>
  The inner loop of \<open>page_region\<close>. The result of \<^verbatim>\<open>map_to\<close> is dropped, as in the source.
\<close>

fun map_frames ::
  "x86_ops \<Rightarrow> ('m, 'b) mapper_ops \<Rightarrow> PageSize \<Rightarrow> u64 \<Rightarrow> nat \<Rightarrow> nat list \<Rightarrow>
   ('m, 'b) MapperAllocator \<Rightarrow> nat \<Rightarrow> (('m, 'b) MapperAllocator \<times> nat) res" where
  "map_frames X M S flags first_mapped_frame [] self current_page = Inr (self, current_page)"
| "map_frames X M S flags first_mapped_frame (i # is) self current_page =
     bindR (frame_add X (size_of S) first_mapped_frame i) (\<lambda>frame.
     bindR (map_to_op M S current_page frame flags (mapper self) (allocator self)) (\<lambda>(_, m, al).
     bindR (page_add X (size_of S) current_page 1) (\<lambda>next_page.
     map_frames X M S flags first_mapped_frame is
       (self\<lparr>mapper := m, allocator := al\<rparr>) next_page)))"

lemma pick_off_count:
  assumes "pick_off_contiguous X B a n mf = Inr (a', Some (addr, m))"
  shows "m \<le> n" "0 < n \<Longrightarrow> 0 < m"
proof -
  from assms obtain level n_mapped where "ushl 1 level = Inr n_mapped" "m = min n_mapped n"
    unfolding pick_off_contiguous_def bindR_eq_Inr
    by (auto simp: bindR_eq_Inr split: option.splits prod.splits)
  moreover from this have "n_mapped = 2 ^ level"
    using ushl_ok [of level 1] power_strict_increasing [of level 64 "2::nat"]
    by (simp add: ushl_def split: if_splits)
  ultimately show "m \<le> n" "0 < n \<Longrightarrow> 0 < m" by auto
qed

lemma bindR_cong [fundef_cong]:
  "m = m' \<Longrightarrow> (\<And>x. m' = Inr x \<Longrightarrow> f x = f' x) \<Longrightarrow> bindR m f = bindR m' f'"
  by (cases m') auto

function page_loop ::
  "x86_ops \<Rightarrow> 'b bit_ops \<Rightarrow> ('m, 'b) mapper_ops \<Rightarrow> PageSize \<Rightarrow> u64 \<Rightarrow> nat \<Rightarrow>
   ('m, 'b) MapperAllocator \<Rightarrow> nat \<Rightarrow> nat \<Rightarrow> ((unit + unit) \<times> ('m, 'b) MapperAllocator) res" where
  "page_loop X B M S flags minimum_unit self remaining_frames current_page =
     bindR (pick_off_contiguous X B (allocator self) remaining_frames minimum_unit) (\<lambda>(al, found).
     case found of
       None \<Rightarrow> Inr (Inl (), self\<lparr>allocator := al\<rparr>)
     | Some (addr, n_minimal_mapped) \<Rightarrow>
         let n_mapped = n_minimal_mapped div minimum_unit in
         bindR (usub remaining_frames n_minimal_mapped) (\<lambda>remaining1.
         bindR (map_frames X M S flags addr [0..<n_mapped] (self\<lparr>allocator := al\<rparr>) current_page)
           (\<lambda>(self1, page1).
         if remaining1 = 0 then Inr (Inr (), self1)
         else page_loop X B M S flags minimum_unit self1 remaining1 page1)))"
  by pat_completeness auto
termination
proof (relation "measure (\<lambda>(X, B, M, S, flags, u, self, remaining, page). remaining)", goal_cases)
  case (2 X B M S flags u self remaining page x x1 x2 x2a xa y n_mapped x3 xb x5 y1)
  then show ?case
    by (auto simp: usub_def split: if_splits dest: pick_off_count)
qed simp

declare page_loop.simps [simp del]

definition page_region ::
  "x86_ops \<Rightarrow> 'b bit_ops \<Rightarrow> ('m, 'b) mapper_ops \<Rightarrow> PageSize \<Rightarrow> ('m, 'b) MapperAllocator \<Rightarrow>
   nat \<Rightarrow> nat \<Rightarrow> u64 \<Rightarrow> ((unit + unit) \<times> ('m, 'b) MapperAllocator) res" where
  "page_region X B M S self start0 end0 flags =
     bindR (va_align_down X start0 (size_of S)) (\<lambda>start.
     bindR (va_align_up X end0 (size_of S)) (\<lambda>end.
     bindR (va_diff X end start) (\<lambda>len.
     let minimum_unit = size_of S div PAGE_SIZE;
         n_underlying_frames = len div PAGE_SIZE in
     page_loop X B M S flags minimum_unit self n_underlying_frames start)))"

section \<open>What the mapper promises\<close>

text \<open>
  The contract of \<^verbatim>\<open>Mapper::map_to\<close> the kernel relies on: the allocator it is given is only
  used to take frames, a success adds the one mapping that was asked for, and a failure
  leaves the mappings as they were.
\<close>

locale page_mapper =
  fixes B :: "'b bit_ops" and M :: "('m, 'b) mapper_ops"
  assumes map_to_total: "wf_of B al \<Longrightarrow> \<exists>r m' al'.
      map_to_op M S p f flags m al = Inr (r, m', al') \<and> wf_of B al' \<and> free_of B al' \<subseteq> free_of B al"
    and map_to_ok: "map_to_op M S p f flags m al = Inr (Inr (), m', al') \<Longrightarrow>
      page_of M m' = (page_of M m)(p \<mapsto> (f, flags))"
    and map_to_err: "map_to_op M S p f flags m al = Inr (Inl e, m', al') \<Longrightarrow>
      page_of M m' = page_of M m"
begin

lemma map_to_effect:
  assumes "wf_of B al"
  obtains r m' al' where "map_to_op M S p f flags m al = Inr (r, m', al')" "wf_of B al'"
    "free_of B al' \<subseteq> free_of B al"
    "\<forall>q. q \<noteq> p \<longrightarrow> page_of M m' q = page_of M m q"
    "page_of M m' p = page_of M m p \<or> page_of M m' p = Some (f, flags)"
    "r = Inr () \<longrightarrow> page_of M m' p = Some (f, flags)"
proof -
  obtain r m' al' where r: "map_to_op M S p f flags m al = Inr (r, m', al')" "wf_of B al'"
    "free_of B al' \<subseteq> free_of B al"
    using map_to_total [OF assms] by blast
  show thesis
  proof (cases r)
    case (Inl e)
    with r map_to_err [of S p f flags m al e m' al'] show thesis
      by (intro that [OF r]) simp_all
  next
    case (Inr u)
    with r map_to_ok [of S p f flags m al m' al'] show thesis
      by (intro that [OF r]) simp_all
  qed
qed

end

text \<open>
  A mapper that follows the documentation: the first page of every 2 MiB block that is mapped
  with small pages takes a frame for a page table, and a page that is mapped already is
  refused.
\<close>

record doc_tables =
  tables :: "nat list"
  pages :: "(nat \<times> nat \<times> u64) list"

definition doc_map_to ::
  "x86_ops \<Rightarrow> 'b bit_ops \<Rightarrow> PageSize \<Rightarrow> nat \<Rightarrow> nat \<Rightarrow> u64 \<Rightarrow> doc_tables \<Rightarrow> 'b RuneFrameAllocator \<Rightarrow>
   ((MapToError + unit) \<times> doc_tables \<times> 'b RuneFrameAllocator) res" where
  "doc_map_to X B S p f flags m al =
     (if map_of (pages m) p \<noteq> None then Inr (Inl PageAlreadyMapped, m, al)
      else if S = Size2MiB \<or> p div 2097152 \<in> set (tables m) then
        Inr (Inr (), m\<lparr>pages := (p, f, flags) # pages m\<rparr>, al)
      else
        bindR (allocate_frame_4k X B al) (\<lambda>(al1, table).
        Inr (case table of
               None \<Rightarrow> (Inl FrameAllocationFailed, m, al1)
             | Some _ \<Rightarrow> (Inr (), \<lparr>tables = p div 2097152 # tables m,
                                  pages = (p, f, flags) # pages m\<rparr>, al1))))"

definition doc_mapper :: "x86_ops \<Rightarrow> 'b bit_ops \<Rightarrow> (doc_tables, 'b) mapper_ops" where
  "doc_mapper X B = \<lparr>map_to_op = doc_map_to X B, page_of = (\<lambda>m. map_of (pages m))\<rparr>"

lemma allocate_frame_4k_shrinks:
  assumes "x86_64 X" "bit_array B TOTAL_BUDDY_BITS" "wf_of B al"
  shows "\<exists>al' r. allocate_frame_4k X B al = Inr (al', r) \<and> wf_of B al' \<and>
    free_of B al' \<subseteq> free_of B al"
proof -
  obtain al' r where "allocate_chunk_from_level X B al 0 = Inr (al', r)"
    "alloc_post B (buddy_bytes al) 0 (buddy_bytes al') r"
    using frame_env.allocate_chunk_ok [OF frame_envI [OF assms(1,2)] assms(3), of 0] by auto
  then show ?thesis
    by (auto simp: allocate_frame_4k_def alloc_post_def split: option.splits)
qed

lemma doc_mapper_page_mapper:
  assumes "x86_64 X" "bit_array B TOTAL_BUDDY_BITS"
  shows "page_mapper B (doc_mapper X B)"
proof
  fix al S p f flags m
  assume wf: "wf_of B al"
  obtain al' r where a: "allocate_frame_4k X B al = Inr (al', r)" "wf_of B al'"
    "free_of B al' \<subseteq> free_of B al"
    using allocate_frame_4k_shrinks [OF assms wf] by blast
  show "\<exists>r m' al'. map_to_op (doc_mapper X B) S p f flags m al = Inr (r, m', al') \<and>
      wf_of B al' \<and> free_of B al' \<subseteq> free_of B al"
    using wf a by (auto simp: doc_mapper_def doc_map_to_def split: option.splits)
qed (auto simp: doc_mapper_def doc_map_to_def bindR_eq_Inr fun_eq_iff
       split: if_splits option.splits prod.splits)

interpretation docm: page_mapper bitset "doc_mapper x86_doc bitset"
  by (rule doc_mapper_page_mapper [OF x86d.x86_64_axioms bset.bit_array_axioms])

section \<open>Mapping a region\<close>

text \<open>
  The relation between the mappings before and after a run of the inner loop: every page is
  as before, except that the pages from \<open>start\<close> on may map the frames from \<open>base\<close> on, one to
  one and in order.
\<close>

definition mapped_run ::
  "nat \<Rightarrow> u64 \<Rightarrow> nat \<Rightarrow> nat \<Rightarrow> nat set \<Rightarrow> (nat \<Rightarrow> (nat \<times> u64) option) \<Rightarrow> (nat \<Rightarrow> (nat \<times> u64) option) \<Rightarrow> bool"
  where
  "mapped_run s flags start base I before after \<longleftrightarrow>
     (\<forall>p. after p = before p \<or> (\<exists>i\<in>I. p = start + i * s \<and> after p = Some (base + i * s, flags)))"

lemma mapped_run_refl: "mapped_run s flags start base I m m"
  by (simp add: mapped_run_def)

lemma mapped_run_other:
  "mapped_run s flags start base I m m' \<Longrightarrow> (\<And>i. i \<in> I \<Longrightarrow> p \<noteq> start + i * s) \<Longrightarrow> m' p = m p"
  unfolding mapped_run_def by blast

lemma mapped_run_step:
  assumes "\<forall>q. q \<noteq> start + k * s \<longrightarrow> m1 q = m q"
    and "m1 (start + k * s) = m (start + k * s) \<or> m1 (start + k * s) = Some (base + k * s, flags)"
    and "mapped_run s flags start base {Suc k..<n} m1 m2" "k < n"
  shows "mapped_run s flags start base {k..<n} m m2"
  unfolding mapped_run_def
proof
  fix p
  show "m2 p = m p \<or> (\<exists>i\<in>{k..<n}. p = start + i * s \<and> m2 p = Some (base + i * s, flags))"
  proof (cases "m2 p = m1 p")
    case True
    with assms(1,2,4) show ?thesis by (cases "p = start + k * s") auto
  next
    case False
    then obtain i where "i \<in> {Suc k..<n}" "p = start + i * s" "m2 p = Some (base + i * s, flags)"
      using assms(3) by (auto simp: mapped_run_def)
    then show ?thesis by (intro disjI2 bexI [of _ i]) auto
  qed
qed

lemma size_of_pos [simp]: "0 < size_of S"
  by (cases S) auto

lemma size_of_power: obtains k where "k < 47" "size_of S = 2 ^ k"
proof (cases S)
  case Size4KiB
  then show thesis using that [of 12] by simp
next
  case Size2MiB
  then show thesis using that [of 21] by simp
qed

lemma unit_size: "size_of S div PAGE_SIZE * PAGE_SIZE = size_of S" "0 < size_of S div PAGE_SIZE"
  by (cases S; simp add: PAGE_SIZE_def)+

lemma pages_bytes: "np * size_of S div PAGE_SIZE * PAGE_SIZE = np * size_of S"
  by (rule dvd_div_mult_self) (cases S; simp add: PAGE_SIZE_def dvd_mult)

locale region_env = frame_env X B + page_mapper B M
  for X :: x86_ops and B :: "'b bit_ops" and M :: "('m, 'b) mapper_ops"
begin

lemma map_frames_ok:
  assumes "k \<le> n" "wf_of B (allocator self)" "base + n * size_of S < 2 ^ 52"
    and "\<And>i. i \<le> n \<Longrightarrow> canonical (start + i * size_of S)"
  shows "\<exists>self'. map_frames X M S flags base [k..<n] self (start + k * size_of S) =
      Inr (self', start + n * size_of S) \<and>
    wf_of B (allocator self') \<and> free_of B (allocator self') \<subseteq> free_of B (allocator self) \<and>
    mapped_run (size_of S) flags start base {k..<n}
      (page_of M (mapper self)) (page_of M (mapper self'))"
  using assms
proof (induction "n - k" arbitrary: k self)
  case 0
  then show ?case by (simp add: mapped_run_refl)
next
  case (Suc d)
  then have k: "k < n" and d: "d = n - Suc k" by simp_all
  let ?p = "start + k * size_of S" and ?f = "base + k * size_of S"
  have "k * size_of S \<le> n * size_of S" using k by simp
  then have fr: "frame_add X (size_of S) base k = Inr ?f"
    using Suc.prems(3) by (intro frame_add) linarith
  have pg: "page_add X (size_of S) ?p 1 = Inr (start + Suc k * size_of S)"
    using page_add [of ?p 1 "size_of S"] Suc.prems(4) [of k] Suc.prems(4) [of "Suc k"] k
    by (simp add: ac_simps)
  obtain r m' al' where m: "map_to_op M S ?p ?f flags (mapper self) (allocator self) = Inr (r, m', al')"
    "wf_of B al'" "free_of B al' \<subseteq> free_of B (allocator self)"
    "\<forall>q. q \<noteq> ?p \<longrightarrow> page_of M m' q = page_of M (mapper self) q"
    "page_of M m' ?p = page_of M (mapper self) ?p \<or> page_of M m' ?p = Some (?f, flags)"
    "r = Inr () \<longrightarrow> page_of M m' ?p = Some (?f, flags)"
    by (rule map_to_effect [OF Suc.prems(2), of S ?p ?f flags "mapper self"])
  let ?self = "self\<lparr>mapper := m', allocator := al'\<rparr>"
  obtain self' where s: "map_frames X M S flags base [Suc k..<n] ?self (start + Suc k * size_of S) =
      Inr (self', start + n * size_of S)" "wf_of B (allocator self')"
    "free_of B (allocator self') \<subseteq> free_of B al'"
    "mapped_run (size_of S) flags start base {Suc k..<n} (page_of M m') (page_of M (mapper self'))"
    using Suc.hyps(1) [of "Suc k" ?self] d Suc.prems m(2) k by auto
  have "map_frames X M S flags base [k..<n] self ?p = Inr (self', start + n * size_of S)"
    using k s(1) by (simp only: upt_conv_Cons map_frames.simps fr pg m(1) bindR_Inr prod.case)
  moreover have "mapped_run (size_of S) flags start base {k..<n}
      (page_of M (mapper self)) (page_of M (mapper self'))"
    using mapped_run_step [OF m(4,5) s(4) k] .
  ultimately show ?case using s(2,3) m(3) by blast
qed

lemma map_frames_complete:
  assumes succ: "\<And>p f m al r m' al'. map_to_op M S p f flags m al = Inr (r, m', al') \<Longrightarrow>
      page_of M m p = None \<Longrightarrow> r = Inr ()"
    and run: "map_frames X M S flags base [k..<n] self (start + k * size_of S) = Inr (self', q)"
    and env: "wf_of B (allocator self)" "base + n * size_of S < 2 ^ 52"
      "\<And>i. i \<le> n \<Longrightarrow> canonical (start + i * size_of S)"
    and un: "\<And>i. k \<le> i \<Longrightarrow> i < n \<Longrightarrow> page_of M (mapper self) (start + i * size_of S) = None"
    and i: "k \<le> i" "i < n"
  shows "page_of M (mapper self') (start + i * size_of S) = Some (base + i * size_of S, flags)"
  using run env(1) un i
proof (induction "n - k" arbitrary: k self)
  case (Suc d)
  then have k: "k < n" and d: "d = n - Suc k" by simp_all
  let ?p = "start + k * size_of S" and ?f = "base + k * size_of S"
  have inj: "start + i * size_of S = start + j * size_of S \<longleftrightarrow> i = j" for i j
    by (simp add: less_imp_neq [OF size_of_pos, symmetric])
  have "k * size_of S \<le> n * size_of S" using k by simp
  then have fr: "frame_add X (size_of S) base k = Inr ?f"
    using env(2) by (intro frame_add) linarith
  have pg: "page_add X (size_of S) ?p 1 = Inr (start + Suc k * size_of S)"
    using page_add [of ?p 1 "size_of S"] env(3) [of k] env(3) [of "Suc k"] k
    by (simp add: ac_simps)
  obtain r m' al' where m: "map_to_op M S ?p ?f flags (mapper self) (allocator self) = Inr (r, m', al')"
    "wf_of B al'" "free_of B al' \<subseteq> free_of B (allocator self)"
    "\<forall>q. q \<noteq> ?p \<longrightarrow> page_of M m' q = page_of M (mapper self) q"
    "page_of M m' ?p = page_of M (mapper self) ?p \<or> page_of M m' ?p = Some (?f, flags)"
    "r = Inr () \<longrightarrow> page_of M m' ?p = Some (?f, flags)"
    by (rule map_to_effect [OF Suc.prems(2), of S ?p ?f flags "mapper self"])
  have mp: "page_of M m' ?p = Some (?f, flags)"
    using m(6) succ [OF m(1)] Suc.prems(3) [of k] k by simp
  let ?self = "self\<lparr>mapper := m', allocator := al'\<rparr>"
  have run': "map_frames X M S flags base [Suc k..<n] ?self (start + Suc k * size_of S) = Inr (self', q)"
    using Suc.prems(1) k by (simp only: upt_conv_Cons map_frames.simps fr pg m(1) bindR_Inr prod.case)
  have wf': "wf_of B (allocator ?self)" using m(2) by simp
  show ?case
  proof (cases "i = k")
    case True
    obtain self2 where s2: "map_frames X M S flags base [Suc k..<n] ?self (start + Suc k * size_of S) =
        Inr (self2, start + n * size_of S)"
      "mapped_run (size_of S) flags start base {Suc k..<n} (page_of M (mapper ?self))
        (page_of M (mapper self2))"
      using map_frames_ok [of "Suc k" n ?self] k wf' env(2,3) by (metis Suc_leI)
    with run' have "self2 = self'" by simp
    with s2(2) have "page_of M (mapper self') ?p = page_of M (mapper ?self) ?p"
      by (intro mapped_run_other [of "size_of S" flags start base "{Suc k..<n}"]) (auto simp only: inj atLeastLessThan_iff)
    with True mp show ?thesis by simp
  next
    case False
    have "page_of M (mapper ?self) (start + j * size_of S) = None" if "Suc k \<le> j" "j < n" for j
      using Suc.prems(3) [of j] m(4) [THEN spec, of "start + j * size_of S"] that unfolding inj by simp
    then show ?thesis
      using Suc.hyps(1) [of "Suc k" ?self] Suc.hyps(2) run' wf' Suc.prems(4,5) False by simp
  qed
qed simp

end

text \<open>The page-aligned hull of a range, and the ranges \<open>page_region\<close> accepts.\<close>

definition hull :: "PageSize \<Rightarrow> nat \<Rightarrow> nat \<Rightarrow> nat \<times> nat" where
  "hull S start0 end0 =
     (start0 div size_of S * size_of S, (end0 + size_of S - 1) div size_of S * size_of S)"

definition region_ok :: "PageSize \<Rightarrow> nat \<Rightarrow> nat \<Rightarrow> bool" where
  "region_ok S start0 end0 \<longleftrightarrow> canonical start0 \<and> canonical end0 \<and>
     (case hull S start0 end0 of (s, e) \<Rightarrow>
        s < e \<and> (e < 2 ^ 47 \<or> 2 ^ 64 - 2 ^ 47 \<le> s \<and> e < 2 ^ 64) \<and> e - s \<le> 2 ^ 28)"

lemma region_okE:
  assumes "region_ok S start0 end0" "hull S start0 end0 = (s, e)"
  obtains np where "e = s + np * size_of S" "0 < np" "np * size_of S \<le> 2 ^ 28"
    "\<And>i. i \<le> np \<Longrightarrow> canonical (s + i * size_of S)"
    "x86_64 X \<Longrightarrow> va_align_down X start0 (size_of S) = Inr s"
    "x86_64 X \<Longrightarrow> va_align_up X end0 (size_of S) = Inr e"
    "x86_64 X \<Longrightarrow> va_diff X e s = Inr (np * size_of S)"
proof -
  define a where "a = start0 div size_of S"
  define b where "b = (end0 + size_of S - 1) div size_of S"
  have se: "s = a * size_of S" "e = b * size_of S"
    using assms(2) by (simp_all add: hull_def a_def b_def)
  have ok: "canonical start0" "canonical end0" "s < e" "e < 2 ^ 47 \<or> 2 ^ 64 - 2 ^ 47 \<le> s \<and> e < 2 ^ 64"
    "e - s \<le> 2 ^ 28"
    using assms by (simp_all add: region_ok_def)
  have ab: "a < b" using ok(3) unfolding se by simp
  have e: "e = s + (b - a) * size_of S" "e - s = (b - a) * size_of S"
    using ab by (simp_all add: se diff_mult_distrib)
  have can: "canonical (s + i * size_of S)" if "i \<le> b - a" for i
  proof -
    have "i * size_of S \<le> (b - a) * size_of S" using that by simp
    then have "s + i * size_of S \<le> e" using e(1) by linarith
    then show ?thesis using ok(4) unfolding canonical_def by linarith
  qed
  have cane: "canonical e" using can [of "b - a"] e by simp
  obtain k where k: "k < 47" "size_of S = 2 ^ k" by (rule size_of_power)
  show thesis
  proof (rule that [of "b - a"])
    show "(b - a) * size_of S \<le> 2 ^ 28" using ok(5) e(2) by simp
    show "va_align_down X start0 (size_of S) = Inr s" if "x86_64 X"
      using x86_64.va_align_down [OF that ok(1) k(1)] se(1) k(2) a_def by simp
    show "va_align_up X end0 (size_of S) = Inr e" if "x86_64 X"
      using x86_64.va_align_up [OF that ok(2) k(1)] cane se(2) k(2) b_def by simp
    show "va_diff X e s = Inr ((b - a) * size_of S)" if "x86_64 X"
      using x86_64.va_diff [OF that cane, of s] ok(3) e(2) by simp
  qed (use ab e can in auto)
qed

context region_env
begin

lemma page_region_run:
  assumes wf: "wf_of B (allocator self)" and ok: "region_ok S start0 end0"
    and h: "hull S start0 end0 = (s, e)"
  defines "n \<equiv> (e - s) div PAGE_SIZE"
  shows "\<exists>t. n \<le> 2 ^ t \<and> 2 ^ t < 2 * n \<and>
    (if has_chunk (bits B (buddy_bytes (allocator self))) t then
       \<exists>f al self' q. {f..<f + n} \<subseteq> free_of B (allocator self) \<and> size_of S dvd f * PAGE_SIZE \<and>
         free_of B al = free_of B (allocator self) - {f..<f + n} \<and> wf_of B al \<and>
         f * PAGE_SIZE + n * PAGE_SIZE < 2 ^ 52 \<and>
         map_frames X M S flags (f * PAGE_SIZE) [0..<(e - s) div size_of S]
           (self\<lparr>allocator := al\<rparr>) s = Inr (self', q) \<and>
         page_region X B M S self start0 end0 flags = Inr (Inr (), self')
     else page_region X B M S self start0 end0 flags = Inr (Inl (), self))"
proof -
  let ?u = "size_of S div PAGE_SIZE"
  obtain np where np: "e = s + np * size_of S" "0 < np" "np * size_of S \<le> 2 ^ 28"
    "\<And>i. i \<le> np \<Longrightarrow> canonical (s + i * size_of S)"
    "va_align_down X start0 (size_of S) = Inr s" "va_align_up X end0 (size_of S) = Inr e"
    "va_diff X e s = Inr (np * size_of S)"
    using region_okE [OF ok h] x86_64_axioms by metis
  have u: "size_of S = ?u * PAGE_SIZE" "0 < ?u" using unit_size by simp_all
  have es: "e - s = np * size_of S" "(e - s) div size_of S = np" using np(1) by simp_all
  have "np * size_of S = np * ?u * PAGE_SIZE" using u(1) by (metis mult.assoc)
  then have n: "n = np * ?u" unfolding n_def es(1)
    by (simp only: PAGE_SIZE_def nonzero_mult_div_cancel_right)
  have n16: "n \<le> 2 ^ 16" using np(3) unfolding n_def es(1) by (simp add: PAGE_SIZE_def)
  have un: "?u \<le> n" using np(2) unfolding n by simp
  have region: "page_region X B M S self start0 end0 flags = page_loop X B M S flags ?u self n s"
    unfolding page_region_def np(5-7) bindR_Inr Let_def n_def es(1) ..
  from pick_off_result [OF wf u(2) un n16]
  obtain t al r where t: "2 ^ t < 2 * n" "n \<le> 2 ^ t"
    and pick: "pick_off_contiguous X B (allocator self) n ?u = Inr (al, r)" "wf_of B al"
      "r = None \<longleftrightarrow> \<not> has_chunk (bits B (buddy_bytes (allocator self))) t"
    and res: "case r of None \<Rightarrow> al = allocator self
       | Some (addr, m) \<Rightarrow> m = n \<and> (\<exists>f. addr = f * PAGE_SIZE \<and> 2 ^ t dvd f \<and>
           {f..<f + n} \<subseteq> free_of B (allocator self) \<and>
           free_of B al = free_of B (allocator self) - {f..<f + n})"
    by blast
  show ?thesis
  proof (cases r)
    case None
    then show ?thesis
      using t pick res unfolding region page_loop.simps [of X B M S flags ?u self n s] by auto
  next
    case (Some am)
    then obtain f where f: "r = Some (f * PAGE_SIZE, n)" "2 ^ t dvd f"
      "{f..<f + n} \<subseteq> free_of B (allocator self)"
      "free_of B al = free_of B (allocator self) - {f..<f + n}"
      using res by (cases am) auto
    have n0: "0 < n" using u(2) un by simp
    have "f + n - 1 \<in> free_of B (allocator self)" using f(3) n0 by auto
    then have "f + n - 1 < N_FRAMES" by (simp add: free_frames_def)
    then have fn: "f * PAGE_SIZE + n * PAGE_SIZE < 2 ^ 52"
      using n0 by (simp add: N_FRAMES_def PAGE_SIZE_def)
    have nps: "n * PAGE_SIZE = np * size_of S" using n u(1) by (metis mult.assoc)
    have "?u dvd 2 ^ t"
    proof (cases S)
      case Size2MiB
      then have "(2::nat) ^ 9 \<le> 2 ^ t" using un t(2) by (simp add: PAGE_SIZE_def)
      then have "9 \<le> t" by (rule power_le_imp_le_exp [rotated]) simp
      then have "(2::nat) ^ 9 dvd 2 ^ t" by (rule le_imp_power_dvd)
      with Size2MiB show ?thesis by (simp add: PAGE_SIZE_def)
    qed (simp add: PAGE_SIZE_def)
    then have "?u dvd f" using f(2) by (rule dvd_trans)
    then have al: "size_of S dvd f * PAGE_SIZE"
      using u(1) mult_dvd_mono [of ?u f PAGE_SIZE PAGE_SIZE] by simp
    obtain self' where run: "map_frames X M S flags (f * PAGE_SIZE) [0..<np] (self\<lparr>allocator := al\<rparr>) s =
        Inr (self', s + np * size_of S)"
      using map_frames_ok [of 0 np "self\<lparr>allocator := al\<rparr>" "f * PAGE_SIZE" S s flags]
        pick(2) fn np(4) unfolding nps by auto
    have nu: "n div ?u = np" using n u(2) by simp
    have "page_region X B M S self start0 end0 flags = Inr (Inr (), self')"
      unfolding region page_loop.simps [of X B M S flags ?u self n s] pick(1) f(1)
      by (simp add: Let_def nu run)
    then show ?thesis
      using t f(3,4) al pick(2,3) fn run es(2) f(1) by (intro exI [of _ t]) auto
  qed
qed

end

interpretation dregion: region_env x86_doc bitset "doc_mapper x86_doc bitset" ..

context region_env
begin

lemma page_region_result:
  assumes wf: "wf_of B (allocator self)" and ok: "region_ok S start0 end0"
    and h: "hull S start0 end0 = (s, e)" and n: "n = (e - s) div PAGE_SIZE"
  shows "\<exists>t r self'. page_region X B M S self start0 end0 flags = Inr (r, self') \<and>
    wf_of B (allocator self') \<and> n \<le> 2 ^ t \<and> 2 ^ t < 2 * n \<and>
    (r = Inr () \<longleftrightarrow> has_chunk (bits B (buddy_bytes (allocator self))) t) \<and>
    (case r of
       Inl _ \<Rightarrow> self' = self
     | Inr _ \<Rightarrow> \<exists>f. {f..<f + n} \<subseteq> free_of B (allocator self) \<and> size_of S dvd f * PAGE_SIZE \<and>
         free_of B (allocator self') \<subseteq> free_of B (allocator self) - {f..<f + n} \<and>
         mapped_run (size_of S) flags s (f * PAGE_SIZE) {0..<(e - s) div size_of S}
           (page_of M (mapper self)) (page_of M (mapper self')))"
proof -
  from page_region_run [OF wf ok h, of flags, folded n]
  obtain t where t: "n \<le> 2 ^ t" "2 ^ t < 2 * n" and
    run: "if has_chunk (bits B (buddy_bytes (allocator self))) t then
       \<exists>f al self' q. {f..<f + n} \<subseteq> free_of B (allocator self) \<and> size_of S dvd f * PAGE_SIZE \<and>
         free_of B al = free_of B (allocator self) - {f..<f + n} \<and> wf_of B al \<and>
         f * PAGE_SIZE + n * PAGE_SIZE < 2 ^ 52 \<and>
         map_frames X M S flags (f * PAGE_SIZE) [0..<(e - s) div size_of S]
           (self\<lparr>allocator := al\<rparr>) s = Inr (self', q) \<and>
         page_region X B M S self start0 end0 flags = Inr (Inr (), self')
     else page_region X B M S self start0 end0 flags = Inr (Inl (), self)"
    by blast
  show ?thesis
  proof (cases "has_chunk (bits B (buddy_bytes (allocator self))) t")
    case False
    with run t wf show ?thesis by (intro exI [of _ t]) simp
  next
    case True
    then obtain f al self' q where f: "{f..<f + n} \<subseteq> free_of B (allocator self)"
      "size_of S dvd f * PAGE_SIZE" "free_of B al = free_of B (allocator self) - {f..<f + n}"
      "wf_of B al" "f * PAGE_SIZE + n * PAGE_SIZE < 2 ^ 52"
      "map_frames X M S flags (f * PAGE_SIZE) [0..<(e - s) div size_of S] (self\<lparr>allocator := al\<rparr>) s =
        Inr (self', q)" "page_region X B M S self start0 end0 flags = Inr (Inr (), self')"
      using run by auto
    obtain np where np: "e = s + np * size_of S" "\<And>i. i \<le> np \<Longrightarrow> canonical (s + i * size_of S)"
      using region_okE [OF ok h] by metis
    have k: "(e - s) div size_of S = np" "n * PAGE_SIZE = np * size_of S"
      using pages_bytes [of np S] unfolding n np(1) by simp_all
    have "wf_of B (allocator self') \<and> free_of B (allocator self') \<subseteq> free_of B al \<and>
        mapped_run (size_of S) flags s (f * PAGE_SIZE) {0..<np}
          (page_of M (mapper self)) (page_of M (mapper self'))"
      using map_frames_ok [of 0 np "self\<lparr>allocator := al\<rparr>" "f * PAGE_SIZE" S s flags]
        f(4,5,6) np(2) unfolding k by auto
    with t f(1-3,7) True show ?thesis unfolding k(1) by (intro exI [of _ t]) auto
  qed
qed

end

lemma region_envI:
  "x86_64 X \<Longrightarrow> bit_array B TOTAL_BUDDY_BITS \<Longrightarrow> page_mapper B M \<Longrightarrow> region_env X B M"
  by (intro region_env.intro frame_envI)

lemma has_chunk_mono: "has_chunk S t \<Longrightarrow> t' \<le> t \<Longrightarrow> has_chunk S t'"
  unfolding has_chunk_def by (meson le_trans)


text \<open>Two pages of a user range, with frames 0 to 7 free.\<close>

abbreviation no_pages :: doc_tables where
  "no_pages \<equiv> \<lparr>tables = [], pages = []\<rparr>"


text \<open>
  When the mapper refuses no page that is not mapped, and no page of the region is
  mapped, a successful call maps every page of the region.
\<close>

theorem page_region_maps_all:
  assumes "x86_64 X" "bit_array B TOTAL_BUDDY_BITS" "page_mapper B M"
    and "wf_of B (allocator self)" "region_ok S start0 end0" "hull S start0 end0 = (s, e)"
    and accepts: "\<forall>p f m al r m' al'. map_to_op M S p f flags m al = Inr (r, m', al') \<longrightarrow>
      page_of M m p = None \<longrightarrow> r = Inr ()"
    and unmapped: "\<forall>i < (e - s) div size_of S. page_of M (mapper self) (s + i * size_of S) = None"
    and res: "page_region X B M S self start0 end0 flags = Inr (Inr (), self')"
  shows "\<exists>f. {f..<f + (e - s) div PAGE_SIZE} \<subseteq> free_of B (allocator self) \<and>
    (\<forall>i < (e - s) div size_of S.
       page_of M (mapper self') (s + i * size_of S) = Some (f * PAGE_SIZE + i * size_of S, flags))"
proof -
  note env = region_envI [OF assms(1-3)]
  obtain np where np: "e = s + np * size_of S" "\<And>i. i \<le> np \<Longrightarrow> canonical (s + i * size_of S)"
    using region_okE [OF assms(5,6)] by metis
  have k: "(e - s) div size_of S = np" "(e - s) div PAGE_SIZE * PAGE_SIZE = np * size_of S"
    using pages_bytes [of np S] unfolding np(1) by simp_all
  from region_env.page_region_run [OF env assms(4-6), of flags] res
  obtain f al q where f: "{f..<f + (e - s) div PAGE_SIZE} \<subseteq> free_of B (allocator self)" "wf_of B al"
    "f * PAGE_SIZE + np * size_of S < 2 ^ 52"
    "map_frames X M S flags (f * PAGE_SIZE) [0..<np] (self\<lparr>allocator := al\<rparr>) s = Inr (self', q)"
    unfolding k by (auto split: if_splits)
  have "page_of M (mapper self') (s + i * size_of S) = Some (f * PAGE_SIZE + i * size_of S, flags)"
    if "i < np" for i
    using region_env.map_frames_complete [OF env, of S flags "f * PAGE_SIZE" 0 np
      "self\<lparr>allocator := al\<rparr>" s self' q i] accepts unmapped f(2-4) np(2) that unfolding k(1) by simp
  with f(1) show ?thesis unfolding k(1) by blast
qed

text \<open>The array with the one free chunk of frames 0 to 1023.\<close>

definition level10_free :: "nat set RuneFrameAllocator" where
  "level10_free = \<lparr>buddy_bytes = {level_start 10 + 0}\<rparr>"

lemma level10_free_facts:
  "bits bitset (buddy_bytes level10_free) = {level_start 10}" "wf_of bitset level10_free"
  "free_of bitset level10_free = {0..<1024}"
proof -
  show b: "bits bitset (buddy_bytes level10_free) = {level_start 10}"
    using level_bit_total [of 10 0] by (simp add: level10_free_def bits_bitset) auto
  show "wf_of bitset level10_free" "free_of bitset level10_free = {0..<1024}"
    using buddy_wf_chunk [of 10 0] free_frames_chunk [of 10 0] unfolding b
    by (simp_all add: chunk_interval)
qed

lemma level10_free_chunk: "t \<le> 10 \<Longrightarrow> has_chunk (bits bitset (buddy_bytes level10_free)) t"
  unfolding has_chunk_def level10_free_facts(1)
  by (rule exI [of _ 10], rule exI [of _ 0]) simp

lemma has_chunk_covers:
  fixes n :: nat
  assumes "has_chunk S t" "n \<le> 2 ^ t" "2 ^ t' < 2 * n"
  shows "has_chunk S t'"
proof -
  have "2 ^ t' < (2::nat) ^ Suc t" using assms(2,3) by simp
  then have "t' < Suc t" by (rule power_less_imp_less_exp [rotated]) simp
  then show ?thesis using has_chunk_mono [OF assms(1)] by simp
qed

lemma huge_page_call:
  "\<exists>self'. page_region x86_doc bitset (doc_mapper x86_doc bitset) Size2MiB
      \<lparr>mapper = no_pages, allocator = level10_free\<rparr> 0 2097152 3 = Inr (Inr (), self')"
proof -
  have h: "hull Size2MiB 0 2097152 = (0, 2097152)" by (simp add: hull_def)
  have ok: "region_ok Size2MiB 0 2097152" by (simp add: region_ok_def h canonical_def)
  let ?self = "\<lparr>mapper = no_pages, allocator = level10_free\<rparr>"
  from dregion.page_region_run [OF _ ok h, of ?self 3] level10_free_facts(2)
  obtain t where t: "2 ^ t < 2 * ((2097152 - 0) div PAGE_SIZE)" and
    r: "has_chunk (bits bitset (buddy_bytes (allocator ?self))) t \<Longrightarrow>
     \<exists>self'. page_region x86_doc bitset (doc_mapper x86_doc bitset) Size2MiB ?self 0 2097152 3 =
       Inr (Inr (), self')"
    by (auto split: if_splits)
  have "has_chunk (bits bitset (buddy_bytes (allocator ?self))) t"
    using has_chunk_covers [OF level10_free_chunk [OF order_refl] _ t] by (simp add: PAGE_SIZE_def)
  then show ?thesis by (rule r)
qed

theorem page_region_maps_all_witness:
  "\<exists>self' f. page_region x86_doc bitset (doc_mapper x86_doc bitset) Size2MiB
      \<lparr>mapper = no_pages, allocator = level10_free\<rparr> 0 2097152 3 = Inr (Inr (), self') \<and>
    {f..<f + 512} \<subseteq> {0..<1024} \<and>
    page_of (doc_mapper x86_doc bitset) (mapper self') 0 = Some (f * PAGE_SIZE, 3)"
proof -
  have h: "hull Size2MiB 0 2097152 = (0, 2097152)" by (simp add: hull_def)
  have ok: "region_ok Size2MiB 0 2097152" by (simp add: region_ok_def h canonical_def)
  obtain self' where s: "page_region x86_doc bitset (doc_mapper x86_doc bitset) Size2MiB
      \<lparr>mapper = no_pages, allocator = level10_free\<rparr> 0 2097152 3 = Inr (Inr (), self')"
    using huge_page_call by blast
  have "\<exists>f. {f..<f + (2097152 - 0) div PAGE_SIZE} \<subseteq> free_of bitset level10_free \<and>
    (\<forall>i < (2097152 - 0) div size_of Size2MiB.
       page_of (doc_mapper x86_doc bitset) (mapper self') (0 + i * size_of Size2MiB) =
         Some (f * PAGE_SIZE + i * size_of Size2MiB, 3))"
    using page_region_maps_all [OF x86d.x86_64_axioms bset.bit_array_axioms docm.page_mapper_axioms
        _ ok h _ _ s] level10_free_facts(2)
    by (simp add: doc_mapper_def doc_map_to_def split: if_splits)
  then show ?thesis using s unfolding level10_free_facts(3) by (auto simp: PAGE_SIZE_def)
qed

lemma map_frames_refused:
  assumes "\<And>p f m al. map_to_op M S p f flags m al = Inr (Inl e, m, al)"
    and "map_frames X M S flags base is self p = Inr (self', q)"
  shows "self' = self"
  using assms(2)
  by (induction "is" arbitrary: self p) (auto simp: bindR_eq_Inr assms(1))

text \<open>
  C37. The results of the single mappings are not looked at: when the mapper refuses every
  page of the region, and a chunk is free, the call still returns success, nothing is mapped,
  and the frames are no longer free.
\<close>

theorem page_region_ignores_errors:
  assumes "x86_64 X" "bit_array B TOTAL_BUDDY_BITS" "page_mapper B M"
    and "wf_of B (allocator self)" "region_ok S start0 end0" "hull S start0 end0 = (s, e)"
    and refused: "\<forall>p f m al. map_to_op M S p f flags m al = Inr (Inl err, m, al)"
    and chunk: "has_chunk (bits B (buddy_bytes (allocator self))) t" "(e - s) div PAGE_SIZE \<le> 2 ^ t"
  shows "\<exists>f al. page_region X B M S self start0 end0 flags = Inr (Inr (), self\<lparr>allocator := al\<rparr>) \<and>
    {f..<f + (e - s) div PAGE_SIZE} \<subseteq> free_of B (allocator self) \<and>
    free_of B al = free_of B (allocator self) - {f..<f + (e - s) div PAGE_SIZE}"
proof -
  from region_env.page_region_run [OF region_envI [OF assms(1-3)] assms(4-6), of flags]
  obtain t' where t: "2 ^ t' < 2 * ((e - s) div PAGE_SIZE)" and
    run: "if has_chunk (bits B (buddy_bytes (allocator self))) t' then
       \<exists>f al self' q. {f..<f + (e - s) div PAGE_SIZE} \<subseteq> free_of B (allocator self) \<and>
         size_of S dvd f * PAGE_SIZE \<and>
         free_of B al = free_of B (allocator self) - {f..<f + (e - s) div PAGE_SIZE} \<and> wf_of B al \<and>
         f * PAGE_SIZE + (e - s) div PAGE_SIZE * PAGE_SIZE < 2 ^ 52 \<and>
         map_frames X M S flags (f * PAGE_SIZE) [0..<(e - s) div size_of S]
           (self\<lparr>allocator := al\<rparr>) s = Inr (self', q) \<and>
         page_region X B M S self start0 end0 flags = Inr (Inr (), self')
     else page_region X B M S self start0 end0 flags = Inr (Inl (), self)"
    by blast
  then obtain f al self' q where
    f: "{f..<f + (e - s) div PAGE_SIZE} \<subseteq> free_of B (allocator self)"
      "free_of B al = free_of B (allocator self) - {f..<f + (e - s) div PAGE_SIZE}"
      "map_frames X M S flags (f * PAGE_SIZE) [0..<(e - s) div size_of S]
         (self\<lparr>allocator := al\<rparr>) s = Inr (self', q)"
      "page_region X B M S self start0 end0 flags = Inr (Inr (), self')"
    using has_chunk_covers [OF chunk t] by auto
  have "self' = self\<lparr>allocator := al\<rparr>"
    using map_frames_refused [OF _ f(3)] refused by blast
  with f show ?thesis by blast
qed

definition refusing_mapper :: "(unit, 'b) mapper_ops" where
  "refusing_mapper = \<lparr>map_to_op = (\<lambda>S p f flags m al. Inr (Inl ParentEntryHugePage, m, al)),
     page_of = (\<lambda>m p. None)\<rparr>"

interpretation refm: page_mapper bitset refusing_mapper
  by unfold_locales (auto simp: refusing_mapper_def)

theorem page_region_ignores_errors_witness:
  "\<exists>f al. page_region x86_doc bitset refusing_mapper Size4KiB
      \<lparr>mapper = (), allocator = eight_free\<rparr> 5000 12000 3 =
      Inr (Inr (), \<lparr>mapper = (), allocator = al\<rparr>) \<and>
    {f..<f + 2} \<subseteq> {0..<8} \<and> free_of bitset al = {0..<8} - {f..<f + 2}"
proof -
  have h: "hull Size4KiB 5000 12000 = (4096, 12288)" by (simp add: hull_def)
  have ok: "region_ok Size4KiB 5000 12000" by (simp add: region_ok_def h canonical_def)
  have n: "(12288 - 4096) div PAGE_SIZE = 2" by (simp add: PAGE_SIZE_def)
  show ?thesis
    using page_region_ignores_errors [OF x86d.x86_64_axioms bset.bit_array_axioms refm.page_mapper_axioms
        _ ok h, of "\<lparr>mapper = (), allocator = eight_free\<rparr>" 3 ParentEntryHugePage 3]
      eight_free_facts(2) eight_free_chunk [of 3]
    unfolding n by (simp add: eight_free_facts(3)) (auto simp: refusing_mapper_def)
qed

end
