(* ===== verification/Vmem.thy ===== *)
theory Vmem
  imports Mapper_Allocator
begin

text \<open>
  The virtual memory layout of \<^verbatim>\<open>vmem.rs\<close>: the fixed addresses, the offsets of the kernel
  stacks above the direct map, and \<open>init\<close>, which records the direct map offset the boot
  protocol reports. An address constant built with \<^verbatim>\<open>VirtAddr::new_truncate\<close> is sign-extended
  from bit 47.
\<close>

section \<open>The code\<close>

definition LAPIC_ADDR :: nat where "LAPIC_ADDR = 0x1f1000000000"
definition EOI_OFFSET :: nat where "EOI_OFFSET = 0xb0"
definition LAPIC_EOI_ADDR :: nat where "LAPIC_EOI_ADDR = LAPIC_ADDR + EOI_OFFSET"

definition HEAP_START :: nat where "HEAP_START = 0x100000000000"
definition HEAP_SIZE :: nat where "HEAP_SIZE = 0x1000000"

definition STACK_TOP_GUARD :: nat where "STACK_TOP_GUARD = 0x180000020000"
definition STACK_TOP :: nat where "STACK_TOP = 0x18000001f000"
definition STACK_BOT :: nat where "STACK_BOT = 0x180000001000"
definition STACK_BOT_GUARD :: nat where "STACK_BOT_GUARD = 0x180000000000"
definition PAGES_PER_STACK :: nat where "PAGES_PER_STACK = 14"
definition HUGE_PAGE_SIZE :: nat where "HUGE_PAGE_SIZE = 2097152"

definition APIC_START :: nat where "APIC_START = 0xffffbeef00000000"
definition APIC_SIZE :: nat where "APIC_SIZE = 0x000100000000"

definition HPET_ADDR :: nat where "HPET_ADDR = 0x1f1001000000"

definition PRESENT :: u64 where "PRESENT = 1"
definition WRITABLE :: u64 where "WRITABLE = 2"
definition PAGE_FLAG_GUARD :: u64 where "PAGE_FLAG_GUARD = 512"
definition PAGE_FLAG_STACK :: u64 where "PAGE_FLAG_STACK = 1024"
definition PAGE_FLAG_HEAP :: u64 where "PAGE_FLAG_HEAP = 2048"

definition HHDM_TOP_OFFSET :: nat where "HHDM_TOP_OFFSET = MAX_PHYS_MAP"

record vmem_addrs =
  HHDM_ADDR :: nat
  HHDM_TOP_ADDR :: nat
  RSDP_ADDR :: nat

definition vmem_init :: "x86_ops \<Rightarrow> nat \<Rightarrow> nat \<Rightarrow> vmem_addrs res" where
  "vmem_init X hhdm_offset rsdp_addr =
     bindR (va_new X hhdm_offset) (\<lambda>hhdm.
     bindR (va_add X hhdm HHDM_TOP_OFFSET) (\<lambda>hhdm_top.
     bindR (usub rsdp_addr hhdm_offset) (\<lambda>rsdp_phys.
     bindR (pa_new X rsdp_phys) (\<lambda>rsdp.
     Inr \<lparr>HHDM_ADDR = hhdm, HHDM_TOP_ADDR = hhdm_top, RSDP_ADDR = rsdp\<rparr>))))"

definition SCHEDULER_STACK_BOTTOM_OFFSET :: nat where
  "SCHEDULER_STACK_BOTTOM_OFFSET = 0x10000"
definition SCHEDULER_STACK_SIZE :: nat where
  "SCHEDULER_STACK_SIZE = 4"
definition SCHEDULER_STACK_WIDTH :: nat where
  "SCHEDULER_STACK_WIDTH = SCHEDULER_STACK_SIZE + 2"
definition SCHEDULER_STACK_TOP_OFFSET :: nat where
  "SCHEDULER_STACK_TOP_OFFSET = SCHEDULER_STACK_BOTTOM_OFFSET + SCHEDULER_STACK_WIDTH * PAGE_SIZE"

definition KERNEL_STACK_SPACE_BOTTOM_OFFSET :: nat where
  "KERNEL_STACK_SPACE_BOTTOM_OFFSET = 0x100000"

definition LARGE_KERNEL_STACK_PAGES :: nat where
  "LARGE_KERNEL_STACK_PAGES = 5"
definition SMALL_KERNEL_STACK_PAGES :: nat where
  "SMALL_KERNEL_STACK_PAGES = 1"
definition LARGE_KERNEL_STACK_SIZE :: nat where
  "LARGE_KERNEL_STACK_SIZE = LARGE_KERNEL_STACK_PAGES * PAGE_SIZE"
definition SMALL_KERNEL_STACK_SIZE :: nat where
  "SMALL_KERNEL_STACK_SIZE = SMALL_KERNEL_STACK_PAGES * PAGE_SIZE"

definition N_LARGE_KERNEL_STACKS :: nat where
  "N_LARGE_KERNEL_STACKS = 16"
definition N_SMALL_KERNEL_STACKS :: nat where
  "N_SMALL_KERNEL_STACKS = N_LARGE_KERNEL_STACKS * 2"
definition FIRST_LARGE_KERNEL_STACK_TOP_OFFSET :: nat where
  "FIRST_LARGE_KERNEL_STACK_TOP_OFFSET =
     KERNEL_STACK_SPACE_BOTTOM_OFFSET + PAGE_SIZE + LARGE_KERNEL_STACK_SIZE"
definition FIRST_SMALL_KERNEL_STACK_TOP_OFFSET :: nat where
  "FIRST_SMALL_KERNEL_STACK_TOP_OFFSET =
     KERNEL_STACK_SPACE_BOTTOM_OFFSET
       + (PAGE_SIZE + LARGE_KERNEL_STACK_SIZE) * N_LARGE_KERNEL_STACKS
       + PAGE_SIZE
       + SMALL_KERNEL_STACK_SIZE"

definition KERNEL_STACK_SPACE_PAGES :: nat where
  "KERNEL_STACK_SPACE_PAGES =
     N_LARGE_KERNEL_STACKS * (LARGE_KERNEL_STACK_PAGES + 1)
       + N_SMALL_KERNEL_STACKS * (SMALL_KERNEL_STACK_PAGES + 1)
       + 1"
definition KERNEL_STACK_SPACE_SIZE :: nat where
  "KERNEL_STACK_SPACE_SIZE = KERNEL_STACK_SPACE_PAGES * PAGE_SIZE"
definition KERNEL_STACK_SPACE_TOP_OFFSET :: nat where
  "KERNEL_STACK_SPACE_TOP_OFFSET = KERNEL_STACK_SPACE_BOTTOM_OFFSET + KERNEL_STACK_SPACE_SIZE"

definition SCHEDULER_SP_OFFSET :: nat where
  "SCHEDULER_SP_OFFSET = SCHEDULER_STACK_BOTTOM_OFFSET + (SCHEDULER_STACK_SIZE + 1) * PAGE_SIZE"

lemmas vmem_defs [layout_defs] =
  LAPIC_ADDR_def EOI_OFFSET_def LAPIC_EOI_ADDR_def HEAP_START_def HEAP_SIZE_def
  STACK_TOP_GUARD_def STACK_TOP_def STACK_BOT_def STACK_BOT_GUARD_def PAGES_PER_STACK_def
  HUGE_PAGE_SIZE_def APIC_START_def APIC_SIZE_def HPET_ADDR_def HHDM_TOP_OFFSET_def
  SCHEDULER_STACK_BOTTOM_OFFSET_def SCHEDULER_STACK_SIZE_def SCHEDULER_STACK_WIDTH_def
  SCHEDULER_STACK_TOP_OFFSET_def KERNEL_STACK_SPACE_BOTTOM_OFFSET_def
  LARGE_KERNEL_STACK_PAGES_def SMALL_KERNEL_STACK_PAGES_def LARGE_KERNEL_STACK_SIZE_def
  SMALL_KERNEL_STACK_SIZE_def N_LARGE_KERNEL_STACKS_def N_SMALL_KERNEL_STACKS_def
  FIRST_LARGE_KERNEL_STACK_TOP_OFFSET_def FIRST_SMALL_KERNEL_STACK_TOP_OFFSET_def
  KERNEL_STACK_SPACE_PAGES_def KERNEL_STACK_SPACE_SIZE_def KERNEL_STACK_SPACE_TOP_OFFSET_def
  SCHEDULER_SP_OFFSET_def PAGE_SIZE_def MAX_PHYS_MAP_def

section \<open>Offsets of direct map\<close>

text \<open>
  The offset of the direct map the boot protocol reports: a page-aligned address of the upper
  half, with room for the map and for what the kernel puts above it.
\<close>

definition hhdm_ok :: "nat \<Rightarrow> bool" where
  "hhdm_ok h \<longleftrightarrow> 2 ^ 64 - 2 ^ 47 \<le> h \<and> h + 2 ^ 38 < 2 ^ 64 \<and> h mod 4096 = 0"

lemma hhdm_canonical: "hhdm_ok h \<Longrightarrow> n < 2 ^ 38 \<Longrightarrow> canonical (h + n)"
  unfolding hhdm_ok_def by (rule canonical_high) linarith+

lemma vmem_init_ok:
  assumes "x86_64 X" "hhdm_ok h" "h \<le> rsdp" "rsdp < h + MAX_PHYS_MAP"
  shows "vmem_init X h rsdp =
    Inr \<lparr>HHDM_ADDR = h, HHDM_TOP_ADDR = h + MAX_PHYS_MAP, RSDP_ADDR = rsdp - h\<rparr>"
proof -
  have c: "canonical h" "canonical (h + MAX_PHYS_MAP)"
    using hhdm_canonical [OF assms(2), of 0] hhdm_canonical [OF assms(2), of MAX_PHYS_MAP]
    by (simp_all add: MAX_PHYS_MAP_def)
  have "rsdp - h < 2 ^ 52" using assms(4) by (simp add: MAX_PHYS_MAP_def)
  then show ?thesis
    using c assms(3)
    by (simp add: vmem_init_def x86_64.va_new [OF assms(1)] x86_64.va_add [OF assms(1)]
        x86_64.pa_new [OF assms(1)] HHDM_TOP_OFFSET_def)
qed

end
