(* ===== verification/Stack.thy ===== *)
theory Stack
  imports Vmem
begin

text \<open>
  The kernel stacks of \<^verbatim>\<open>stack.rs\<close>: the scheduler's stack above the direct map, the guard
  pages of the stack space, and the manager that hands out large and small stacks from two
  bit arrays. The interrupt flag is part of the state, because the operations disable and
  enable interrupts.
\<close>

section \<open>The code\<close>

definition STACK_FLAGS :: u64 where
  "STACK_FLAGS = PRESENT OR WRITABLE OR PAGE_FLAG_STACK"

definition GUARD_FLAGS :: u64 where
  "GUARD_FLAGS = PAGE_FLAG_GUARD OR PAGE_FLAG_STACK"

definition make_scheduler_stack ::
  "x86_ops \<Rightarrow> 'b bit_ops \<Rightarrow> ('m, 'b) mapper_ops \<Rightarrow> vmem_addrs \<Rightarrow> ('m, 'b) MapperAllocator \<Rightarrow>
   ('m, 'b) MapperAllocator res" where
  "make_scheduler_stack X B M V mapall =
     bindR (va_add X (HHDM_TOP_ADDR V) SCHEDULER_STACK_BOTTOM_OFFSET) (\<lambda>bottom.
     bindR (va_add X (HHDM_TOP_ADDR V) SCHEDULER_STACK_TOP_OFFSET) (\<lambda>tp.
     bindR (va_add X bottom PAGE_SIZE) (\<lambda>start.
     bindR (va_sub_u64 X tp PAGE_SIZE) (\<lambda>end.
     bindR (page_region X B M Size4KiB mapall start end STACK_FLAGS) (\<lambda>(r, mapall1).
     case r of
       Inl _ \<Rightarrow> Inl UnwrapFailed
     | Inr _ \<Rightarrow>
         bindR (map_to M mapall1 bottom 0 PAGE_FLAG_GUARD) (\<lambda>(_, mapall2).
         bindR (page_sub X 4096 tp 1) (\<lambda>last.
         bindR (map_to M mapall2 last 0 PAGE_FLAG_GUARD) (\<lambda>(_, mapall3).
         Inr mapall3))))))))"

record ('l, 's, 'm, 'b) stack_state =
  kernel_large_stacks :: 'l
  kernel_small_stacks :: 's
  MAPALL :: "('m, 'b) MapperAllocator"
  interrupts :: bool

definition map_small_stack ::
  "x86_ops \<Rightarrow> 'b bit_ops \<Rightarrow> 's bit_ops \<Rightarrow> ('m, 'b) mapper_ops \<Rightarrow> vmem_addrs \<Rightarrow>
   ('l, 's, 'm, 'b) stack_state \<Rightarrow> ((unit + nat) \<times> ('l, 's, 'm, 'b) stack_state) res" where
  "map_small_stack X B SB M V self =
     bindR (bit_first_one SB (kernel_small_stacks self) 0) (\<lambda>found.
     case found of
       None \<Rightarrow> Inr (Inl (), self\<lparr>interrupts := False\<rparr>)
     | Some index \<Rightarrow>
         bindR (bit_set SB (kernel_small_stacks self) index False) (\<lambda>small.
         bindR (va_add X (HHDM_ADDR V) FIRST_SMALL_KERNEL_STACK_TOP_OFFSET) (\<lambda>first.
         bindR (umul (SMALL_KERNEL_STACK_SIZE + PAGE_SIZE) index) (\<lambda>offset.
         bindR (va_add X first offset) (\<lambda>end.
         bindR (va_sub_u64 X end SMALL_KERNEL_STACK_SIZE) (\<lambda>start.
         bindR (page_region X B M Size4KiB (MAPALL self) start end STACK_FLAGS) (\<lambda>(_, mapall).
         Inr (Inr end, self\<lparr>kernel_small_stacks := small, MAPALL := mapall,
                             interrupts := True\<rparr>))))))))"

definition map_large_stack ::
  "x86_ops \<Rightarrow> 'b bit_ops \<Rightarrow> 'l bit_ops \<Rightarrow> ('m, 'b) mapper_ops \<Rightarrow> vmem_addrs \<Rightarrow>
   ('l, 's, 'm, 'b) stack_state \<Rightarrow> ((unit + nat) \<times> ('l, 's, 'm, 'b) stack_state) res" where
  "map_large_stack X B LB M V self =
     bindR (bit_first_one LB (kernel_large_stacks self) 0) (\<lambda>found.
     case found of
       None \<Rightarrow> Inr (Inl (), self\<lparr>interrupts := False\<rparr>)
     | Some index \<Rightarrow>
         bindR (bit_set LB (kernel_large_stacks self) index False) (\<lambda>large.
         bindR (va_add X (HHDM_ADDR V) FIRST_LARGE_KERNEL_STACK_TOP_OFFSET) (\<lambda>first.
         bindR (umul (LARGE_KERNEL_STACK_SIZE + PAGE_SIZE) index) (\<lambda>offset.
         bindR (va_add X first offset) (\<lambda>end.
         bindR (va_sub_u64 X end LARGE_KERNEL_STACK_SIZE) (\<lambda>start.
         bindR (page_region X B M Size4KiB (MAPALL self) start end STACK_FLAGS) (\<lambda>(_, mapall).
         Inr (Inr end, self\<lparr>kernel_large_stacks := large, MAPALL := mapall,
                             interrupts := True\<rparr>))))))))"

definition make_kernel_stack ::
  "x86_ops \<Rightarrow> 'b bit_ops \<Rightarrow> 'l bit_ops \<Rightarrow> 's bit_ops \<Rightarrow> ('m, 'b) mapper_ops \<Rightarrow> vmem_addrs \<Rightarrow> bool \<Rightarrow>
   ('l, 's, 'm, 'b) stack_state \<Rightarrow> ((unit + nat) \<times> ('l, 's, 'm, 'b) stack_state) res" where
  "make_kernel_stack X B LB SB M V small_stack self =
     (if small_stack then map_small_stack X B SB M V self else map_large_stack X B LB M V self)"

text \<open>The two loops of \<open>init\<close>: a guard page, then a step over the stack above it.\<close>

fun init_guards ::
  "x86_ops \<Rightarrow> ('m, 'b) mapper_ops \<Rightarrow> nat \<Rightarrow> nat \<Rightarrow> ('m, 'b) MapperAllocator \<Rightarrow> nat \<Rightarrow>
   (('m, 'b) MapperAllocator \<times> nat) res" where
  "init_guards X M stack_pages 0 mapall curpage = Inr (mapall, curpage)"
| "init_guards X M stack_pages (Suc n) mapall curpage =
     bindR (map_to M mapall curpage 0 GUARD_FLAGS) (\<lambda>(_, mapall1).
     bindR (page_add X 4096 curpage (1 + stack_pages)) (\<lambda>nextpage.
     init_guards X M stack_pages n mapall1 nextpage))"

text \<open>\<open>large_ones\<close> and \<open>small_ones\<close> stand for \<open>bitarr![u16, Lsb0; 1; n]\<close> of the two lengths.\<close>

definition stack_init ::
  "x86_ops \<Rightarrow> ('m, 'b) mapper_ops \<Rightarrow> vmem_addrs \<Rightarrow> 'l \<Rightarrow> 's \<Rightarrow> bool \<Rightarrow> ('m, 'b) MapperAllocator \<Rightarrow>
   ('l, 's, 'm, 'b) stack_state res" where
  "stack_init X M V large_ones small_ones enabled mapall =
     bindR (va_add X (HHDM_ADDR V) KERNEL_STACK_SPACE_BOTTOM_OFFSET) (\<lambda>bottom_addr.
     bindR (init_guards X M LARGE_KERNEL_STACK_PAGES N_LARGE_KERNEL_STACKS mapall bottom_addr)
       (\<lambda>(mapall1, curpage1).
     bindR (init_guards X M SMALL_KERNEL_STACK_PAGES (N_SMALL_KERNEL_STACKS + 1) mapall1 curpage1)
       (\<lambda>(mapall2, curpage2).
     Inr \<lparr>kernel_large_stacks = large_ones, kernel_small_stacks = small_ones,
          MAPALL = mapall2, interrupts = enabled\<rparr>)))"

section \<open>Where the stacks are\<close>

definition large_top :: "nat \<Rightarrow> nat \<Rightarrow> nat" where
  "large_top h i = h + FIRST_LARGE_KERNEL_STACK_TOP_OFFSET + (LARGE_KERNEL_STACK_SIZE + PAGE_SIZE) * i"

definition small_top :: "nat \<Rightarrow> nat \<Rightarrow> nat" where
  "small_top h i = h + FIRST_SMALL_KERNEL_STACK_TOP_OFFSET + (SMALL_KERNEL_STACK_SIZE + PAGE_SIZE) * i"

text \<open>The bytes of the stack that ends at an address, and the guard pages that \<open>init\<close> sets.\<close>

definition stack_bytes :: "bool \<Rightarrow> nat \<Rightarrow> nat set" where
  "stack_bytes small tp = {tp - (if small then SMALL_KERNEL_STACK_SIZE else LARGE_KERNEL_STACK_SIZE)..<tp}"

definition guard_pages :: "nat \<Rightarrow> nat list" where
  "guard_pages h =
     map (\<lambda>i. h + KERNEL_STACK_SPACE_BOTTOM_OFFSET + i * (1 + LARGE_KERNEL_STACK_PAGES) * PAGE_SIZE)
       [0..<N_LARGE_KERNEL_STACKS] @
     map (\<lambda>i. h + KERNEL_STACK_SPACE_BOTTOM_OFFSET +
              (N_LARGE_KERNEL_STACKS * (1 + LARGE_KERNEL_STACK_PAGES) + i * (1 + SMALL_KERNEL_STACK_PAGES)) * PAGE_SIZE)
       [0..<N_SMALL_KERNEL_STACKS + 1]"

lemma large_top_eq: "large_top h i = h + 0x106000 + 24576 * i"
  by (simp add: large_top_def layout_defs)

lemma small_top_eq: "small_top h i = h + 0x162000 + 8192 * i"
  by (simp add: small_top_def layout_defs)

lemma stack_bytes_eq:
  "stack_bytes True tp = {tp - 4096..<tp}" "stack_bytes False tp = {tp - 20480..<tp}"
  by (simp_all add: stack_bytes_def layout_defs)

lemma stack_space: "KERNEL_STACK_SPACE_BOTTOM_OFFSET = 0x100000" "KERNEL_STACK_SPACE_TOP_OFFSET = 0x1a1000"
  by (simp_all add: layout_defs)

text \<open>The stack of index \<open>i\<close>, and what the layout guarantees of it.\<close>

definition stack_top_of :: "nat \<Rightarrow> bool \<times> nat \<Rightarrow> nat" where
  "stack_top_of h k = (if fst k then small_top h (snd k) else large_top h (snd k))"

definition stack_index_ok :: "bool \<times> nat \<Rightarrow> bool" where
  "stack_index_ok k \<longleftrightarrow> snd k < (if fst k then N_SMALL_KERNEL_STACKS else N_LARGE_KERNEL_STACKS)"

lemma stack_bytes_disjoint:
  assumes "stack_index_ok k" "stack_index_ok j" "k \<noteq> j"
  shows "stack_bytes (fst k) (stack_top_of h k) \<inter> stack_bytes (fst j) (stack_top_of h j) = {}"
proof -
  have sep: "{a - n..<a} \<inter> {b - m..<b} = {}" if "a \<le> b - m \<or> b \<le> a - n" for a b n m :: nat
    using that by auto
  obtain s i where k: "k = (s, i)" by (cases k)
  obtain t l where j: "j = (t, l)" by (cases j)
  show ?thesis
    using assms unfolding k j
    by (cases s; cases t)
      (auto simp: stack_index_ok_def stack_top_of_def stack_bytes_eq small_top_eq large_top_eq
        N_SMALL_KERNEL_STACKS_def N_LARGE_KERNEL_STACKS_def intro!: sep)
qed

lemma hull_aligned: "hull Size4KiB (4096 * a) (4096 * b) = (4096 * a, 4096 * b)"
  by (simp add: hull_def)

text \<open>A run of a few whole pages above the direct map offset is a region that can be mapped.\<close>

lemma aligned_region:
  assumes "hhdm_ok h" "tp = h + 4096 * n" "4096 * n < 2 ^ 38" "0 < k" "k \<le> n" "k < 8"
  shows "region_ok Size4KiB (tp - 4096 * k) tp" "hull Size4KiB (tp - 4096 * k) tp = (tp - 4096 * k, tp)"
proof -
  obtain q where q: "h = 4096 * q" using assms(1) unfolding hhdm_ok_def by (metis mod_0_imp_dvd dvdE)
  have st: "tp - 4096 * k = 4096 * (q + n - k)" "tp = 4096 * (q + n)"
    using assms(2,5) q by (simp_all add: diff_mult_distrib2 algebra_simps)
  show hull: "hull Size4KiB (tp - 4096 * k) tp = (tp - 4096 * k, tp)"
    using hull_aligned [of "q + n - k" "q + n"] unfolding st(1) [symmetric] st(2) [symmetric] .
  have le: "h \<le> tp - 4096 * k" "tp - 4096 * k = h + (4096 * n - 4096 * k)" using assms(2,5) by simp_all
  have "canonical (tp - 4096 * k)" "canonical tp"
    using hhdm_canonical [OF assms(1), of "4096 * n - 4096 * k"] hhdm_canonical [OF assms(1), of "4096 * n"]
      assms(2,3) le(2) by simp_all
  moreover have "2 ^ 64 - 2 ^ 47 \<le> tp - 4096 * k" "tp < 2 ^ 64"
    using assms(1,2,3) le(1) by (simp_all add: hhdm_ok_def)
  ultimately show "region_ok Size4KiB (tp - 4096 * k) tp"
    using assms(2,4,5,6) unfolding region_ok_def hull by simp
qed

section \<open>The manager\<close>

locale stack_env = region_env X B M + L: bit_array LB N_LARGE_KERNEL_STACKS +
    S: bit_array SB N_SMALL_KERNEL_STACKS
  for X :: x86_ops and B :: "'b bit_ops" and M :: "('m, 'b) mapper_ops"
    and LB :: "'l bit_ops" and SB :: "'s bit_ops"
begin

lemma stack_region:
  assumes "hhdm_ok h" "wf_of B (allocator ma)" "tp = h + 4096 * n" "4096 * n < 2 ^ 38" "0 < k" "k \<le> n" "k < 8"
  shows "\<exists>r ma'. page_region X B M Size4KiB ma (tp - 4096 * k) tp STACK_FLAGS = Inr (r, ma') \<and>
    wf_of B (allocator ma')"
  using page_region_result [OF assms(2) aligned_region [OF assms(1,3-7)] refl, of STACK_FLAGS] by blast

lemma small_spec:
  assumes "hhdm_ok (HHDM_ADDR V)" "wf_of B (allocator (MAPALL self))"
  shows "if bits SB (kernel_small_stacks self) = {}
    then map_small_stack X B SB M V self = Inr (Inl (), self\<lparr>interrupts := False\<rparr>)
    else \<exists>i self'. i = Min (bits SB (kernel_small_stacks self)) \<and>
      map_small_stack X B SB M V self = Inr (Inr (small_top (HHDM_ADDR V) i), self') \<and>
      bits SB (kernel_small_stacks self') = bits SB (kernel_small_stacks self) - {i} \<and>
      kernel_large_stacks self' = kernel_large_stacks self \<and> interrupts self' \<and>
      wf_of B (allocator (MAPALL self'))"
proof (cases "bits SB (kernel_small_stacks self) = {}")
  case True
  then show ?thesis using S.bit_first_one [of 0] by (simp add: map_small_stack_def)
next
  case False
  let ?h = "HHDM_ADDR V" and ?S = "bits SB (kernel_small_stacks self)"
  define i where "i = Min ?S"
  have i: "i \<in> ?S" unfolding i_def using S.finite_bits False by (rule Min_in)
  then have i32: "i < N_SMALL_KERNEL_STACKS" by (rule S.bits_bound)
  then have b: "i < 32" by (simp add: N_SMALL_KERNEL_STACKS_def N_LARGE_KERNEL_STACKS_def)
  have fo: "bit_first_one SB (kernel_small_stacks self) 0 = Inr (Some i)"
    using S.bit_first_one [of 0] False by (auto simp: i_def)
  obtain small where small: "bit_set SB (kernel_small_stacks self) i False = Inr small" "bits SB small = ?S - {i}"
    using S.set_False [OF i32] by blast
  have c: "canonical (?h + n)" if "n < 2 ^ 30" for n
    using that by (intro hhdm_canonical [OF assms(1)]) simp
  let ?tp = "small_top ?h i"
  have a1: "va_add X ?h FIRST_SMALL_KERNEL_STACK_TOP_OFFSET = Inr (?h + 0x162000)"
    using va_add [of ?h "0x162000"] c [of 0] c [of "0x162000"] by (simp add: layout_defs)
  have a2: "umul (SMALL_KERNEL_STACK_SIZE + PAGE_SIZE) i = Inr (8192 * i)"
    using b by (simp add: layout_defs umul_def)
  have a3: "va_add X (?h + 0x162000) (8192 * i) = Inr ?tp"
    using va_add [of "?h + 0x162000" "8192 * i"] c [of "0x162000"] c [of "0x162000 + 8192 * i"] b
    by (simp add: small_top_eq add.assoc)
  have a4: "va_sub_u64 X ?tp SMALL_KERNEL_STACK_SIZE = Inr (?tp - 4096)"
    using va_sub_u64 [of ?tp 4096] c [of "0x162000 + 8192 * i"] c [of "0x161000 + 8192 * i"] b
    by (simp add: small_top_eq layout_defs ac_simps)
  obtain r ma' where r: "page_region X B M Size4KiB (MAPALL self) (?tp - 4096) ?tp STACK_FLAGS = Inr (r, ma')"
    "wf_of B (allocator ma')"
    using stack_region [OF assms(1,2), of ?tp "354 + 2 * i" 1] b by (auto simp: small_top_eq)
  let ?self' = "self\<lparr>kernel_small_stacks := small, MAPALL := ma', interrupts := True\<rparr>"
  have "map_small_stack X B SB M V self = Inr (Inr ?tp, ?self')"
    by (simp add: map_small_stack_def fo small(1) a1 a2 a3 a4 r(1))
  then show ?thesis using False small(2) r(2) i_def by auto
qed

lemma large_spec:
  assumes "hhdm_ok (HHDM_ADDR V)" "wf_of B (allocator (MAPALL self))"
  shows "if bits LB (kernel_large_stacks self) = {}
    then map_large_stack X B LB M V self = Inr (Inl (), self\<lparr>interrupts := False\<rparr>)
    else \<exists>i self'. i = Min (bits LB (kernel_large_stacks self)) \<and>
      map_large_stack X B LB M V self = Inr (Inr (large_top (HHDM_ADDR V) i), self') \<and>
      bits LB (kernel_large_stacks self') = bits LB (kernel_large_stacks self) - {i} \<and>
      kernel_small_stacks self' = kernel_small_stacks self \<and> interrupts self' \<and>
      wf_of B (allocator (MAPALL self'))"
proof (cases "bits LB (kernel_large_stacks self) = {}")
  case True
  then show ?thesis using L.bit_first_one [of 0] by (simp add: map_large_stack_def)
next
  case False
  let ?h = "HHDM_ADDR V" and ?S = "bits LB (kernel_large_stacks self)"
  define i where "i = Min ?S"
  have i: "i \<in> ?S" unfolding i_def using L.finite_bits False by (rule Min_in)
  then have i16: "i < N_LARGE_KERNEL_STACKS" by (rule L.bits_bound)
  then have b: "i < 16" by (simp add: N_LARGE_KERNEL_STACKS_def)
  have fo: "bit_first_one LB (kernel_large_stacks self) 0 = Inr (Some i)"
    using L.bit_first_one [of 0] False by (auto simp: i_def)
  obtain large where large: "bit_set LB (kernel_large_stacks self) i False = Inr large" "bits LB large = ?S - {i}"
    using L.set_False [OF i16] by blast
  have c: "canonical (?h + n)" if "n < 2 ^ 30" for n
    using that by (intro hhdm_canonical [OF assms(1)]) simp
  let ?tp = "large_top ?h i"
  have a1: "va_add X ?h FIRST_LARGE_KERNEL_STACK_TOP_OFFSET = Inr (?h + 0x106000)"
    using va_add [of ?h "0x106000"] c [of 0] c [of "0x106000"] by (simp add: layout_defs)
  have a2: "umul (LARGE_KERNEL_STACK_SIZE + PAGE_SIZE) i = Inr (24576 * i)"
    using b by (simp add: layout_defs umul_def)
  have a3: "va_add X (?h + 0x106000) (24576 * i) = Inr ?tp"
    using va_add [of "?h + 0x106000" "24576 * i"] c [of "0x106000"] c [of "0x106000 + 24576 * i"] b
    by (simp add: large_top_eq add.assoc)
  have a4: "va_sub_u64 X ?tp LARGE_KERNEL_STACK_SIZE = Inr (?tp - 20480)"
    using va_sub_u64 [of ?tp 20480] c [of "0x106000 + 24576 * i"] c [of "0x101000 + 24576 * i"] b
    by (simp add: large_top_eq layout_defs ac_simps)
  obtain r ma' where r: "page_region X B M Size4KiB (MAPALL self) (?tp - 20480) ?tp STACK_FLAGS = Inr (r, ma')"
    "wf_of B (allocator ma')"
    using stack_region [OF assms(1,2), of ?tp "262 + 6 * i" 5] b by (auto simp: large_top_eq)
  let ?self' = "self\<lparr>kernel_large_stacks := large, MAPALL := ma', interrupts := True\<rparr>"
  have "map_large_stack X B LB M V self = Inr (Inr ?tp, ?self')"
    by (simp add: map_large_stack_def fo large(1) a1 a2 a3 a4 r(1))
  then show ?thesis using False large(2) r(2) i_def by auto
qed

end

text \<open>A sequence of requests, with the kind and the top of every stack handed out, newest first.\<close>

fun make_stacks ::
  "x86_ops \<Rightarrow> 'b bit_ops \<Rightarrow> 'l bit_ops \<Rightarrow> 's bit_ops \<Rightarrow> ('m, 'b) mapper_ops \<Rightarrow> vmem_addrs \<Rightarrow> bool list \<Rightarrow>
   (bool \<times> nat) list \<Rightarrow> ('l, 's, 'm, 'b) stack_state \<Rightarrow>
   ((bool \<times> nat) list \<times> ('l, 's, 'm, 'b) stack_state) res" where
  "make_stacks X B LB SB M V [] out self = Inr (out, self)"
| "make_stacks X B LB SB M V (small # reqs) out self =
     bindR (make_kernel_stack X B LB SB M V small self) (\<lambda>(r, self1).
     make_stacks X B LB SB M V reqs (case r of Inl _ \<Rightarrow> out | Inr tp \<Rightarrow> (small, tp) # out) self1)"

text \<open>
  The invariant: the stacks handed out are the tops of distinct indices whose bit is no longer
  set in the array of their kind.
\<close>

definition stacks_inv :: "'l bit_ops \<Rightarrow> 's bit_ops \<Rightarrow> nat \<Rightarrow> (bool \<times> nat) list \<Rightarrow>
    ('l, 's, 'm, 'b) stack_state \<Rightarrow> bool" where
  "stacks_inv LB SB h out self \<longleftrightarrow>
     (\<exists>ks. distinct ks \<and> out = map (\<lambda>k. (fst k, stack_top_of h k)) ks \<and>
       (\<forall>k\<in>set ks. stack_index_ok k \<and>
          snd k \<notin> (if fst k then bits SB (kernel_small_stacks self) else bits LB (kernel_large_stacks self))))"

lemma stacks_inv_interrupts [simp]:
  "stacks_inv LB SB h out (self\<lparr>interrupts := b\<rparr>) \<longleftrightarrow> stacks_inv LB SB h out self"
  by (simp add: stacks_inv_def)

lemma stacks_inv_push:
  assumes "stacks_inv LB SB h out self" "stack_index_ok k"
    and "snd k \<in> (if fst k then bits SB (kernel_small_stacks self) else bits LB (kernel_large_stacks self))"
    and "bits SB (kernel_small_stacks self') = bits SB (kernel_small_stacks self) - (if fst k then {snd k} else {})"
    and "bits LB (kernel_large_stacks self') = bits LB (kernel_large_stacks self) - (if fst k then {} else {snd k})"
  shows "stacks_inv LB SB h ((fst k, stack_top_of h k) # out) self'"
proof -
  from assms(1) obtain ks where ks: "distinct ks" "out = map (\<lambda>k. (fst k, stack_top_of h k)) ks"
    "\<forall>k\<in>set ks. stack_index_ok k \<and>
       snd k \<notin> (if fst k then bits SB (kernel_small_stacks self) else bits LB (kernel_large_stacks self))"
    by (auto simp: stacks_inv_def)
  have "k \<notin> set ks" using ks(3) assms(3) by auto
  with ks assms(2,4,5) show ?thesis
    unfolding stacks_inv_def by (intro exI [of _ "k # ks"]) auto
qed

context stack_env
begin

lemma make_kernel_stack_step:
  assumes "hhdm_ok (HHDM_ADDR V)" "wf_of B (allocator (MAPALL self))"
    and "stacks_inv LB SB (HHDM_ADDR V) out self"
  shows "\<exists>r self'. make_kernel_stack X B LB SB M V small self = Inr (r, self') \<and>
    wf_of B (allocator (MAPALL self')) \<and>
    stacks_inv LB SB (HHDM_ADDR V) (case r of Inl _ \<Rightarrow> out | Inr tp \<Rightarrow> (small, tp) # out) self' \<and>
    interrupts self' = (\<not> isl r)"
proof (cases small)
  case True
  let ?S = "bits SB (kernel_small_stacks self)"
  show ?thesis
  proof (cases "?S = {}")
    case T: True
    with small_spec [OF assms(1,2)] True assms(2,3) show ?thesis
      by (simp add: make_kernel_stack_def)
  next
    case False
    with small_spec [OF assms(1,2)] obtain self' where s:
      "map_small_stack X B SB M V self = Inr (Inr (small_top (HHDM_ADDR V) (Min ?S)), self')"
      "bits SB (kernel_small_stacks self') = ?S - {Min ?S}"
      "kernel_large_stacks self' = kernel_large_stacks self" "interrupts self'"
      "wf_of B (allocator (MAPALL self'))" by auto
    have m: "Min ?S \<in> ?S" using S.finite_bits False by (rule Min_in)
    have "stacks_inv LB SB (HHDM_ADDR V) ((True, stack_top_of (HHDM_ADDR V) (True, Min ?S)) # out) self'"
      using stacks_inv_push [OF assms(3), of "(True, Min ?S)" self'] m S.bits_bound [OF m] s(2,3)
      by (simp add: stack_index_ok_def)
    with True s show ?thesis by (simp add: make_kernel_stack_def stack_top_of_def)
  qed
next
  case large: False
  let ?S = "bits LB (kernel_large_stacks self)"
  show ?thesis
  proof (cases "?S = {}")
    case True
    with large_spec [OF assms(1,2)] large assms(2,3) show ?thesis
      by (simp add: make_kernel_stack_def)
  next
    case False
    with large_spec [OF assms(1,2)] obtain self' where s:
      "map_large_stack X B LB M V self = Inr (Inr (large_top (HHDM_ADDR V) (Min ?S)), self')"
      "bits LB (kernel_large_stacks self') = ?S - {Min ?S}"
      "kernel_small_stacks self' = kernel_small_stacks self" "interrupts self'"
      "wf_of B (allocator (MAPALL self'))" by auto
    have m: "Min ?S \<in> ?S" using L.finite_bits False by (rule Min_in)
    have "stacks_inv LB SB (HHDM_ADDR V) ((False, stack_top_of (HHDM_ADDR V) (False, Min ?S)) # out) self'"
      using stacks_inv_push [OF assms(3), of "(False, Min ?S)" self'] m L.bits_bound [OF m] s(2,3)
      by (simp add: stack_index_ok_def)
    with large s show ?thesis by (simp add: make_kernel_stack_def stack_top_of_def)
  qed
qed

lemma make_stacks_ok:
  assumes "hhdm_ok (HHDM_ADDR V)" "wf_of B (allocator (MAPALL self))"
    and "stacks_inv LB SB (HHDM_ADDR V) out self"
  shows "\<exists>out' self'. make_stacks X B LB SB M V reqs out self = Inr (out', self') \<and>
    wf_of B (allocator (MAPALL self')) \<and> stacks_inv LB SB (HHDM_ADDR V) out' self'"
  using assms(2,3)
proof (induction reqs arbitrary: out self)
  case (Cons small reqs)
  obtain r self1 where "make_kernel_stack X B LB SB M V small self = Inr (r, self1)"
    "wf_of B (allocator (MAPALL self1))"
    "stacks_inv LB SB (HHDM_ADDR V) (case r of Inl _ \<Rightarrow> out | Inr tp \<Rightarrow> (small, tp) # out) self1"
    using make_kernel_stack_step [OF assms(1) Cons.prems] by blast
  with Cons.IH show ?case by simp
qed simp

end

lemma stack_bytes_space:
  assumes "stack_index_ok k"
  shows "stack_bytes (fst k) (stack_top_of h k) \<subseteq>
    {h + KERNEL_STACK_SPACE_BOTTOM_OFFSET..<h + KERNEL_STACK_SPACE_TOP_OFFSET}"
  using assms unfolding stack_space
  by (cases k; cases "fst k")
    (auto simp: stack_index_ok_def stack_top_of_def stack_bytes_eq small_top_eq large_top_eq
      N_SMALL_KERNEL_STACKS_def N_LARGE_KERNEL_STACKS_def)

lemma guard_pages_eq:
  "guard_pages h = map (\<lambda>i. h + 0x100000 + 24576 * i) [0..<16] @ map (\<lambda>i. h + 0x160000 + 8192 * i) [0..<33]"
  unfolding guard_pages_def by (simp add: layout_defs algebra_simps del: upt_Suc)

lemma stack_bytes_guards:
  assumes "stack_index_ok k" "g \<in> set (guard_pages h)"
  shows "stack_bytes (fst k) (stack_top_of h k) \<inter> {g..<g + PAGE_SIZE} = {}"
proof -
  have sep: "{a - n..<a} \<inter> {b..<b + m} = {}" if "a \<le> b \<or> b + m \<le> a - n" for a b n m :: nat
    using that by auto
  obtain s i where k: "k = (s, i)" by (cases k)
  from assms(2) consider (large) l where "l < 16" "g = h + 0x100000 + 24576 * l"
    | (small) l where "l < 33" "g = h + 0x160000 + 8192 * l"
    unfolding guard_pages_eq by (auto simp del: upt_Suc)
  then have "if s then (h + 0x162000 + 8192 * i \<le> g \<or> g + 4096 \<le> h + 0x162000 + 8192 * i - 4096)
      else (h + 0x106000 + 24576 * i \<le> g \<or> g + 4096 \<le> h + 0x106000 + 24576 * i - 20480)"
    using assms(1) unfolding k
    by cases (auto simp: stack_index_ok_def N_SMALL_KERNEL_STACKS_def N_LARGE_KERNEL_STACKS_def)
  then show ?thesis
    unfolding k
    by (cases s) (auto simp: stack_top_of_def stack_bytes_eq small_top_eq large_top_eq PAGE_SIZE_def intro!: sep)
qed

lemma stack_envI:
  "x86_64 X \<Longrightarrow> bit_array B TOTAL_BUDDY_BITS \<Longrightarrow> page_mapper B M \<Longrightarrow>
   bit_array LB N_LARGE_KERNEL_STACKS \<Longrightarrow> bit_array SB N_SMALL_KERNEL_STACKS \<Longrightarrow> stack_env X B M LB SB"
  by (intro stack_env.intro region_envI)

interpretation dstack: stack_env x86_doc bitset "doc_mapper x86_doc bitset"
    "bitset_ops N_LARGE_KERNEL_STACKS" "bitset_ops N_SMALL_KERNEL_STACKS"
  by (intro stack_envI x86d.x86_64_axioms bset.bit_array_axioms docm.page_mapper_axioms)

text \<open>
  C12. Stacks are never shared. Whatever sequence of large and small stacks is requested, the
  manager does not panic, and the stacks it hands out lie in the kernel stack space, overlap
  neither each other nor any of the guard pages.
\<close>

theorem make_stacks_disjoint:
  assumes "x86_64 X" "bit_array B TOTAL_BUDDY_BITS" "page_mapper B M"
    and "bit_array LB N_LARGE_KERNEL_STACKS" "bit_array SB N_SMALL_KERNEL_STACKS"
    and h: "hhdm_ok h" "HHDM_ADDR V = h" and wf: "wf_of B (allocator (MAPALL self))"
  shows "\<exists>out self'. make_stacks X B LB SB M V reqs [] self = Inr (out, self') \<and>
    (\<forall>i<length out. \<forall>j<i.
       stack_bytes (fst (out ! i)) (snd (out ! i)) \<inter> stack_bytes (fst (out ! j)) (snd (out ! j)) = {}) \<and>
    (\<forall>(small, tp)\<in>set out.
       stack_bytes small tp \<subseteq> {h + KERNEL_STACK_SPACE_BOTTOM_OFFSET..<h + KERNEL_STACK_SPACE_TOP_OFFSET} \<and>
       (\<forall>g\<in>set (guard_pages h). stack_bytes small tp \<inter> {g..<g + PAGE_SIZE} = {}))"
proof -
  have "stacks_inv LB SB (HHDM_ADDR V) [] self" by (simp add: stacks_inv_def)
  then obtain out self' where r: "make_stacks X B LB SB M V reqs [] self = Inr (out, self')"
    and inv: "stacks_inv LB SB h out self'"
    using stack_env.make_stacks_ok [OF stack_envI [OF assms(1-5)] _ wf] h by blast
  from inv obtain ks where ks: "distinct ks" "out = map (\<lambda>k. (fst k, stack_top_of h k)) ks"
    "\<forall>k\<in>set ks. stack_index_ok k" by (auto simp: stacks_inv_def)
  have "stack_bytes (fst (out ! i)) (snd (out ! i)) \<inter> stack_bytes (fst (out ! j)) (snd (out ! j)) = {}"
    if "i < length out" "j < i" for i j
    using that ks stack_bytes_disjoint [of "ks ! i" "ks ! j" h] by (simp add: nth_eq_iff_index_eq)
  moreover have "stack_bytes small tp \<subseteq>
      {h + KERNEL_STACK_SPACE_BOTTOM_OFFSET..<h + KERNEL_STACK_SPACE_TOP_OFFSET} \<and>
      (\<forall>g\<in>set (guard_pages h). stack_bytes small tp \<inter> {g..<g + PAGE_SIZE} = {})"
    if "(small, tp) \<in> set out" for small tp
  proof -
    from that ks obtain k where "stack_index_ok k" "small = fst k" "tp = stack_top_of h k" by auto
    then show ?thesis using stack_bytes_space stack_bytes_guards by simp
  qed
  ultimately show ?thesis using r by blast
qed

text \<open>A manager with every stack free, frames 0 to 7 free and nothing mapped.\<close>

definition sample_stacks :: "(nat set, nat set, doc_tables, nat set) stack_state" where
  "sample_stacks = \<lparr>kernel_large_stacks = {0..<16}, kernel_small_stacks = {0..<32},
     MAPALL = \<lparr>mapper = no_pages, allocator = eight_free\<rparr>, interrupts = True\<rparr>"

definition sample_vmem :: vmem_addrs where
  "sample_vmem = \<lparr>HHDM_ADDR = 0xffff800000000000, HHDM_TOP_ADDR = 0xffff802000000000, RSDP_ADDR = 0xe0000\<rparr>"

lemma sample_hhdm: "hhdm_ok (HHDM_ADDR sample_vmem)" "HHDM_ADDR sample_vmem = 0xffff800000000000"
  "hhdm_ok 0xffff800000000000"
  by (simp_all add: sample_vmem_def hhdm_ok_def)

lemma sample_stacks_wf: "wf_of bitset (allocator (MAPALL sample_stacks))"
  using eight_free_facts(2) by (simp add: sample_stacks_def)

theorem make_stacks_disjoint_witness:
  "\<exists>out self'. make_stacks x86_doc bitset (bitset_ops N_LARGE_KERNEL_STACKS)
      (bitset_ops N_SMALL_KERNEL_STACKS) (doc_mapper x86_doc bitset) sample_vmem
      [True, False, True] [] sample_stacks = Inr (out, self') \<and>
    (\<forall>i<length out. \<forall>j<i.
       stack_bytes (fst (out ! i)) (snd (out ! i)) \<inter> stack_bytes (fst (out ! j)) (snd (out ! j)) = {})"
  using make_stacks_disjoint [OF x86d.x86_64_axioms bset.bit_array_axioms docm.page_mapper_axioms
      bset.bit_array_axioms bset.bit_array_axioms sample_hhdm(3,2) sample_stacks_wf, of "[True, False, True]"]
  by blast

text \<open>
  When all stacks of the kind that is asked for are taken, the request fails without
  touching anything else, but it returns with interrupts disabled, whatever they were before.
\<close>

theorem make_kernel_stack_exhausted:
  assumes "bit_array LB N_LARGE_KERNEL_STACKS" "bit_array SB N_SMALL_KERNEL_STACKS"
    and "if small then bits SB (kernel_small_stacks self) = {} else bits LB (kernel_large_stacks self) = {}"
  shows "make_kernel_stack X B LB SB M V small self = Inr (Inl (), self\<lparr>interrupts := False\<rparr>)"
  using assms bit_array.bit_first_one [OF assms(1), of 0] bit_array.bit_first_one [OF assms(2), of 0]
  by (cases small) (simp_all add: make_kernel_stack_def map_small_stack_def map_large_stack_def)

theorem make_kernel_stack_exhausted_witness:
  "make_kernel_stack x86_doc bitset (bitset_ops N_LARGE_KERNEL_STACKS)
      (bitset_ops N_SMALL_KERNEL_STACKS) (doc_mapper x86_doc bitset) sample_vmem True
      (sample_stacks\<lparr>kernel_small_stacks := {}\<rparr>) =
    Inr (Inl (), sample_stacks\<lparr>kernel_small_stacks := {}, interrupts := False\<rparr>)"
  using make_kernel_stack_exhausted [OF bset.bit_array_axioms bset.bit_array_axioms,
      where small = True and self = "sample_stacks\<lparr>kernel_small_stacks := {}\<rparr>"]
  by (simp add: bits_bitset)



section \<open>The scheduler's stack and the guard pages\<close>

context region_env
begin

lemma map_to_total_call:
  assumes "wf_of B (allocator ma)"
  shows "\<exists>r ma'. map_to M ma p f flags = Inr (r, ma') \<and> wf_of B (allocator ma') \<and>
    (\<forall>q. q \<noteq> p \<longrightarrow> page_of M (mapper ma') q = page_of M (mapper ma) q) \<and>
    (r = Inr () \<longrightarrow> page_of M (mapper ma') p = Some (f, flags))"
proof -
  obtain r m' al' where "map_to_op M Size4KiB p f flags (mapper ma) (allocator ma) = Inr (r, m', al')"
    "wf_of B al'" "free_of B al' \<subseteq> free_of B (allocator ma)"
    "\<forall>q. q \<noteq> p \<longrightarrow> page_of M m' q = page_of M (mapper ma) q"
    "page_of M m' p = page_of M (mapper ma) p \<or> page_of M m' p = Some (f, flags)"
    "r = Inr () \<longrightarrow> page_of M m' p = Some (f, flags)"
    by (rule map_to_effect [OF assms, of Size4KiB p f flags "mapper ma"])
  then show ?thesis by (auto simp: map_to_def)
qed

lemma scheduler_stack_run:
  assumes h: "hhdm_ok h" "HHDM_TOP_ADDR V = h + MAX_PHYS_MAP" and wf: "wf_of B (allocator ma)"
  shows "if has_chunk (bits B (buddy_bytes (allocator ma))) 2
    then \<exists>ma1 ma'. make_scheduler_stack X B M V ma = Inr ma' \<and>
      page_region X B M Size4KiB ma (HHDM_TOP_ADDR V + 0x11000) (HHDM_TOP_ADDR V + SCHEDULER_SP_OFFSET)
        STACK_FLAGS = Inr (Inr (), ma1) \<and> wf_of B (allocator ma') \<and>
      (\<forall>q. HHDM_TOP_ADDR V + 0x11000 \<le> q \<and> q < HHDM_TOP_ADDR V + SCHEDULER_SP_OFFSET \<longrightarrow>
         page_of M (mapper ma') q = page_of M (mapper ma1) q)
    else make_scheduler_stack X B M V ma = Inl UnwrapFailed"
proof -
  let ?t = "HHDM_TOP_ADDR V"
  have off: "SCHEDULER_SP_OFFSET = 0x15000" "SCHEDULER_STACK_BOTTOM_OFFSET = 0x10000"
    "SCHEDULER_STACK_TOP_OFFSET = 0x16000" "PAGE_SIZE = 4096" by (simp_all add: layout_defs)
  have c: "canonical (?t + n)" if "n < 2 ^ 20" for n
    using that hhdm_canonical [OF h(1), of "MAX_PHYS_MAP + n"] h(2) by (simp add: MAX_PHYS_MAP_def add.assoc)
  have adds: "va_add X ?t 0x10000 = Inr (?t + 0x10000)" "va_add X ?t 0x16000 = Inr (?t + 0x16000)"
    "va_add X (?t + 0x10000) 4096 = Inr (?t + 0x11000)"
    "va_sub_u64 X (?t + 0x16000) 4096 = Inr (?t + 0x15000)"
    "page_sub X 4096 (?t + 0x16000) 1 = Inr (?t + 0x15000)"
    using va_add [of ?t "0x10000"] va_add [of ?t "0x16000"] va_add [of "?t + 0x10000" 4096]
      va_sub_u64 [of "?t + 0x16000" 4096] page_sub [of "?t + 0x16000" 1 4096]
      c [of 0] c [of "0x10000"] c [of "0x11000"] c [of "0x15000"] c [of "0x16000"]
    by (simp_all add: add.commute [of ?t])
  let ?e = "?t + 0x15000"
  have e: "?e = h + 4096 * 33554453" "?e - 4096 * 4 = ?t + 0x11000"
    using h(2) by (simp_all add: MAX_PHYS_MAP_def)
  note ok = aligned_region [OF h(1) e(1), of 4, unfolded e(2)]
  have n: "4 = (?e - (?t + 0x11000)) div PAGE_SIZE" by (simp add: PAGE_SIZE_def)
  obtain t r ma1 where r: "page_region X B M Size4KiB ma (?t + 0x11000) ?e STACK_FLAGS = Inr (r, ma1)"
    "wf_of B (allocator ma1)" "(4::nat) \<le> 2 ^ t" "2 ^ t < 2 * (4::nat)"
    "r = Inr () \<longleftrightarrow> has_chunk (bits B (buddy_bytes (allocator ma))) t"
    using page_region_result [OF wf ok n, of STACK_FLAGS] by auto
  have "(2::nat) ^ 2 \<le> 2 ^ t" "2 ^ t < (2::nat) ^ 3" using r(3,4) by simp_all
  then have "2 \<le> t" "t < 3" by (simp_all only: power_increasing_iff power_strict_increasing_iff)
  then have "t = 2" by simp
  with r(5) have chunk: "r = Inr () \<longleftrightarrow> has_chunk (bits B (buddy_bytes (allocator ma))) 2" by simp
  obtain r2 ma2 where m2: "map_to M ma1 (?t + 0x10000) 0 PAGE_FLAG_GUARD = Inr (r2, ma2)"
    "wf_of B (allocator ma2)" "\<forall>q. q \<noteq> ?t + 0x10000 \<longrightarrow> page_of M (mapper ma2) q = page_of M (mapper ma1) q"
    using map_to_total_call [OF r(2)] by blast
  obtain r3 ma3 where m3: "map_to M ma2 ?e 0 PAGE_FLAG_GUARD = Inr (r3, ma3)"
    "wf_of B (allocator ma3)" "\<forall>q. q \<noteq> ?e \<longrightarrow> page_of M (mapper ma3) q = page_of M (mapper ma2) q"
    using map_to_total_call [OF m2(2)] by blast
  have "make_scheduler_stack X B M V ma = (case r of Inl _ \<Rightarrow> Inl UnwrapFailed | Inr _ \<Rightarrow> Inr ma3)"
    by (simp add: make_scheduler_stack_def off adds adds(5) [simplified] r(1) m2(1) m3(1) split: sum.split)
  then show ?thesis
    using chunk r(1) m3 m2(3) unfolding off(1) by (cases r) auto
qed

end

text \<open>
  The scheduler's stack is made exactly when a chunk of four frames is free, and panics
  otherwise. The four pages that are mapped end at the stack pointer the scheduler starts
  with, and the two guard pages, directly below and above, leave their mappings alone.
\<close>

theorem make_scheduler_stack_correct:
  assumes "x86_64 X" "bit_array B TOTAL_BUDDY_BITS" "page_mapper B M"
    and "hhdm_ok h" "HHDM_TOP_ADDR V = h + MAX_PHYS_MAP" "wf_of B (allocator ma)"
  shows "if has_chunk (bits B (buddy_bytes (allocator ma))) 2
    then \<exists>ma1 ma'. make_scheduler_stack X B M V ma = Inr ma' \<and>
      page_region X B M Size4KiB ma (HHDM_TOP_ADDR V + 0x11000) (HHDM_TOP_ADDR V + SCHEDULER_SP_OFFSET)
        STACK_FLAGS = Inr (Inr (), ma1) \<and> wf_of B (allocator ma') \<and>
      (\<forall>q. HHDM_TOP_ADDR V + 0x11000 \<le> q \<and> q < HHDM_TOP_ADDR V + SCHEDULER_SP_OFFSET \<longrightarrow>
         page_of M (mapper ma') q = page_of M (mapper ma1) q)
    else make_scheduler_stack X B M V ma = Inl UnwrapFailed"
  using region_env.scheduler_stack_run [OF region_envI [OF assms(1-3)] assms(4-6)] .

theorem make_scheduler_stack_correct_witness:
  "\<exists>ma'. make_scheduler_stack x86_doc bitset (doc_mapper x86_doc bitset) sample_vmem
    \<lparr>mapper = no_pages, allocator = eight_free\<rparr> = Inr ma'"
proof -
  have t: "HHDM_TOP_ADDR sample_vmem = 0xffff800000000000 + MAX_PHYS_MAP"
    by (simp add: sample_vmem_def MAX_PHYS_MAP_def)
  show ?thesis
    using make_scheduler_stack_correct [OF x86d.x86_64_axioms bset.bit_array_axioms docm.page_mapper_axioms
        sample_hhdm(3) t, of "\<lparr>mapper = no_pages, allocator = eight_free\<rparr>"]
      eight_free_facts(2) eight_free_chunk [of 2] by auto
qed

end
