(* ===== verification/Asm.thy ===== *)
theory Asm
  imports Prelude
begin

text \<open>
  The machine on which the assembly fragments of the kernel run: the general purpose
  registers, the instruction pointer, the two segment selectors an interrupt frame holds, the
  flags register and a memory of quadwords. Every fragment of the kernel pushes, pops, loads
  and stores quadwords at addresses that are congruent modulo 8, so a store changes one cell.

  \<open>exec\<close> runs a fragment; its jumps are to local labels further down, so it terminates. A
  fragment ends by falling off its end or by a transfer of control (\<^verbatim>\<open>iretq\<close>, \<^verbatim>\<open>call\<close>, \<^verbatim>\<open>jmp\<close>)
  to the address left in \<open>rip\<close>. \<open>interrupt\<close> is what the processor does when it accepts an
  interrupt in ring 0.
\<close>

datatype reg = RAX | RBX | RCX | RDX | RSI | RDI | RBP | RSP
  | R8 | R9 | R10 | R11 | R12 | R13 | R14 | R15

record machine =
  gpr :: "reg \<Rightarrow> u64"
  rip :: u64
  cs :: u64
  ss :: u64
  rflags :: u64
  mem :: "u64 \<Rightarrow> u64"

datatype instr =
    Push reg
  | PushI u64
  | PushM reg u64
  | Pop reg
  | Pushfq
  | Popfq
  | Cli
  | Sti
  | Mov reg reg
  | MovI reg u64
  | Load reg u64
  | LoadOff reg reg u64
  | Store u64 reg
  | Lea reg u64
  | AddI reg u64
  | AddR reg reg
  | AndB u64 u8
  | Cmp reg reg
  | Btr reg u64 nat
  | Je nat
  | Jnc nat
  | Label nat
  | Iretq
  | Call u64
  | Jmp u64

section \<open>Flags\<close>

definition put_bit :: "nat \<Rightarrow> bool \<Rightarrow> u64 \<Rightarrow> u64" where
  "put_bit i b w = (if b then Bit_Operations.set_bit i w else unset_bit i w)"

abbreviation (input) CF :: nat where "CF \<equiv> 0"
abbreviation (input) PF :: nat where "PF \<equiv> 2"
abbreviation (input) AF :: nat where "AF \<equiv> 4"
abbreviation (input) ZF :: nat where "ZF \<equiv> 6"
abbreviation (input) SF :: nat where "SF \<equiv> 7"
abbreviation (input) IF :: nat where "IF \<equiv> 9"
abbreviation (input) OVF :: nat where "OVF \<equiv> 11"

definition result_flags :: "u64 \<Rightarrow> u64 \<Rightarrow> u64" where
  "result_flags r fl =
     put_bit ZF (r = 0) (put_bit SF (bit r 63)
       (put_bit PF (even (length (filter (bit r) [0..<8]))) fl))"

definition add_flags :: "u64 \<Rightarrow> u64 \<Rightarrow> u64 \<Rightarrow> u64" where
  "add_flags a b fl =
     (let r = a + b in
      put_bit CF (r < a) (put_bit AF (bit (a XOR b XOR r) 4)
        (put_bit OVF (bit ((a XOR r) AND (b XOR r)) 63) (result_flags r fl))))"

definition cmp_flags :: "u64 \<Rightarrow> u64 \<Rightarrow> u64 \<Rightarrow> u64" where
  "cmp_flags a b fl =
     (let r = a - b in
      put_bit CF (a < b) (put_bit AF (bit (a XOR b XOR r) 4)
        (put_bit OVF (bit ((a XOR b) AND (a XOR r)) 63) (result_flags r fl))))"

text \<open>A byte operand is the low byte of its cell.\<close>

definition and_byte :: "u8 \<Rightarrow> u64 \<Rightarrow> u64" where
  "and_byte v w = (w AND NOT 0xff) OR (w AND ucast v)"

definition and_flags :: "u8 \<Rightarrow> u64 \<Rightarrow> u64" where
  "and_flags r fl =
     put_bit CF False (put_bit OVF False (put_bit ZF (r = 0) (put_bit SF (bit r 7)
       (put_bit PF (even (length (filter (bit r) [0..<8]))) fl))))"

lemma bit_put_bit [simp]: "i < 64 \<Longrightarrow> bit (put_bit i b w) j = (if i = j then b else bit w j)"
  by (auto simp: put_bit_def bit_set_bit_iff bit_unset_bit_iff)

lemma bit_cmp_flags [simp]:
  "bit (cmp_flags a b fl) ZF \<longleftrightarrow> a = b" "bit (cmp_flags a b fl) IF \<longleftrightarrow> bit fl IF"
  by (simp_all add: cmp_flags_def result_flags_def Let_def)

lemma bit_add_flags [simp]: "bit (add_flags a b fl) IF \<longleftrightarrow> bit fl IF"
  by (simp add: add_flags_def result_flags_def Let_def)

section \<open>Execution\<close>

definition push :: "u64 \<Rightarrow> machine \<Rightarrow> machine" where
  "push v m = m\<lparr>gpr := (gpr m)(RSP := gpr m RSP - 8), mem := (mem m)(gpr m RSP - 8 := v)\<rparr>"

definition set_reg :: "reg \<Rightarrow> u64 \<Rightarrow> machine \<Rightarrow> machine" where
  "set_reg r v m = m\<lparr>gpr := (gpr m)(r := v)\<rparr>"

definition stack_top :: "machine \<Rightarrow> u64" where
  "stack_top m = mem m (gpr m RSP)"

definition pop :: "machine \<Rightarrow> machine" where
  "pop m = m\<lparr>gpr := (gpr m)(RSP := gpr m RSP + 8)\<rparr>"

text \<open>\<^verbatim>\<open>iretq\<close> takes five quadwords: the instruction pointer, cs, the flags, rsp and ss.\<close>

definition iretq :: "machine \<Rightarrow> machine" where
  "iretq m = (let sp = gpr m RSP in
     m\<lparr>rip := mem m sp, cs := mem m (sp + 8), rflags := mem m (sp + 16),
       gpr := (gpr m)(RSP := mem m (sp + 24)), ss := mem m (sp + 32)\<rparr>)"

fun effect :: "instr \<Rightarrow> machine \<Rightarrow> machine" where
  "effect (Push r) m = push (gpr m r) m"
| "effect (PushI v) m = push v m"
| "effect (PushM r off) m = push (mem m (gpr m r + off)) m"
| "effect (Pop r) m = set_reg r (stack_top m) (pop m)"
| "effect Pushfq m = push (rflags m) m"
| "effect Popfq m = (pop m)\<lparr>rflags := stack_top m\<rparr>"
| "effect Cli m = m\<lparr>rflags := put_bit IF False (rflags m)\<rparr>"
| "effect Sti m = m\<lparr>rflags := put_bit IF True (rflags m)\<rparr>"
| "effect (Mov d s) m = set_reg d (gpr m s) m"
| "effect (MovI d v) m = set_reg d v m"
| "effect (Load d a) m = set_reg d (mem m a) m"
| "effect (LoadOff d b off) m = set_reg d (mem m (gpr m b + off)) m"
| "effect (Store a s) m = m\<lparr>mem := (mem m)(a := gpr m s)\<rparr>"
| "effect (Lea d a) m = set_reg d a m"
| "effect (AddI d v) m =
     (set_reg d (gpr m d + v) m)\<lparr>rflags := add_flags (gpr m d) v (rflags m)\<rparr>"
| "effect (AddR d s) m =
     (set_reg d (gpr m d + gpr m s) m)\<lparr>rflags := add_flags (gpr m d) (gpr m s) (rflags m)\<rparr>"
| "effect (AndB a v) m =
     m\<lparr>mem := (mem m)(a := and_byte v (mem m a)), rflags := and_flags (ucast (mem m a) AND v) (rflags m)\<rparr>"
| "effect (Cmp a b) m = m\<lparr>rflags := cmp_flags (gpr m a) (gpr m b) (rflags m)\<rparr>"
| "effect (Btr b off i) m =
     (let a = gpr m b + off in
      m\<lparr>rflags := put_bit CF (bit (mem m a) i) (rflags m), mem := (mem m)(a := put_bit i False (mem m a))\<rparr>)"
| "effect (Je l) m = m"
| "effect (Jnc l) m = m"
| "effect (Label l) m = m"
| "effect Iretq m = iretq m"
| "effect (Call a) m = (push (rip m) m)\<lparr>rip := a\<rparr>"
| "effect (Jmp a) m = m\<lparr>rip := a\<rparr>"

datatype outcome = FellThrough machine | Transferred machine

fun drop_to :: "nat \<Rightarrow> instr list \<Rightarrow> instr list" where
  "drop_to l [] = []"
| "drop_to l (i # is) = (if i = Label l then is else drop_to l is)"

lemma length_drop_to [simp]: "length (drop_to l is) \<le> length is"
  by (induction "is") (auto intro: le_SucI)

fun leaves :: "instr \<Rightarrow> bool" where
  "leaves Iretq = True"
| "leaves (Call a) = True"
| "leaves (Jmp a) = True"
| "leaves _ = False"

function exec :: "instr list \<Rightarrow> machine \<Rightarrow> outcome" where
  "exec [] m = FellThrough m"
| "exec (i # is) m =
     (case i of
        Je l \<Rightarrow> exec (if bit (rflags m) ZF then drop_to l is else is) m
      | Jnc l \<Rightarrow> exec (if bit (rflags m) CF then is else drop_to l is) m
      | _ \<Rightarrow> if leaves i then Transferred (effect i m) else exec is (effect i m))"
  by pat_completeness auto
termination
  by (relation "measure (\<lambda>(is, m). length is)") (auto simp: less_Suc_eq_le)

text \<open>
  Accepting an interrupt: the stack pointer is aligned to 16 bytes, the interrupt frame is
  pushed, and an interrupt gate, but not a trap gate, clears the interrupt flag.
\<close>

definition interrupt :: "bool \<Rightarrow> u64 \<Rightarrow> machine \<Rightarrow> machine" where
  "interrupt trap handler m =
     (let m0 = set_reg RSP (gpr m RSP AND NOT 15) m;
          m1 = push (rip m) (push (cs m) (push (rflags m) (push (gpr m RSP) (push (ss m) m0))))
      in m1\<lparr>rip := handler, cs := 8, rflags := (if trap then rflags m else put_bit IF False (rflags m))\<rparr>)"

section \<open>Frames on the stack\<close>

text \<open>The quadwords from an address upwards.\<close>

definition frame_at :: "u64 \<Rightarrow> u64 list \<Rightarrow> (u64 \<Rightarrow> u64) \<Rightarrow> bool" where
  "frame_at a vs M \<longleftrightarrow> (\<forall>i<length vs. M (a + 8 * of_nat i) = vs ! i)"

definition window :: "u64 \<Rightarrow> nat \<Rightarrow> u64 set" where
  "window a n = (\<lambda>i. a + 8 * of_nat i) ` {..<n}"

primrec pushes :: "u64 list \<Rightarrow> machine \<Rightarrow> machine" where
  "pushes [] m = m"
| "pushes (v # vs) m = pushes vs (push v m)"

lemma pushes_append [simp]: "pushes (vs @ ws) m = pushes ws (pushes vs m)"
  by (induction vs arbitrary: m) auto

lemma push_sel [simp]:
  "rip (push v m) = rip m" "cs (push v m) = cs m" "ss (push v m) = ss m"
  "rflags (push v m) = rflags m" "gpr (push v m) RSP = gpr m RSP - 8"
  "r \<noteq> RSP \<Longrightarrow> gpr (push v m) r = gpr m r" "mem (push v m) = (mem m)(gpr m RSP - 8 := v)"
  by (simp_all add: push_def)

lemma set_reg_sel [simp]:
  "rip (set_reg r v m) = rip m" "cs (set_reg r v m) = cs m" "ss (set_reg r v m) = ss m"
  "rflags (set_reg r v m) = rflags m" "gpr (set_reg r v m) = (gpr m)(r := v)"
  "mem (set_reg r v m) = mem m"
  by (simp_all add: set_reg_def)

lemma pop_sel [simp]:
  "rip (pop m) = rip m" "cs (pop m) = cs m" "ss (pop m) = ss m"
  "rflags (pop m) = rflags m" "gpr (pop m) = (gpr m)(RSP := gpr m RSP + 8)" "mem (pop m) = mem m"
  by (simp_all add: pop_def)

lemma pushes_sel [simp]:
  "rip (pushes vs m) = rip m" "cs (pushes vs m) = cs m" "ss (pushes vs m) = ss m"
  "rflags (pushes vs m) = rflags m" "gpr (pushes vs m) RSP = gpr m RSP - 8 * of_nat (length vs)"
  "r \<noteq> RSP \<Longrightarrow> gpr (pushes vs m) r = gpr m r"
  by (induction vs arbitrary: m) (simp_all add: algebra_simps)

lemma of_nat_8_inj:
  assumes "i < 2 ^ 60" "j < 2 ^ 60"
  shows "(8 * of_nat i :: u64) = 8 * of_nat j \<longleftrightarrow> i = j"
proof -
  have u: "unat (8 * of_nat k :: u64) = 8 * k" if "k < 2 ^ 60" for k
  proof -
    have "(8 * of_nat k :: u64) = of_nat (8 * k)" by simp
    moreover have "unat (of_nat (8 * k) :: u64) = 8 * k"
      using that by (simp add: unsigned_of_nat take_bit_nat_eq_self del: of_nat_mult)
    ultimately show ?thesis by simp
  qed
  show ?thesis using u [OF assms(1)] u [OF assms(2)] by (metis mult_left_cancel zero_neq_numeral)
qed

lemma window_Suc: "window a (Suc n) = insert a (window (a + 8) n)"
proof -
  have "(\<lambda>i. a + 8 * of_nat i) ` Suc ` {..<n} = (\<lambda>i. a + 8 + 8 * of_nat i) ` {..<n}"
    by (simp add: image_image algebra_simps)
  then show ?thesis by (simp add: window_def lessThan_Suc_eq_insert_0)
qed

lemma window_0 [simp]: "window a 0 = {}"
  by (simp add: window_def)

lemma window_mono: "n \<le> k \<Longrightarrow> window a n \<subseteq> window a k"
  by (auto simp: window_def)

lemma above_window: "n < 2 ^ 60 \<Longrightarrow> a \<notin> window (a - 8 * of_nat n) n"
proof
  assume n: "n < 2 ^ 60" and "a \<in> window (a - 8 * of_nat n) n"
  then obtain i where i: "i < n" "a = a - 8 * of_nat n + 8 * of_nat i" by (auto simp: window_def)
  from i(2) have "(8 * of_nat n :: u64) = 8 * of_nat i" by (simp add: algebra_simps)
  then have "n = i" using of_nat_8_inj [of n i] n i(1) by simp
  with i(1) show False by simp
qed

lemma frame_at_Nil [simp]: "frame_at a [] M"
  by (simp add: frame_at_def)

lemma frame_at_Cons: "frame_at a (v # vs) M \<longleftrightarrow> M a = v \<and> frame_at (a + 8) vs M"
  by (simp add: frame_at_def All_less_Suc2 algebra_simps)

lemma frame_at_append:
  "frame_at a (vs @ ws) M \<longleftrightarrow> frame_at a vs M \<and> frame_at (a + 8 * of_nat (length vs)) ws M"
  by (induction vs arbitrary: a) (auto simp: frame_at_Cons algebra_simps)

lemma frame_at_cong:
  "(\<And>b. b \<in> window a (length vs) \<Longrightarrow> M b = N b) \<Longrightarrow> frame_at a vs M \<longleftrightarrow> frame_at a vs N"
  by (auto simp: frame_at_def window_def)

lemma frame_at_upd [simp]:
  "b \<notin> window a (length vs) \<Longrightarrow> frame_at a vs (M(b := v)) \<longleftrightarrow> frame_at a vs M"
  by (rule frame_at_cong) auto

lemma pushes_mem:
  "b \<notin> window (gpr m RSP - 8 * of_nat (length vs)) (length vs) \<Longrightarrow> mem (pushes vs m) b = mem m b"
proof (induction vs arbitrary: m)
  case (Cons v vs)
  let ?a = "gpr m RSP - 8 - 8 * of_nat (length vs)"
  have w: "window (gpr m RSP - 8 * of_nat (length (v # vs))) (length (v # vs)) =
      window ?a (Suc (length vs))" by (simp add: algebra_simps)
  have "?a + 8 * of_nat (length vs) \<in> window ?a (Suc (length vs))" by (auto simp: window_def)
  then have "gpr m RSP - 8 \<in> window ?a (Suc (length vs))" by simp
  moreover have "window ?a (length vs) \<subseteq> window ?a (Suc (length vs))" by (rule window_mono) simp
  ultimately have "b \<noteq> gpr m RSP - 8" "b \<notin> window ?a (length vs)"
    using Cons.prems unfolding w by auto
  then show ?case using Cons.IH [of "push v m"] by simp
qed simp

text \<open>What a sequence of pushes leaves in memory: the values, the last one at the top.\<close>

lemma pushes_frame:
  "length vs < 2 ^ 60 \<Longrightarrow>
   frame_at (gpr m RSP - 8 * of_nat (length vs)) (rev vs) (mem (pushes vs m))"
proof (induction vs arbitrary: m)
  case (Cons v vs)
  let ?a = "gpr m RSP - 8 - 8 * of_nat (length vs)"
  have n: "length vs < 2 ^ 60" using Cons.prems by simp
  have a: "gpr m RSP - 8 * of_nat (length (v # vs)) = ?a" by (simp add: algebra_simps)
  have "mem (pushes vs (push v m)) (gpr m RSP - 8) = v"
    using pushes_mem [of "gpr m RSP - 8" "push v m" vs] above_window [OF n, of "gpr m RSP - 8"] by simp
  then show ?case
    using Cons.IH [OF n, of "push v m"] unfolding a
    by (simp add: frame_at_append frame_at_Cons)
qed simp

section \<open>Running sequences of pushes and pops\<close>

definition loads :: "reg list \<Rightarrow> u64 list \<Rightarrow> (reg \<Rightarrow> u64) \<Rightarrow> reg \<Rightarrow> u64" where
  "loads rs vs g r = (case map_of (zip rs vs) r of None \<Rightarrow> g r | Some v \<Rightarrow> v)"

lemma loads_not_in: "r \<notin> set rs \<Longrightarrow> length vs = length rs \<Longrightarrow> loads rs vs g r = g r"
  by (auto simp: loads_def split: option.splits dest: map_of_SomeD set_zip_leftD)

lemma loads_Cons: "loads (r # rs) (v # vs) g q = (if q = r then v else loads rs vs g q)"
  by (simp add: loads_def)

lemma loads_upd_other: "q \<noteq> p \<Longrightarrow> loads rs vs (g(p := w)) q = loads rs vs g q"
  by (simp add: loads_def split: option.split)

lemma loads_upd:
  "length vs = length rs \<Longrightarrow> q \<noteq> p \<or> p \<notin> set rs \<Longrightarrow>
   loads rs vs (g(p := w)) q = (if q = p then w else loads rs vs g q)"
  by (auto simp: loads_upd_other loads_not_in)

lemma exec_pushes:
  "RSP \<notin> set rs \<Longrightarrow> exec (map Push rs @ is) m = exec is (pushes (map (gpr m) rs) m)"
proof (induction rs arbitrary: m)
  case (Cons r rs)
  then have "map (gpr (push (gpr m r) m)) rs = map (gpr m) rs"
    by (intro map_cong refl push_sel(6)) auto
  then show ?case using Cons by (simp del: map_eq_conv)
qed simp

lemma exec_pops:
  assumes "RSP \<notin> set rs" "distinct rs" "length vs = length rs" "frame_at (gpr m RSP) vs (mem m)"
  shows "exec (map Pop rs @ is) m =
    exec is (m\<lparr>gpr := (loads rs vs (gpr m))(RSP := gpr m RSP + 8 * of_nat (length rs))\<rparr>)"
  using assms
proof (induction rs arbitrary: m vs)
  case Nil
  have "loads [] vs (gpr m) = gpr m" by (simp add: fun_eq_iff loads_def)
  then show ?case by simp
next
  case (Cons r rs)
  then obtain v vs' where vs: "vs = v # vs'" by (cases vs) auto
  let ?m = "effect (Pop r) m"
  have m1: "gpr ?m RSP = gpr m RSP + 8" "mem ?m = mem m" "stack_top m = v"
    using Cons.prems vs by (auto simp: frame_at_Cons stack_top_def)
  have "exec (map Pop (r # rs) @ is) m = exec (map Pop rs @ is) ?m" by simp
  also have "\<dots> = exec is (?m\<lparr>gpr := (loads rs vs' (gpr ?m))(RSP := gpr ?m RSP + 8 * of_nat (length rs))\<rparr>)"
    using Cons.prems vs m1 by (intro Cons.IH) (auto simp: frame_at_Cons)
  also have "(loads rs vs' (gpr ?m))(RSP := gpr ?m RSP + 8 * of_nat (length rs)) =
      (loads (r # rs) vs (gpr m))(RSP := gpr m RSP + 8 * of_nat (length (r # rs)))"
    using Cons.prems vs m1 by (auto simp: fun_eq_iff loads_Cons loads_upd algebra_simps)
  also have "?m\<lparr>gpr := g\<rparr> = m\<lparr>gpr := g\<rparr>" for g by (simp add: set_reg_def pop_def)
  finally show ?case .
qed

section \<open>Interrupt frames\<close>

definition iret_frame :: "machine \<Rightarrow> u64 list" where
  "iret_frame m = [rip m, cs m, rflags m, gpr m RSP, ss m]"

lemma length_iret_frame [simp]: "length (iret_frame m) = 5"
  by (simp add: iret_frame_def)

lemma iretq_frame:
  assumes "frame_at (gpr m RSP) [i, c, f, s, d] (mem m)"
  shows "iretq m = m\<lparr>rip := i, cs := c, rflags := f, gpr := (gpr m)(RSP := s), ss := d\<rparr>"
  using assms by (simp add: iretq_def Let_def frame_at_Cons add.commute [of "gpr m RSP"])

lemma exec_iretq:
  assumes "frame_at (gpr m RSP) [i, c, f, s, d] (mem m)"
  shows "exec [Iretq] m =
    Transferred (m\<lparr>rip := i, cs := c, rflags := f, gpr := (gpr m)(RSP := s), ss := d\<rparr>)"
  using iretq_frame [OF assms] by simp

lemma frame_at_disjoint:
  assumes "C \<inter> window a (length vs) = {}" "\<And>b. b \<notin> C \<Longrightarrow> M b = N b"
  shows "frame_at a vs M \<longleftrightarrow> frame_at a vs N"
  using assms by (intro frame_at_cong) blast

lemma pushes_mem_cong:
  "gpr m RSP = gpr n RSP \<Longrightarrow> mem m = mem n \<Longrightarrow> mem (pushes vs m) = mem (pushes vs n)"
  by (induction vs arbitrary: m n) (auto simp: push_def)

text \<open>What the processor leaves when it accepts the interrupt.\<close>

lemma interrupt_run:
  fixes m :: machine and h :: u64
  defines "a \<equiv> gpr m RSP AND NOT 15"
  shows "gpr (interrupt trap h m) = (gpr m)(RSP := a - 40)"
    and "frame_at (a - 40) (iret_frame m) (mem (interrupt trap h m))"
    and "b \<notin> window (a - 40) 5 \<Longrightarrow> mem (interrupt trap h m) b = mem m b"
    and "trap \<Longrightarrow> rflags (interrupt trap h m) = rflags m"
proof -
  let ?vs = "[ss m, gpr m RSP, rflags m, cs m, rip m]"
  let ?m0 = "set_reg RSP a m"
  have len: "length ?vs = 5" by simp
  have M: "mem (interrupt trap h m) = mem (pushes ?vs ?m0)"
    by (simp add: interrupt_def Let_def a_def)
  show "gpr (interrupt trap h m) = (gpr m)(RSP := a - 40)"
    by (rule ext) (simp add: interrupt_def Let_def push_def set_reg_def a_def)
  show "frame_at (a - 40) (iret_frame m) (mem (interrupt trap h m))"
    using pushes_frame [of ?vs ?m0] unfolding M by (simp add: iret_frame_def)
  show "mem (interrupt trap h m) b = mem m b" if "b \<notin> window (a - 40) 5"
    using pushes_mem [of b ?m0 ?vs, unfolded len] that unfolding M by simp
  show "rflags (interrupt trap h m) = rflags m" if trap
    using that by (simp add: interrupt_def Let_def)
qed

lemma window_shift:
  assumes "j + k \<le> n"
  shows "window (a + 8 * of_nat j) k \<subseteq> window a n"
proof
  fix b
  assume "b \<in> window (a + 8 * of_nat j) k"
  then obtain i where "i < k" "b = a + 8 * of_nat (j + i)" by (auto simp: window_def algebra_simps)
  with assms show "b \<in> window a n"
    unfolding window_def by (intro image_eqI [of _ _ "j + i"]) simp_all
qed

lemma windows_disjoint:
  assumes "k + n < 2 ^ 60"
  shows "window a k \<inter> window (a + 8 * of_nat k) n = {}"
proof -
  have False if "i < k" "j < n" "(a + 8 * of_nat i :: u64) = a + 8 * of_nat k + 8 * of_nat j" for i j
  proof -
    have "(8 * of_nat i :: u64) = 8 * of_nat (k + j)" using that(3) by (simp add: algebra_simps)
    with that assms of_nat_8_inj [of i "k + j"] show False by simp
  qed
  then show ?thesis by (auto simp: window_def)
qed

lemma frame_at_window_cong:
  "(\<forall>b\<in>window a n. M b = N b) \<Longrightarrow> length vs = n \<Longrightarrow> frame_at a vs M \<longleftrightarrow> frame_at a vs N"
  by (rule frame_at_cong) simp

lemma keep_below:
  assumes "b \<notin> window (gpr m RSP - 8 * of_nat n) n" "length vs \<le> n"
  shows "mem (pushes vs m) b = mem m b"
proof -
  let ?k = "length vs"
  have "window (gpr m RSP - 8 * of_nat n + 8 * of_nat (n - ?k)) ?k \<subseteq> window (gpr m RSP - 8 * of_nat n) n"
    using assms(2) by (intro window_shift) simp
  moreover have "gpr m RSP - 8 * of_nat n + 8 * of_nat (n - ?k) = gpr m RSP - 8 * of_nat ?k"
    using assms(2) by (simp add: of_nat_diff algebra_simps)
  ultimately show ?thesis using assms(1) by (intro pushes_mem) auto
qed

end
