(* ===== verification/Context_Switch.thy ===== *)
theory Context_Switch
  imports Asm Vmem
begin

text \<open>
  The assembly of \<^verbatim>\<open>scheduler.rs\<close>: how a task is started, preempted, released and resumed.
  The addresses the linker assigns to the symbols are a parameter.
\<close>

section \<open>The code\<close>

record symbols =
  SCHEDULER_TASK :: u64
  CURRENT_TASK_PTR :: u64
  STALE_TASK_PTR :: u64
  HHDM_TOP_ADDR_INNER :: u64
  sym_start_scheduler :: u64
  sym_end_task :: u64
  sym_finish_stale_task :: u64
  sym_resume_scheduler :: u64
  sym_preempt_jump_out :: u64
  sym_release_jump_out :: u64
  sym_release_return :: u64

text \<open>\<^verbatim>\<open>TaskInfo\<close> is \<^verbatim>\<open>repr(C)\<close>: the offsets of its fields.\<close>

definition sp_offset :: u64 where "sp_offset = 0"
definition taskid_offset :: u64 where "taskid_offset = 8"
definition flags_offset :: u64 where "flags_offset = 16"

definition KERNEL_CS :: u64 where "KERNEL_CS = 0x08"
definition KERNEL_SS :: u64 where "KERNEL_SS = 0x10"

definition TASKID_SCHEDULER :: u64 where "TASKID_SCHEDULER = 0x8000ffffffffffff"
definition TASKID_IDLE :: u64 where "TASKID_IDLE = 0x8007000000000000"

definition jump_to_scheduler :: "symbols \<Rightarrow> instr list" where
  "jump_to_scheduler L =
     [Cli,
      Load RAX (HHDM_TOP_ADDR_INNER L),
      AddI RAX (of_nat SCHEDULER_SP_OFFSET),
      Mov RSP RAX,
      Jmp (sym_start_scheduler L)]"

definition spawn_asm :: "symbols \<Rightarrow> instr list" where
  "spawn_asm L =
     [Mov RDX RSP,
      Mov RSP RSI,
      Lea RAX (sym_end_task L),
      Push RAX,
      Mov RAX RSP,
      PushI KERNEL_SS,
      Push RAX,
      Pushfq,
      PushI KERNEL_CS,
      Push RDI,
      PushI 0,
      PushI 0,
      PushI 0,
      PushI 0,
      PushI 0,
      PushI 0,
      Mov RAX RSP,
      Mov RSP RDX]"

definition end_task :: "symbols \<Rightarrow> instr list" where
  "end_task L =
     [Cli,
      Lea RAX (SCHEDULER_TASK L),
      Load RDI (CURRENT_TASK_PTR L),
      Store (CURRENT_TASK_PTR L) RAX,
      Call (sym_finish_stale_task L)]"

definition preempt_jump_out :: "symbols \<Rightarrow> instr list" where
  "preempt_jump_out L =
     [Cli,
      Lea RAX (SCHEDULER_TASK L),
      Store (CURRENT_TASK_PTR L) RAX,
      MovI RAX 0,
      Store (of_nat LAPIC_EOI_ADDR) RAX,
      Call (sym_resume_scheduler L)]"

definition scheduler_preempt :: "symbols \<Rightarrow> instr list" where
  "scheduler_preempt L =
     [Pushfq,
      Push RAX,
      Push RCX,
      Load R15 (CURRENT_TASK_PTR L),
      LoadOff R15 R15 taskid_offset,
      MovI R14 TASKID_SCHEDULER,
      Cmp R14 R15,
      Je 2,
      Push RDX,
      Push RSI,
      Push RDI,
      Push R8,
      Push R9,
      Push R10,
      Push R11,
      Push RBX,
      Push RBP,
      Push R12,
      Push R13,
      Push R14,
      Push R15,
      Mov RDI RSP,
      MovI RSI 2,
      PushI KERNEL_SS,
      Load RAX (HHDM_TOP_ADDR_INNER L),
      AddI RAX (of_nat SCHEDULER_SP_OFFSET),
      Push RAX,
      Pushfq,
      PushI KERNEL_CS,
      Lea RAX (sym_preempt_jump_out L),
      Push RAX,
      Iretq,
      Label 2,
      Pop RCX,
      Pop RAX,
      Popfq,
      Cli,
      MovI RAX 0,
      Store (of_nat LAPIC_EOI_ADDR) RAX,
      Iretq]"

definition release_jump_out :: "symbols \<Rightarrow> instr list" where
  "release_jump_out L =
     [Cli,
      Lea RAX (SCHEDULER_TASK L),
      Store (CURRENT_TASK_PTR L) RAX,
      Call (sym_resume_scheduler L)]"

definition release_asm :: "symbols \<Rightarrow> instr list" where
  "release_asm L =
     [Cli,
      Mov RAX RSP,
      PushI KERNEL_SS,
      Push RAX,
      Pushfq,
      PushI KERNEL_CS,
      Lea RAX (sym_release_return L),
      Push RAX,
      Push RBX,
      Push RBP,
      Push R12,
      Push R13,
      Push R14,
      Push R15,
      Mov RDI RSP,
      PushI KERNEL_SS,
      Lea RAX (SCHEDULER_TASK L),
      PushM RAX sp_offset,
      Pushfq,
      PushI KERNEL_CS,
      Lea RAX (sym_release_jump_out L),
      Push RAX,
      Iretq,
      Label 2]"

definition resume_task :: "symbols \<Rightarrow> instr list" where
  "resume_task L =
     [Cli,
      LoadOff RSP RDI sp_offset,
      Store (CURRENT_TASK_PTR L) RDI,
      Store (STALE_TASK_PTR L) RDI,
      Sti,
      Pop R15,
      Pop R14,
      Pop R13,
      Pop R12,
      Pop RBP,
      Pop RBX,
      Btr RDI flags_offset 0,
      Jnc 2,
      Pop R11,
      Pop R10,
      Pop R9,
      Pop R8,
      Pop RDI,
      Pop RSI,
      Pop RDX,
      Pop RCX,
      Pop RAX,
      Popfq,
      Label 2,
      Iretq]"

section \<open>Resuming a task\<close>

text \<open>The two parts of a saved context and the interrupt frame above them, from low to high addresses.\<close>

abbreviation standard_regs :: "reg list" where
  "standard_regs \<equiv> [R15, R14, R13, R12, RBP, RBX]"

abbreviation scratch_regs :: "reg list" where
  "scratch_regs \<equiv> [R11, R10, R9, R8, RDI, RSI, RDX, RCX, RAX]"

lemma resume_code:
  "resume_task L =
     [Cli, LoadOff RSP RDI sp_offset, Store (CURRENT_TASK_PTR L) RDI, Store (STALE_TASK_PTR L) RDI, Sti] @
     map Pop standard_regs @ [Btr RDI flags_offset 0, Jnc 2] @
     map Pop scratch_regs @ [Popfq, Label 2, Iretq]"
  by (simp add: resume_task_def)

lemma resume_prologue:
  "exec ([Cli, LoadOff RSP RDI sp_offset, Store (CURRENT_TASK_PTR L) RDI, Store (STALE_TASK_PTR L) RDI, Sti] @ is) m =
   exec is (m\<lparr>gpr := (gpr m)(RSP := mem m (gpr m RDI)),
     mem := (mem m)(CURRENT_TASK_PTR L := gpr m RDI, STALE_TASK_PTR L := gpr m RDI),
     rflags := put_bit IF True (put_bit IF False (rflags m))\<rparr>)"
  by (simp add: set_reg_def sp_offset_def)

text \<open>The cells \<open>resume_task\<close> writes.\<close>

definition resume_cells :: "symbols \<Rightarrow> u64 \<Rightarrow> u64 set" where
  "resume_cells L p = {CURRENT_TASK_PTR L, STALE_TASK_PTR L, p + flags_offset}"

definition resumed_mem :: "symbols \<Rightarrow> u64 \<Rightarrow> (u64 \<Rightarrow> u64) \<Rightarrow> u64 \<Rightarrow> u64" where
  "resumed_mem L p M =
     (M(CURRENT_TASK_PTR L := p, STALE_TASK_PTR L := p))
       (p + flags_offset := put_bit 0 False (M (p + flags_offset)))"

lemma btr_effect:
  assumes "gpr m RDI = p" "p + flags_offset \<notin> {CURRENT_TASK_PTR L, STALE_TASK_PTR L}"
    and "mem m = M(CURRENT_TASK_PTR L := p, STALE_TASK_PTR L := p)"
  shows "effect (Btr RDI flags_offset 0) m =
    m\<lparr>rflags := put_bit CF (bit (M (p + flags_offset)) 0) (rflags m), mem := resumed_mem L p M\<rparr>"
  using assms by (simp add: Let_def resumed_mem_def)

lemma resume_to_btr:
  assumes "gpr m RDI = p" "mem m p = sp" "frame_at sp std (mem m)" "length std = 6"
    and "p + flags_offset \<notin> {CURRENT_TASK_PTR L, STALE_TASK_PTR L}"
    and "resume_cells L p \<inter> window sp 6 = {}"
  shows "\<exists>fl. exec (resume_task L) m =
    exec ([Jnc 2] @ map Pop scratch_regs @ [Popfq, Label 2, Iretq])
      (m\<lparr>gpr := (loads standard_regs std (gpr m))(RSP := sp + 48), mem := resumed_mem L p (mem m),
        rflags := put_bit CF (bit (mem m (p + flags_offset)) 0) fl\<rparr>)"
proof -
  let ?m = "m\<lparr>gpr := (gpr m)(RSP := mem m (gpr m RDI)),
     mem := (mem m)(CURRENT_TASK_PTR L := gpr m RDI, STALE_TASK_PTR L := gpr m RDI),
     rflags := put_bit IF True (put_bit IF False (rflags m))\<rparr>"
  let ?rest = "[Jnc 2] @ map Pop scratch_regs @ [Popfq, Label 2, Iretq]"
  have fr: "frame_at sp std (mem ?m)"
    using assms(3,4,6) by (subst frame_at_disjoint [where C = "resume_cells L p" and N = "mem m"])
      (auto simp: resume_cells_def)
  have "exec (resume_task L) m = exec (map Pop standard_regs @ [Btr RDI flags_offset 0] @ ?rest) ?m"
    unfolding resume_code resume_prologue by simp
  also have "\<dots> = exec ([Btr RDI flags_offset 0] @ ?rest)
      (?m\<lparr>gpr := (loads standard_regs std (gpr ?m))(RSP := gpr ?m RSP + 8 * of_nat (length standard_regs))\<rparr>)"
    using fr assms(1,2,4) by (intro exec_pops) simp_all
  also have "(loads standard_regs std (gpr ?m))(RSP := gpr ?m RSP + 8 * of_nat (length standard_regs)) =
      (loads standard_regs std (gpr m))(RSP := sp + 48)"
    using assms(1,2,4) by (auto simp: fun_eq_iff loads_upd_other)
  also have "exec ([Btr RDI flags_offset 0] @ ?rest)
      (?m\<lparr>gpr := (loads standard_regs std (gpr m))(RSP := sp + 48)\<rparr>) =
    exec ?rest (effect (Btr RDI flags_offset 0)
      (?m\<lparr>gpr := (loads standard_regs std (gpr m))(RSP := sp + 48)\<rparr>))" by simp
  also have "effect (Btr RDI flags_offset 0) (?m\<lparr>gpr := (loads standard_regs std (gpr m))(RSP := sp + 48)\<rparr>) =
      m\<lparr>gpr := (loads standard_regs std (gpr m))(RSP := sp + 48), mem := resumed_mem L p (mem m),
        rflags := put_bit CF (bit (mem m (p + flags_offset)) 0) (rflags ?m)\<rparr>"
    using assms(1,4,5) by (subst btr_effect [where p = p and L = L and M = "mem m"])
      (simp_all add: loads_not_in)
  finally show ?thesis by blast
qed

lemma resume_standard:
  assumes "gpr m RDI = p" "mem m p = sp" "frame_at sp (std @ [i, c, f, s, d]) (mem m)" "length std = 6"
    and "p + flags_offset \<notin> {CURRENT_TASK_PTR L, STALE_TASK_PTR L}"
    and "resume_cells L p \<inter> window sp 11 = {}" "\<not> bit (mem m (p + flags_offset)) 0"
  shows "exec (resume_task L) m = Transferred (m\<lparr>rip := i, cs := c, rflags := f, ss := d,
    gpr := (loads standard_regs std (gpr m))(RSP := s), mem := resumed_mem L p (mem m)\<rparr>)"
proof -
  have c6: "resume_cells L p \<inter> window sp 6 = {}" using assms(6) window_mono [of 6 11 sp] by auto
  obtain fl where e: "exec (resume_task L) m =
    exec ([Jnc 2] @ map Pop scratch_regs @ [Popfq, Label 2, Iretq])
      (m\<lparr>gpr := (loads standard_regs std (gpr m))(RSP := sp + 48), mem := resumed_mem L p (mem m),
        rflags := put_bit CF (bit (mem m (p + flags_offset)) 0) fl\<rparr>)"
    using resume_to_btr [OF assms(1,2) _ assms(4,5) c6] assms(3) by (auto simp: frame_at_append)
  have "frame_at sp (std @ [i, c, f, s, d]) (resumed_mem L p (mem m))"
    using assms(3,4,6)
    by (subst frame_at_disjoint [where C = "resume_cells L p" and N = "mem m"])
      (auto simp: resume_cells_def resumed_mem_def)
  then have "frame_at (sp + 48) [i, c, f, s, d] (resumed_mem L p (mem m))"
    using assms(4) by (simp add: frame_at_append)
  then show ?thesis using e assms(7) exec_iretq by simp
qed

lemma resume_interrupted:
  assumes "gpr m RDI = p" "mem m p = sp"
    and "frame_at sp (std @ scr @ fl # [i, c, f, s, d]) (mem m)" "length std = 6" "length scr = 9"
    and "p + flags_offset \<notin> {CURRENT_TASK_PTR L, STALE_TASK_PTR L}"
    and "resume_cells L p \<inter> window sp 21 = {}" "bit (mem m (p + flags_offset)) 0"
  shows "exec (resume_task L) m = Transferred (m\<lparr>rip := i, cs := c, rflags := f, ss := d,
    gpr := (loads scratch_regs scr (loads standard_regs std (gpr m)))(RSP := s),
    mem := resumed_mem L p (mem m)\<rparr>)"
proof -
  have c6: "resume_cells L p \<inter> window sp 6 = {}" using assms(7) window_mono [of 6 21 sp] by auto
  obtain fl0 where e: "exec (resume_task L) m =
    exec ([Jnc 2] @ map Pop scratch_regs @ [Popfq, Label 2, Iretq])
      (m\<lparr>gpr := (loads standard_regs std (gpr m))(RSP := sp + 48), mem := resumed_mem L p (mem m),
        rflags := put_bit CF (bit (mem m (p + flags_offset)) 0) fl0\<rparr>)"
    using resume_to_btr [OF assms(1,2) _ assms(4,6) c6] assms(3) by (auto simp: frame_at_append)
  let ?m = "m\<lparr>gpr := (loads standard_regs std (gpr m))(RSP := sp + 48), mem := resumed_mem L p (mem m),
        rflags := put_bit CF (bit (mem m (p + flags_offset)) 0) fl0\<rparr>"
  let ?g = "(loads scratch_regs scr (loads standard_regs std (gpr m)))(RSP := sp + 120)"
  have "frame_at sp (std @ scr @ fl # [i, c, f, s, d]) (resumed_mem L p (mem m))"
    using assms(3,4,5,7)
    by (subst frame_at_disjoint [where C = "resume_cells L p" and N = "mem m"])
      (auto simp: resume_cells_def resumed_mem_def)
  then have fr: "frame_at (sp + 48) scr (mem ?m)" "mem ?m (sp + 120) = fl"
    "frame_at (sp + 128) [i, c, f, s, d] (resumed_mem L p (mem m))"
    using assms(4,5) by (simp_all add: frame_at_append frame_at_Cons add.assoc)
  have "exec (resume_task L) m = exec (map Pop scratch_regs @ [Popfq, Label 2, Iretq]) ?m"
    unfolding e using assms(8) by simp
  also have "\<dots> = exec [Popfq, Label 2, Iretq]
      (?m\<lparr>gpr := (loads scratch_regs scr (gpr ?m))(RSP := gpr ?m RSP + 8 * of_nat (length scratch_regs))\<rparr>)"
    using fr(1) assms(5) by (intro exec_pops) simp_all
  also have "(loads scratch_regs scr (gpr ?m))(RSP := gpr ?m RSP + 8 * of_nat (length scratch_regs)) = ?g"
    using assms(5) by (auto simp: fun_eq_iff loads_upd_other)
  also have "exec [Popfq, Label 2, Iretq] (?m\<lparr>gpr := ?g\<rparr>) = exec [Iretq]
      (m\<lparr>mem := resumed_mem L p (mem m), gpr := ?g(RSP := sp + 128), rflags := fl\<rparr>)"
    using fr(2) by (simp add: stack_top_def pop_def add.commute [of sp])
  also have "\<dots> = Transferred (m\<lparr>rip := i, cs := c, rflags := f, ss := d,
    gpr := (loads scratch_regs scr (loads standard_regs std (gpr m)))(RSP := s),
    mem := resumed_mem L p (mem m)\<rparr>)"
    using fr(3) exec_iretq by simp
  finally show ?thesis .
qed

section \<open>Preempting a task\<close>

lemma exec_Pushfq: "exec (Pushfq # is) m = exec is (push (rflags m) m)"
  by simp

lemma preempt_entry:
  "exec (scheduler_preempt L) m =
   exec (drop 3 (scheduler_preempt L)) (pushes [rflags m, gpr m RAX, gpr m RCX] m)"
proof -
  have code: "scheduler_preempt L = Pushfq # map Push [RAX, RCX] @ drop 3 (scheduler_preempt L)"
    by (simp add: scheduler_preempt_def)
  show ?thesis
    by (subst code, subst exec_Pushfq, subst exec_pushes) simp_all
qed

text \<open>The registers the handler stores, in the order of the pushes.\<close>

definition preempted_values :: "machine \<Rightarrow> u64 \<Rightarrow> u64 list" where
  "preempted_values m tid =
     rflags m # map (gpr m) [RAX, RCX, RDX, RSI, RDI, R8, R9, R10, R11, RBX, RBP, R12, R13] @
     [TASKID_SCHEDULER, tid]"

lemma preempt_run:
  fixes m :: machine and L :: symbols
  defines "tid \<equiv> mem m (mem m (CURRENT_TASK_PTR L) + taskid_offset)"
    and "sp \<equiv> gpr m RSP - 128"
  assumes "tid \<noteq> TASKID_SCHEDULER"
    and "CURRENT_TASK_PTR L \<notin> window (sp - 40) 21" "HHDM_TOP_ADDR_INNER L \<notin> window (sp - 40) 21"
    and "mem m (CURRENT_TASK_PTR L) + taskid_offset \<notin> window (sp - 40) 21"
  shows "\<exists>m'. exec (scheduler_preempt L) m = Transferred m' \<and>
    rip m' = sym_preempt_jump_out L \<and> cs m' = KERNEL_CS \<and> ss m' = KERNEL_SS \<and>
    (bit (rflags m') IF \<longleftrightarrow> bit (rflags m) IF) \<and>
    gpr m' RDI = sp \<and> gpr m' RSI = 2 \<and>
    gpr m' RSP = mem m (HHDM_TOP_ADDR_INNER L) + of_nat SCHEDULER_SP_OFFSET \<and>
    frame_at sp (rev (preempted_values m tid)) (mem m') \<and>
    (\<forall>b. b \<notin> window (sp - 40) 21 \<longrightarrow> mem m' b = mem m b)"
proof -
  let ?R4 = "[Label 2, Pop RCX, Pop RAX, Popfq, Cli, MovI RAX 0, Store (of_nat LAPIC_EOI_ADDR) RAX, Iretq]"
  let ?R3 = "[Mov RDI RSP, MovI RSI 2, PushI KERNEL_SS, Load RAX (HHDM_TOP_ADDR_INNER L),
      AddI RAX (of_nat SCHEDULER_SP_OFFSET), Push RAX, Pushfq, PushI KERNEL_CS,
      Lea RAX (sym_preempt_jump_out L), Push RAX, Iretq] @ ?R4"
  let ?rs = "[RDX, RSI, RDI, R8, R9, R10, R11, RBX, RBP, R12, R13, R14, R15]"
  let ?R1 = "[Load R15 (CURRENT_TASK_PTR L), LoadOff R15 R15 taskid_offset, MovI R14 TASKID_SCHEDULER,
      Cmp R14 R15, Je 2] @ map Push ?rs @ ?R3"
  define m3 where "m3 = pushes [rflags m, gpr m RAX, gpr m RCX] m"
  have sub: "window (gpr m RSP - 8 * of_nat k) k \<subseteq> window (sp - 40) 21" if "k \<le> 21" for k
  proof
    fix b
    assume "b \<in> window (gpr m RSP - 8 * of_nat k) k"
    then obtain i where i: "i < k" "b = gpr m RSP - 8 * of_nat k + 8 * of_nat i"
      by (auto simp: window_def)
    have "b = sp - 40 + 8 * of_nat (21 - k + i)"
      using that by (simp add: i(2) sp_def of_nat_diff algebra_simps)
    moreover have "21 - k + i < 21" using i(1) that by simp
    ultimately show "b \<in> window (sp - 40) 21" unfolding window_def by blast
  qed
  have keep: "mem (pushes vs m) b = mem m b" if "b \<notin> window (sp - 40) 21" "length vs \<le> 21" for vs b
    using sub [OF that(2)] that(1) by (intro pushes_mem) auto
  have "?R1 = drop 3 (scheduler_preempt L)" by (simp add: scheduler_preempt_def)
  then have s1: "exec (scheduler_preempt L) m = exec ?R1 m3"
    unfolding m3_def by (simp only: preempt_entry)
  have m3: "mem m3 (CURRENT_TASK_PTR L) = mem m (CURRENT_TASK_PTR L)"
    "mem m3 (mem m (CURRENT_TASK_PTR L) + taskid_offset) = tid"
    using assms(4,6) unfolding m3_def tid_def by (intro keep; simp)+
  define m4 where "m4 = m3\<lparr>gpr := (gpr m3)(R15 := tid, R14 := TASKID_SCHEDULER),
    rflags := cmp_flags TASKID_SCHEDULER tid (rflags m)\<rparr>"
  have s2: "exec ?R1 m3 = exec (map Push ?rs @ ?R3) m4"
    using m3 assms(3) by (simp add: m4_def set_reg_def m3_def fun_upd_twist)
  define m5 where "m5 = pushes (map (gpr m4) ?rs) m4"
  have s3: "exec (map Push ?rs @ ?R3) m4 = exec ?R3 m5"
    unfolding m5_def by (rule exec_pushes) simp
  have v: "[rflags m, gpr m RAX, gpr m RCX] @ map (gpr m4) ?rs = preempted_values m tid"
    by (simp add: preempted_values_def m4_def m3_def)
  have len: "length (preempted_values m tid) = 16" by (simp add: preempted_values_def)
  have mm5: "mem m5 = mem (pushes (preempted_values m tid) m)"
    unfolding v [symmetric] pushes_append m5_def m3_def [symmetric]
    by (rule pushes_mem_cong) (simp_all add: m4_def)
  have rsp5: "gpr m5 RSP = sp" by (simp add: m5_def m4_def m3_def sp_def)
  have fl5: "rflags m5 = cmp_flags TASKID_SCHEDULER tid (rflags m)" by (simp add: m5_def m4_def)
  define ksp where "ksp = mem m (HHDM_TOP_ADDR_INNER L) + of_nat SCHEDULER_SP_OFFSET"
  define fl where "fl = add_flags (mem m (HHDM_TOP_ADDR_INNER L)) (of_nat SCHEDULER_SP_OFFSET) (rflags m5)"
  let ?fr = "[KERNEL_SS, ksp, fl, KERNEL_CS, sym_preempt_jump_out L]"
  define m6 where "m6 = fold effect [Mov RDI RSP, MovI RSI 2, PushI KERNEL_SS,
      Load RAX (HHDM_TOP_ADDR_INNER L), AddI RAX (of_nat SCHEDULER_SP_OFFSET), Push RAX, Pushfq,
      PushI KERNEL_CS, Lea RAX (sym_preempt_jump_out L), Push RAX] m5"
  have s4: "exec ?R3 m5 = Transferred (iretq m6)" by (simp add: m6_def)
  have "mem (pushes (preempted_values m tid @ [KERNEL_SS]) m) (HHDM_TOP_ADDR_INNER L) =
      mem m (HHDM_TOP_ADDR_INNER L)"
    using assms(5) len by (intro keep) simp_all
  then have top: "((mem m5)(sp - 8 := KERNEL_SS)) (HHDM_TOP_ADDR_INNER L) = mem m (HHDM_TOP_ADDR_INNER L)"
    using rsp5 mm5 by (simp add: len sp_def)
  have m6: "gpr m6 RSP = sp - 40" "gpr m6 RDI = sp" "gpr m6 RSI = 2" "mem m6 = mem (pushes ?fr m5)"
    using top by (simp_all add: m6_def rsp5 ksp_def fl_def algebra_simps)
  have mm6: "mem m6 = mem (pushes (preempted_values m tid @ ?fr) m)"
    unfolding m6(4) pushes_append by (rule pushes_mem_cong) (simp_all add: mm5 rsp5 len sp_def)
  have fr: "frame_at (sp - 40) (rev ?fr @ rev (preempted_values m tid)) (mem m6)"
    using pushes_frame [of "preempted_values m tid @ ?fr" m] len
    by (simp add: mm6 sp_def algebra_simps)
  then have i: "iretq m6 = m6\<lparr>rip := sym_preempt_jump_out L, cs := KERNEL_CS, rflags := fl,
      gpr := (gpr m6)(RSP := ksp), ss := KERNEL_SS\<rparr>"
    unfolding frame_at_append m6(1) [symmetric] by (intro iretq_frame) simp
  have "frame_at sp (rev (preempted_values m tid)) (mem m6)"
    using fr unfolding frame_at_append by simp
  moreover have "mem m6 b = mem m b" if "b \<notin> window (sp - 40) 21" for b
    unfolding mm6 using that len by (intro keep) simp_all
  moreover have "bit fl IF \<longleftrightarrow> bit (rflags m) IF" by (simp add: fl_def fl5)
  ultimately show ?thesis
    unfolding s1 s2 s3 s4 i using m6(2,3) by (simp add: ksp_def)
qed

text \<open>
  The saved context of a preempted task, from low to high addresses, for the machine \<open>m\<close>
  that was interrupted: the sixteen quadwords of the handler and the interrupt frame.
\<close>

lemma preempt_saves:
  fixes m :: machine and L :: symbols
  defines "a \<equiv> gpr m RSP AND NOT 15"
    and "tid \<equiv> mem m (mem m (CURRENT_TASK_PTR L) + taskid_offset)"
  assumes "tid \<noteq> TASKID_SCHEDULER"
    and "{CURRENT_TASK_PTR L, HHDM_TOP_ADDR_INNER L, mem m (CURRENT_TASK_PTR L) + taskid_offset} \<inter>
      window (a - 208) 26 = {}"
  shows "\<exists>m'. exec (scheduler_preempt L) (interrupt True h m) = Transferred m' \<and>
    rip m' = sym_preempt_jump_out L \<and> cs m' = KERNEL_CS \<and> ss m' = KERNEL_SS \<and>
    gpr m' RDI = a - 168 \<and> gpr m' RSI = 2 \<and>
    gpr m' RSP = mem m (HHDM_TOP_ADDR_INNER L) + of_nat SCHEDULER_SP_OFFSET \<and>
    frame_at (a - 168) (rev (preempted_values m tid) @ iret_frame m) (mem m') \<and>
    (\<forall>b. b \<notin> window (a - 208) 26 \<longrightarrow> mem m' b = mem m b)"
proof -
  let ?m1 = "interrupt True h m"
  note int = interrupt_run [where m = m and trap = True and h = h, folded a_def]
  have w: "window (a - 40) 5 \<subseteq> window (a - 208) 26" "window (a - 208) 21 \<subseteq> window (a - 208) 26"
    "window (a - 208) 21 \<inter> window (a - 40) 5 = {}"
    using window_shift [of 21 5 26 "a - 208"] window_mono [of 21 26 "a - 208"]
      windows_disjoint [of 21 5 "a - 208"] by simp_all
  have c: "mem ?m1 (CURRENT_TASK_PTR L) = mem m (CURRENT_TASK_PTR L)"
    "mem ?m1 (HHDM_TOP_ADDR_INNER L) = mem m (HHDM_TOP_ADDR_INNER L)"
    "mem ?m1 (mem m (CURRENT_TASK_PTR L) + taskid_offset) = tid"
    unfolding tid_def using assms(4) w(1) by (intro int(3); blast)+
  have sp: "gpr ?m1 RSP - 128 = a - 168" "gpr ?m1 RSP - 128 - 40 = a - 208" by (simp_all add: int(1))
  have pv: "preempted_values ?m1 tid = preempted_values m tid"
    by (simp add: preempted_values_def int)
  obtain m' where m': "exec (scheduler_preempt L) ?m1 = Transferred m'"
    "rip m' = sym_preempt_jump_out L" "cs m' = KERNEL_CS" "ss m' = KERNEL_SS"
    "gpr m' RDI = a - 168" "gpr m' RSI = 2"
    "gpr m' RSP = mem m (HHDM_TOP_ADDR_INNER L) + of_nat SCHEDULER_SP_OFFSET"
    "frame_at (a - 168) (rev (preempted_values m tid)) (mem m')"
    "\<And>b. b \<notin> window (a - 208) 21 \<Longrightarrow> mem m' b = mem ?m1 b"
    using preempt_run [of ?m1 L, unfolded sp c pv] assms(3,4) w(2) by auto
  have "frame_at (a - 40) (iret_frame m) (mem m')"
    using int(2) w(3) m'(9)
    by (subst frame_at_disjoint [where C = "window (a - 208) 21" and N = "mem ?m1"]) auto
  moreover have "length (preempted_values m tid) = 16" by (simp add: preempted_values_def)
  ultimately have "frame_at (a - 168) (rev (preempted_values m tid) @ iret_frame m) (mem m')"
    using m'(8) by (simp add: frame_at_append)
  moreover have "mem m' b = mem m b" if "b \<notin> window (a - 208) 26" for b
  proof -
    have "b \<notin> window (a - 208) 21" "b \<notin> window (a - 40) 5" using that w by auto
    then show ?thesis using m'(9) int(3) by simp
  qed
  ultimately show ?thesis using m' by blast
qed

lemma preempted_values_split:
  "rev (preempted_values m tid) =
     [tid, TASKID_SCHEDULER, gpr m R13, gpr m R12, gpr m RBP, gpr m RBX] @
     map (gpr m) scratch_regs @ [rflags m]"
  by (simp add: preempted_values_def)

lemma preempt_resumed:
  fixes m :: machine and L :: symbols
  assumes a: "a = gpr m RSP AND NOT 15" "tid = mem m (mem m (CURRENT_TASK_PTR L) + taskid_offset)"
    and h: "tid \<noteq> TASKID_SCHEDULER"
      "{CURRENT_TASK_PTR L, HHDM_TOP_ADDR_INNER L, mem m (CURRENT_TASK_PTR L) + taskid_offset} \<inter>
      window (a - 208) 26 = {}"
    and run: "exec (scheduler_preempt L) (interrupt True h m) = Transferred m'"
    and n: "gpr n RDI = p" "mem n p = gpr m' RDI" "bit (mem n (p + flags_offset)) 0"
      "p + flags_offset \<notin> {CURRENT_TASK_PTR L, STALE_TASK_PTR L}"
      "resume_cells L p \<inter> window (a - 168) 21 = {}"
      "\<forall>b\<in>window (a - 168) 21. mem n b = mem m' b"
  shows "exec (resume_task L) n = Transferred (n\<lparr>rip := rip m, cs := cs m, rflags := rflags m, ss := ss m,
         gpr := (gpr m)(R14 := TASKID_SCHEDULER, R15 := tid), mem := resumed_mem L p (mem n)\<rparr>)"
proof -
  have m': "gpr m' RDI = a - 168" "frame_at (a - 168) (rev (preempted_values m tid) @ iret_frame m) (mem m')"
    using preempt_saves [of m L h, folded a, OF h] run by auto
  let ?std = "[tid, TASKID_SCHEDULER, gpr m R13, gpr m R12, gpr m RBP, gpr m RBX]"
  have "frame_at (a - 168) (?std @ map (gpr m) scratch_regs @ rflags m # iret_frame m) (mem n)"
    using m'(2) frame_at_window_cong [OF n(6)]
    unfolding preempted_values_split by simp
  then have "exec (resume_task L) n = Transferred (n\<lparr>rip := rip m, cs := cs m, rflags := rflags m,
      ss := ss m, gpr := (loads scratch_regs (map (gpr m) scratch_regs)
        (loads standard_regs ?std (gpr n)))(RSP := gpr m RSP), mem := resumed_mem L p (mem n)\<rparr>)"
    unfolding iret_frame_def using n(1-5) m'(1)
    by (intro resume_interrupted [where sp = "a - 168" and fl = "rflags m"]) simp_all
  also have "(loads scratch_regs (map (gpr m) scratch_regs) (loads standard_regs ?std (gpr n)))
      (RSP := gpr m RSP) = (gpr m)(R14 := TASKID_SCHEDULER, R15 := tid)"
  proof
    fix r
    show "((loads scratch_regs (map (gpr m) scratch_regs) (loads standard_regs ?std (gpr n)))
      (RSP := gpr m RSP)) r = ((gpr m)(R14 := TASKID_SCHEDULER, R15 := tid)) r"
      by (cases r) (simp_all add: loads_def)
  qed
  finally show ?thesis .
qed

text \<open>
  C22. Preempting a task and resuming it later restores its context, except for two
  registers. Let a task be interrupted in any machine state \<open>m\<close>: the handler hands the
  scheduler the stack pointer of the saved frame and the reason 2 (preempted), on the
  scheduler's stack, and writes only below the task's stack pointer. When the scheduler,
  without having touched the saved frame, resumes the task whose structure holds that stack
  pointer and the interrupted flag, the task continues at the interrupted instruction with
  the same flags, stack pointer and registers; but r14 holds the id of the scheduler and r15
  the id of the task, because the handler uses both before it saves them.
\<close>

theorem preempt_resume_context:
  fixes m :: machine and L :: symbols
  assumes "a = gpr m RSP AND NOT 15" "tid = mem m (mem m (CURRENT_TASK_PTR L) + taskid_offset)"
    and "tid \<noteq> TASKID_SCHEDULER"
    and "{CURRENT_TASK_PTR L, HHDM_TOP_ADDR_INNER L, mem m (CURRENT_TASK_PTR L) + taskid_offset} \<inter>
      window (a - 208) 26 = {}"
  shows "\<exists>m'. exec (scheduler_preempt L) (interrupt True h m) = Transferred m' \<and>
    rip m' = sym_preempt_jump_out L \<and> gpr m' RDI = a - 168 \<and> gpr m' RSI = 2 \<and>
    gpr m' RSP = mem m (HHDM_TOP_ADDR_INNER L) + of_nat SCHEDULER_SP_OFFSET \<and>
    (\<forall>b. b \<notin> window (a - 208) 26 \<longrightarrow> mem m' b = mem m b) \<and>
    (\<forall>n p. gpr n RDI = p \<longrightarrow> mem n p = gpr m' RDI \<longrightarrow> bit (mem n (p + flags_offset)) 0 \<longrightarrow>
       p + flags_offset \<notin> {CURRENT_TASK_PTR L, STALE_TASK_PTR L} \<longrightarrow>
       resume_cells L p \<inter> window (a - 168) 21 = {} \<longrightarrow>
       (\<forall>b\<in>window (a - 168) 21. mem n b = mem m' b) \<longrightarrow>
       exec (resume_task L) n = Transferred (n\<lparr>rip := rip m, cs := cs m, rflags := rflags m, ss := ss m,
         gpr := (gpr m)(R14 := TASKID_SCHEDULER, R15 := tid), mem := resumed_mem L p (mem n)\<rparr>))"
proof -
  from preempt_saves [of m L h, folded assms(1,2), OF assms(3,4)]
  obtain m' where m': "exec (scheduler_preempt L) (interrupt True h m) = Transferred m'"
    "rip m' = sym_preempt_jump_out L" "gpr m' RDI = a - 168" "gpr m' RSI = 2"
    "gpr m' RSP = mem m (HHDM_TOP_ADDR_INNER L) + of_nat SCHEDULER_SP_OFFSET"
    "frame_at (a - 168) (rev (preempted_values m tid) @ iret_frame m) (mem m')"
    "\<forall>b. b \<notin> window (a - 208) 26 \<longrightarrow> mem m' b = mem m b"
    by blast
  from m' preempt_resumed [OF assms m'(1)] show ?thesis by blast
qed

text \<open>A machine in which a task with id \<open>0x8000000000000100\<close> runs, and a link map.\<close>

definition sample_symbols :: symbols where
  "sample_symbols = \<lparr>SCHEDULER_TASK = 0x1000, CURRENT_TASK_PTR = 0x2000, STALE_TASK_PTR = 0x2008,
     HHDM_TOP_ADDR_INNER = 0x2010, sym_start_scheduler = 0x3000, sym_end_task = 0x3010,
     sym_finish_stale_task = 0x3020, sym_resume_scheduler = 0x3030, sym_preempt_jump_out = 0x3040,
     sym_release_jump_out = 0x3050, sym_release_return = 0x3060\<rparr>"

definition sample_machine :: machine where
  "sample_machine = \<lparr>gpr = (\<lambda>r. 7)(RSP := 0x9000, RDI := 0x5000, RSI := 0x8000), rip = 0x6000, cs = 8, ss = 16,
     rflags = 0x202,
     mem = (\<lambda>a. 0)(0x2000 := 0x4000, 0x2010 := 0xffff900000000000, 0x4008 := 0x8000000000000100,
       0x1000 := 0x7000)\<rparr>"

lemma sample_sel:
  "rip sample_machine = 0x6000" "cs sample_machine = 8" "rflags sample_machine = 0x202"
  "ss sample_machine = 16" "gpr sample_machine RSP = 0x9000" "gpr sample_machine RDI = 0x5000"
  "gpr sample_machine RSI = 0x8000" "gpr sample_machine RBX = 7"
  "mem sample_machine 0x2000 = 0x4000" "mem sample_machine 0x4008 = 0x8000000000000100"
  "mem sample_machine 0x4010 = 0"
  "SCHEDULER_TASK sample_symbols = 0x1000" "CURRENT_TASK_PTR sample_symbols = 0x2000"
  "STALE_TASK_PTR sample_symbols = 0x2008" "HHDM_TOP_ADDR_INNER sample_symbols = 0x2010"
  "sym_release_return sample_symbols = 0x3060" "sym_end_task sample_symbols = 0x3010"
  by (simp_all add: sample_machine_def sample_symbols_def)

lemmas sample_simps = sample_sel taskid_offset_def flags_offset_def TASKID_SCHEDULER_def
  resume_cells_def window_def lessThan_nat_numeral lessThan_Suc

theorem preempt_resume_context_witness:
  "\<exists>m' n. exec (scheduler_preempt sample_symbols) (interrupt True 0x3000 sample_machine) = Transferred m' \<and>
    n = m'\<lparr>gpr := (gpr m')(RDI := 0x4000), mem := (mem m')(0x4000 := gpr m' RDI, 0x4010 := 1)\<rparr> \<and>
    exec (resume_task sample_symbols) n = Transferred (n\<lparr>rip := 0x6000, cs := 8, rflags := 0x202, ss := 16,
      gpr := (gpr sample_machine)(R14 := TASKID_SCHEDULER, R15 := 0x8000000000000100),
      mem := resumed_mem sample_symbols 0x4000 (mem n)\<rparr>)"
proof -
  have h: "0x9000 = gpr sample_machine RSP AND NOT 15"
    "0x8000000000000100 = mem sample_machine (mem sample_machine (CURRENT_TASK_PTR sample_symbols) + taskid_offset)"
    "0x8000000000000100 \<noteq> TASKID_SCHEDULER"
    "{CURRENT_TASK_PTR sample_symbols, HHDM_TOP_ADDR_INNER sample_symbols,
      mem sample_machine (CURRENT_TASK_PTR sample_symbols) + taskid_offset} \<inter> window (0x9000 - 208) 26 = {}"
    by (simp_all add: sample_simps)
  obtain m' where m': "exec (scheduler_preempt sample_symbols) (interrupt True 0x3000 sample_machine) = Transferred m'"
    and r: "\<And>n p. gpr n RDI = p \<Longrightarrow> mem n p = gpr m' RDI \<Longrightarrow> bit (mem n (p + flags_offset)) 0 \<Longrightarrow>
       p + flags_offset \<notin> {CURRENT_TASK_PTR sample_symbols, STALE_TASK_PTR sample_symbols} \<Longrightarrow>
       resume_cells sample_symbols p \<inter> window (0x9000 - 168) 21 = {} \<Longrightarrow>
       (\<forall>b\<in>window (0x9000 - 168) 21. mem n b = mem m' b) \<Longrightarrow>
       exec (resume_task sample_symbols) n = Transferred (n\<lparr>rip := rip sample_machine,
         cs := cs sample_machine, rflags := rflags sample_machine, ss := ss sample_machine,
         gpr := (gpr sample_machine)(R14 := TASKID_SCHEDULER, R15 := 0x8000000000000100),
         mem := resumed_mem sample_symbols p (mem n)\<rparr>)"
    using preempt_resume_context [OF h, of "0x3000"] by blast
  let ?n = "m'\<lparr>gpr := (gpr m')(RDI := 0x4000), mem := (mem m')(0x4000 := gpr m' RDI, 0x4010 := 1)\<rparr>"
  have "exec (resume_task sample_symbols) ?n = Transferred (?n\<lparr>rip := 0x6000, cs := 8, rflags := 0x202, ss := 16,
      gpr := (gpr sample_machine)(R14 := TASKID_SCHEDULER, R15 := 0x8000000000000100),
      mem := resumed_mem sample_symbols 0x4000 (mem ?n)\<rparr>)"
    unfolding sample_sel(1-4) [symmetric] by (rule r) (simp_all add: sample_simps)
  with m' show ?thesis by blast
qed

section \<open>Releasing and starting a task\<close>

text \<open>The context a task that releases the processor leaves, in the order of the pushes.\<close>

definition released_values :: "symbols \<Rightarrow> machine \<Rightarrow> u64 list" where
  "released_values L m =
     [KERNEL_SS, gpr m RSP, put_bit IF False (rflags m), KERNEL_CS, sym_release_return L,
      gpr m RBX, gpr m RBP, gpr m R12, gpr m R13, gpr m R14, gpr m R15]"

lemma release_run:
  fixes m :: machine and L :: symbols
  defines "sp \<equiv> gpr m RSP - 88"
  assumes "SCHEDULER_TASK L \<notin> window (sp - 40) 16"
  shows "\<exists>m'. exec (release_asm L) m = Transferred m' \<and>
    rip m' = sym_release_jump_out L \<and> cs m' = KERNEL_CS \<and> ss m' = KERNEL_SS \<and>
    \<not> bit (rflags m') IF \<and> gpr m' RDI = sp \<and> gpr m' RSI = gpr m RSI \<and>
    gpr m' RSP = mem m (SCHEDULER_TASK L) \<and>
    frame_at sp (rev (released_values L m)) (mem m') \<and>
    (\<forall>b. b \<notin> window (sp - 40) 16 \<longrightarrow> mem m' b = mem m b)"
proof -
  have win: "window (gpr m RSP - 8 * of_nat 16) 16 = window (sp - 40) 16" by (simp add: sp_def)
  note keep = keep_below [where m = m and n = 16, unfolded win]
  let ?fl = "put_bit IF False (rflags m)"
  let ?ksp = "mem m (SCHEDULER_TASK L)"
  let ?vs = "released_values L m @ [KERNEL_SS, ?ksp, ?fl, KERNEL_CS, sym_release_jump_out L]"
  define m5 where "m5 = fold effect [Cli, Mov RAX RSP, PushI KERNEL_SS, Push RAX, Pushfq, PushI KERNEL_CS,
      Lea RAX (sym_release_return L), Push RAX, Push RBX, Push RBP, Push R12, Push R13, Push R14, Push R15,
      Mov RDI RSP, PushI KERNEL_SS] m"
  define m6 where "m6 = fold effect [Lea RAX (SCHEDULER_TASK L), PushM RAX sp_offset, Pushfq,
      PushI KERNEL_CS, Lea RAX (sym_release_jump_out L), Push RAX] m5"
  have e: "exec (release_asm L) m = Transferred (iretq m6)"
    by (simp add: release_asm_def m5_def m6_def)
  have m5: "mem m5 = mem (pushes (released_values L m @ [KERNEL_SS]) m)" "gpr m5 RSP = sp - 8"
    "gpr m5 RDI = sp" "gpr m5 RSI = gpr m RSI" "rflags m5 = ?fl"
    by (simp_all add: m5_def released_values_def sp_def)
  have "mem m5 (SCHEDULER_TASK L) = ?ksp"
    unfolding m5(1) using assms(2) by (intro keep) (simp_all add: released_values_def)
  then have m6: "gpr m6 RSP = sp - 40" "gpr m6 RDI = sp" "gpr m6 RSI = gpr m RSI"
    "mem m6 = mem (pushes [?ksp, ?fl, KERNEL_CS, sym_release_jump_out L] m5)"
    by (simp_all add: m6_def m5 sp_offset_def algebra_simps)
  have vs: "?vs = (released_values L m @ [KERNEL_SS]) @ [?ksp, ?fl, KERNEL_CS, sym_release_jump_out L]"
    by simp
  have len: "length (released_values L m) = 11" by (simp add: released_values_def)
  have mm6: "mem m6 = mem (pushes ?vs m)"
    unfolding m6(4) vs pushes_append [of "released_values L m @ [KERNEL_SS]"]
    by (rule pushes_mem_cong) (simp_all add: m5 len sp_def)
  have fr: "frame_at (sp - 40) ([sym_release_jump_out L, KERNEL_CS, ?fl, ?ksp, KERNEL_SS] @
      rev (released_values L m)) (mem m6)"
    using pushes_frame [of ?vs m] by (simp add: mm6 sp_def len)
  then have i: "iretq m6 = m6\<lparr>rip := sym_release_jump_out L, cs := KERNEL_CS, rflags := ?fl,
      gpr := (gpr m6)(RSP := ?ksp), ss := KERNEL_SS\<rparr>"
    unfolding frame_at_append m6(1) [symmetric] by (intro iretq_frame) simp
  have "frame_at sp (rev (released_values L m)) (mem m6)"
    using fr unfolding frame_at_append by simp
  moreover have "mem m6 b = mem m b" if "b \<notin> window (sp - 40) 16" for b
    unfolding mm6 using that by (intro keep) (simp_all add: len)
  ultimately show ?thesis unfolding e i using m6(2,3) by simp
qed

text \<open>
  C29. A task that yields continues after the call when it is resumed: at the return label, on
  its own stack pointer, with the callee-saved registers it had. The flags it continues with
  have the interrupt flag cleared whatever it was before, because interrupts are disabled
  before the flags are saved.
\<close>

theorem release_resume_context:
  fixes m :: machine and L :: symbols
  assumes "sp = gpr m RSP - 88" "SCHEDULER_TASK L \<notin> window (sp - 40) 16"
  shows "\<exists>m'. exec (release_asm L) m = Transferred m' \<and>
    rip m' = sym_release_jump_out L \<and> gpr m' RDI = sp \<and> gpr m' RSI = gpr m RSI \<and>
    gpr m' RSP = mem m (SCHEDULER_TASK L) \<and>
    (\<forall>b. b \<notin> window (sp - 40) 16 \<longrightarrow> mem m' b = mem m b) \<and>
    (\<forall>n p. gpr n RDI = p \<longrightarrow> mem n p = sp \<longrightarrow> \<not> bit (mem n (p + flags_offset)) 0 \<longrightarrow>
       p + flags_offset \<notin> {CURRENT_TASK_PTR L, STALE_TASK_PTR L} \<longrightarrow>
       resume_cells L p \<inter> window sp 11 = {} \<longrightarrow> (\<forall>b\<in>window sp 11. mem n b = mem m' b) \<longrightarrow>
       (\<exists>n'. exec (resume_task L) n = Transferred n' \<and> rip n' = sym_release_return L \<and>
          cs n' = KERNEL_CS \<and> ss n' = KERNEL_SS \<and> rflags n' = put_bit IF False (rflags m) \<and>
          (\<forall>r\<in>{RSP, RBX, RBP, R12, R13, R14, R15}. gpr n' r = gpr m r) \<and>
          mem n' = resumed_mem L p (mem n)))"
proof -
  from release_run [of L m, folded assms(1), OF assms(2)]
  obtain m' where m': "exec (release_asm L) m = Transferred m'" "rip m' = sym_release_jump_out L"
    "gpr m' RDI = sp" "gpr m' RSI = gpr m RSI" "gpr m' RSP = mem m (SCHEDULER_TASK L)"
    "frame_at sp (rev (released_values L m)) (mem m')"
    "\<forall>b. b \<notin> window (sp - 40) 16 \<longrightarrow> mem m' b = mem m b" by blast
  let ?std = "[gpr m R15, gpr m R14, gpr m R13, gpr m R12, gpr m RBP, gpr m RBX]"
  have rv: "rev (released_values L m) = ?std @ [sym_release_return L, KERNEL_CS,
      put_bit IF False (rflags m), gpr m RSP, KERNEL_SS]" by (simp add: released_values_def)
  have "exec (resume_task L) n = Transferred (n\<lparr>rip := sym_release_return L, cs := KERNEL_CS,
      rflags := put_bit IF False (rflags m), ss := KERNEL_SS,
      gpr := (loads standard_regs ?std (gpr n))(RSP := gpr m RSP), mem := resumed_mem L p (mem n)\<rparr>)"
    if n: "gpr n RDI = p" "mem n p = sp" "\<not> bit (mem n (p + flags_offset)) 0"
      "p + flags_offset \<notin> {CURRENT_TASK_PTR L, STALE_TASK_PTR L}"
      "resume_cells L p \<inter> window sp 11 = {}" "\<forall>b\<in>window sp 11. mem n b = mem m' b" for n p
    using m'(6) frame_at_window_cong [OF n(6)] n(1-5) unfolding rv
    by (intro resume_standard [where sp = sp]) simp_all
  then have "\<exists>n'. exec (resume_task L) n = Transferred n' \<and> rip n' = sym_release_return L \<and>
      cs n' = KERNEL_CS \<and> ss n' = KERNEL_SS \<and> rflags n' = put_bit IF False (rflags m) \<and>
      (\<forall>r\<in>{RSP, RBX, RBP, R12, R13, R14, R15}. gpr n' r = gpr m r) \<and>
      mem n' = resumed_mem L p (mem n)"
    if "gpr n RDI = p" "mem n p = sp" "\<not> bit (mem n (p + flags_offset)) 0"
      "p + flags_offset \<notin> {CURRENT_TASK_PTR L, STALE_TASK_PTR L}"
      "resume_cells L p \<inter> window sp 11 = {}" "\<forall>b\<in>window sp 11. mem n b = mem m' b" for n p
    using that by (simp add: loads_def)
  with m' show ?thesis by blast
qed

theorem release_resume_context_witness:
  "\<exists>m' n n'. exec (release_asm sample_symbols) sample_machine = Transferred m' \<and>
    n = m'\<lparr>gpr := (gpr m')(RDI := 0x4000), mem := (mem m')(0x4000 := gpr m' RDI)\<rparr> \<and>
    exec (resume_task sample_symbols) n = Transferred n' \<and> rip n' = 0x3060 \<and>
    gpr n' RSP = 0x9000 \<and> gpr n' RBX = 7 \<and> rflags n' = 2"
proof -
  have w: "SCHEDULER_TASK sample_symbols \<notin> window (gpr sample_machine RSP - 88 - 40) 16"
    by (simp add: sample_simps)
  obtain m' where m': "exec (release_asm sample_symbols) sample_machine = Transferred m'"
    "gpr m' RDI = gpr sample_machine RSP - 88"
    "\<forall>b. b \<notin> window (gpr sample_machine RSP - 88 - 40) 16 \<longrightarrow> mem m' b = mem sample_machine b"
    and r: "\<forall>n p. gpr n RDI = p \<longrightarrow> mem n p = gpr sample_machine RSP - 88 \<longrightarrow>
       \<not> bit (mem n (p + flags_offset)) 0 \<longrightarrow>
       p + flags_offset \<notin> {CURRENT_TASK_PTR sample_symbols, STALE_TASK_PTR sample_symbols} \<longrightarrow>
       resume_cells sample_symbols p \<inter> window (gpr sample_machine RSP - 88) 11 = {} \<longrightarrow>
       (\<forall>b\<in>window (gpr sample_machine RSP - 88) 11. mem n b = mem m' b) \<longrightarrow>
       (\<exists>n'. exec (resume_task sample_symbols) n = Transferred n' \<and>
          rip n' = sym_release_return sample_symbols \<and> cs n' = KERNEL_CS \<and> ss n' = KERNEL_SS \<and>
          rflags n' = put_bit IF False (rflags sample_machine) \<and>
          (\<forall>r\<in>{RSP, RBX, RBP, R12, R13, R14, R15}. gpr n' r = gpr sample_machine r) \<and>
          mem n' = resumed_mem sample_symbols p (mem n))"
    using release_resume_context [OF refl w] by (elim exE conjE)
  let ?n = "m'\<lparr>gpr := (gpr m')(RDI := 0x4000), mem := (mem m')(0x4000 := gpr m' RDI)\<rparr>"
  have "mem m' 0x4010 = mem sample_machine 0x4010"
    using m'(3) by (simp add: sample_simps)
  then obtain n' where n': "exec (resume_task sample_symbols) ?n = Transferred n'"
    "rip n' = sym_release_return sample_symbols" "rflags n' = put_bit IF False (rflags sample_machine)"
    "\<forall>r\<in>{RSP, RBX, RBP, R12, R13, R14, R15}. gpr n' r = gpr sample_machine r"
    using m'(2) r [THEN spec [of _ ?n], THEN spec [of _ "0x4000"]] by (simp add: sample_simps) blast
  have "put_bit IF False (rflags sample_machine) = 2"
    by (simp add: sample_sel put_bit_def unset_bit_eq_and_not push_bit_eq_mult)
  with n' show ?thesis
    using m'(1) by (intro exI [of _ m'] exI [of _ ?n] exI [of _ n'] conjI) (simp_all add: sample_sel)
qed

text \<open>The context \<open>spawn_task\<close> builds, in the order of the pushes.\<close>

definition spawned_values :: "symbols \<Rightarrow> machine \<Rightarrow> u64 list" where
  "spawned_values L m =
     [sym_end_task L, KERNEL_SS, gpr m RSI - 8, rflags m, KERNEL_CS, gpr m RDI, 0, 0, 0, 0, 0, 0]"

lemma spawn_run:
  fixes m :: machine and L :: symbols
  defines "st \<equiv> gpr m RSI"
  shows "\<exists>m'. exec (spawn_asm L) m = FellThrough m' \<and> gpr m' RAX = st - 96 \<and> gpr m' RSP = gpr m RSP \<and>
    frame_at (st - 96) (rev (spawned_values L m)) (mem m') \<and>
    (\<forall>b. b \<notin> window (st - 96) 12 \<longrightarrow> mem m' b = mem m b)"
proof -
  let ?m0 = "set_reg RSP st m"
  define m' where "m' = fold effect (spawn_asm L) m"
  have e: "exec (spawn_asm L) m = FellThrough m'" by (simp add: m'_def spawn_asm_def)
  have mm: "mem m' = mem (pushes (spawned_values L m) ?m0)"
    by (simp add: m'_def spawn_asm_def spawned_values_def st_def)
  have len: "length (spawned_values L m) = 12" by (simp add: spawned_values_def)
  have "frame_at (st - 96) (rev (spawned_values L m)) (mem m')"
    using pushes_frame [of "spawned_values L m" ?m0] by (simp add: mm len)
  moreover have "mem m' b = mem m b" if "b \<notin> window (st - 96) 12" for b
    using pushes_mem [of b ?m0 "spawned_values L m"] that by (simp add: mm len)
  moreover have "gpr m' RAX = st - 96" "gpr m' RSP = gpr m RSP"
    by (simp_all add: m'_def spawn_asm_def st_def)
  ultimately show ?thesis using e by blast
qed

text \<open>
  A new task starts at its entry point: the assembly of \<open>spawn_task\<close> leaves the caller's
  stack pointer alone and writes only the top twelve quadwords of the new stack, and when the
  scheduler first resumes the task with the stack pointer it returned, the task runs at the
  address given, with the flags of the moment it was spawned, zero in the callee-saved
  registers, and \<open>end_task\<close> as its return address.
\<close>

theorem spawn_resume_context:
  fixes m :: machine and L :: symbols
  assumes "st = gpr m RSI"
  shows "\<exists>m'. exec (spawn_asm L) m = FellThrough m' \<and> gpr m' RSP = gpr m RSP \<and>
    (\<forall>b. b \<notin> window (st - 96) 12 \<longrightarrow> mem m' b = mem m b) \<and>
    (\<forall>n p. gpr n RDI = p \<longrightarrow> mem n p = gpr m' RAX \<longrightarrow> \<not> bit (mem n (p + flags_offset)) 0 \<longrightarrow>
       p + flags_offset \<notin> {CURRENT_TASK_PTR L, STALE_TASK_PTR L} \<longrightarrow>
       resume_cells L p \<inter> window (st - 96) 12 = {} \<longrightarrow>
       (\<forall>b\<in>window (st - 96) 12. mem n b = mem m' b) \<longrightarrow>
       (\<exists>n'. exec (resume_task L) n = Transferred n' \<and> rip n' = gpr m RDI \<and>
          cs n' = KERNEL_CS \<and> ss n' = KERNEL_SS \<and> rflags n' = rflags m \<and>
          gpr n' RSP = st - 8 \<and> mem n' (st - 8) = sym_end_task L \<and>
          (\<forall>r\<in>{RBX, RBP, R12, R13, R14, R15}. gpr n' r = 0)))"
proof -
  from spawn_run [of L m, folded assms]
  obtain m' where m': "exec (spawn_asm L) m = FellThrough m'" "gpr m' RAX = st - 96"
    "gpr m' RSP = gpr m RSP" "frame_at (st - 96) (rev (spawned_values L m)) (mem m')"
    "\<forall>b. b \<notin> window (st - 96) 12 \<longrightarrow> mem m' b = mem m b" by blast
  have rv: "rev (spawned_values L m) = [0, 0, 0, 0, 0, 0] @ [gpr m RDI, KERNEL_CS, rflags m,
      st - 8, KERNEL_SS] @ [sym_end_task L]" by (simp add: spawned_values_def assms)
  have "\<exists>n'. exec (resume_task L) n = Transferred n' \<and> rip n' = gpr m RDI \<and>
          cs n' = KERNEL_CS \<and> ss n' = KERNEL_SS \<and> rflags n' = rflags m \<and>
          gpr n' RSP = st - 8 \<and> mem n' (st - 8) = sym_end_task L \<and>
          (\<forall>r\<in>{RBX, RBP, R12, R13, R14, R15}. gpr n' r = 0)"
    if n: "gpr n RDI = p" "mem n p = gpr m' RAX" "\<not> bit (mem n (p + flags_offset)) 0"
      "p + flags_offset \<notin> {CURRENT_TASK_PTR L, STALE_TASK_PTR L}"
      "resume_cells L p \<inter> window (st - 96) 12 = {}" "\<forall>b\<in>window (st - 96) 12. mem n b = mem m' b" for n p
  proof -
    have fr: "frame_at (st - 96) ([0, 0, 0, 0, 0, 0] @ [gpr m RDI, KERNEL_CS, rflags m,
        st - 8, KERNEL_SS] @ [sym_end_task L]) (mem n)"
      using m'(4) frame_at_window_cong [OF n(6)] unfolding rv by simp
    have c: "resume_cells L p \<inter> window (st - 96) 11 = {}"
      using n(5) window_mono [of 11 12 "st - 96"] by auto
    have e: "exec (resume_task L) n = Transferred (n\<lparr>rip := gpr m RDI, cs := KERNEL_CS,
        rflags := rflags m, ss := KERNEL_SS,
        gpr := (loads standard_regs [0, 0, 0, 0, 0, 0] (gpr n))(RSP := st - 8),
        mem := resumed_mem L p (mem n)\<rparr>)"
      using fr n(1-4) c m'(2) unfolding append_assoc [symmetric] frame_at_append [of _ "_ @ _"]
      by (intro resume_standard [where sp = "st - 96"]) simp_all
    have "st - 8 \<in> window (st - 96) 12"
      unfolding window_def by (rule image_eqI [of _ _ 11]) simp_all
    then have "resumed_mem L p (mem n) (st - 8) = mem n (st - 8)"
      using n(5) by (auto simp: resumed_mem_def resume_cells_def)
    moreover have "mem n (st - 8) = sym_end_task L"
      using fr by (simp add: frame_at_Cons)
    ultimately show ?thesis using e by (simp add: loads_def)
  qed
  with m' show ?thesis by blast
qed

theorem spawn_resume_context_witness:
  "\<exists>m' n n'. exec (spawn_asm sample_symbols) sample_machine = FellThrough m' \<and>
    n = m'\<lparr>gpr := (gpr m')(RDI := 0x4000), mem := (mem m')(0x4000 := gpr m' RAX)\<rparr> \<and>
    exec (resume_task sample_symbols) n = Transferred n' \<and> rip n' = 0x5000 \<and>
    gpr n' RSP = 0x7ff8 \<and> mem n' 0x7ff8 = 0x3010"
proof -
  obtain m' where m': "exec (spawn_asm sample_symbols) sample_machine = FellThrough m'"
    "\<forall>b. b \<notin> window (gpr sample_machine RSI - 96) 12 \<longrightarrow> mem m' b = mem sample_machine b"
    and r: "\<And>n p. gpr n RDI = p \<Longrightarrow> mem n p = gpr m' RAX \<Longrightarrow>
       \<not> bit (mem n (p + flags_offset)) 0 \<Longrightarrow>
       p + flags_offset \<notin> {CURRENT_TASK_PTR sample_symbols, STALE_TASK_PTR sample_symbols} \<Longrightarrow>
       resume_cells sample_symbols p \<inter> window (gpr sample_machine RSI - 96) 12 = {} \<Longrightarrow>
       (\<forall>b\<in>window (gpr sample_machine RSI - 96) 12. mem n b = mem m' b) \<Longrightarrow>
       \<exists>n'. exec (resume_task sample_symbols) n = Transferred n' \<and>
          rip n' = gpr sample_machine RDI \<and> gpr n' RSP = gpr sample_machine RSI - 8 \<and>
          mem n' (gpr sample_machine RSI - 8) = sym_end_task sample_symbols"
    using spawn_resume_context [OF refl, of sample_symbols sample_machine] by blast
  let ?n = "m'\<lparr>gpr := (gpr m')(RDI := 0x4000), mem := (mem m')(0x4000 := gpr m' RAX)\<rparr>"
  have "mem m' 0x4010 = mem sample_machine 0x4010"
    using m'(2) by (simp add: sample_simps)
  then have "\<exists>n'. exec (resume_task sample_symbols) ?n = Transferred n' \<and>
          rip n' = gpr sample_machine RDI \<and> gpr n' RSP = gpr sample_machine RSI - 8 \<and>
          mem n' (gpr sample_machine RSI - 8) = sym_end_task sample_symbols"
    by (intro r [of _ "0x4000"]) (simp_all add: sample_simps)
  then obtain n' where "exec (resume_task sample_symbols) ?n = Transferred n'"
    "rip n' = gpr sample_machine RDI" "gpr n' RSP = gpr sample_machine RSI - 8"
    "mem n' (gpr sample_machine RSI - 8) = sym_end_task sample_symbols" by blast
  then show ?thesis
    using m'(1) by (intro exI [of _ m'] exI [of _ ?n] exI [of _ n'] conjI) (simp_all add: sample_sel)
qed

section \<open>Interrupting the scheduler, and interrupting a resume\<close>

text \<open>
  When the timer interrupts the scheduler itself, nothing is scheduled: the handler
  signals the end of the interrupt and returns to the interrupted instruction with the same
  flags and stack pointer. It does not keep all registers, though: rax comes back as zero and
  r14 and r15 as the id of the scheduler.
\<close>

theorem preempt_scheduler_returns:
  fixes m :: machine and L :: symbols
  assumes a: "a = gpr m RSP AND NOT 15"
    and id: "mem m (mem m (CURRENT_TASK_PTR L) + taskid_offset) = TASKID_SCHEDULER"
    and cells: "{CURRENT_TASK_PTR L, of_nat LAPIC_EOI_ADDR, mem m (CURRENT_TASK_PTR L) + taskid_offset} \<inter>
      window (a - 64) 8 = {}"
  shows "\<exists>M. exec (scheduler_preempt L) (interrupt trap h m) = Transferred (m\<lparr>
      gpr := (gpr m)(RAX := 0, R14 := TASKID_SCHEDULER, R15 := TASKID_SCHEDULER), mem := M\<rparr>) \<and>
    M (of_nat LAPIC_EOI_ADDR) = 0 \<and>
    (\<forall>b. b \<notin> insert (of_nat LAPIC_EOI_ADDR) (window (a - 64) 8) \<longrightarrow> M b = mem m b)"
proof -
  let ?m1 = "interrupt trap h m"
  let ?vs = "[rflags ?m1, gpr m RAX, gpr m RCX]"
  let ?E = "of_nat LAPIC_EOI_ADDR :: u64"
  note int = interrupt_run [where m = m and trap = trap and h = h, folded a]
  have w: "window (a - 40) 5 \<subseteq> window (a - 64) 8" "window (a - 64) 3 \<subseteq> window (a - 64) 8"
    "window (a - 64) 3 \<inter> window (a - 40) 5 = {}"
    using window_shift [of 3 5 8 "a - 64"] window_mono [of 3 8 "a - 64"]
      windows_disjoint [of 3 5 "a - 64"] by simp_all
  define m3 where "m3 = pushes ?vs ?m1"
  have r3: "gpr m3 = (gpr m)(RSP := a - 64)"
  proof
    fix r
    show "gpr m3 r = ((gpr m)(RSP := a - 64)) r"
      by (cases "r = RSP") (simp_all add: m3_def int(1))
  qed
  have k3: "mem m3 b = mem ?m1 b" if "b \<notin> window (a - 64) 3" for b
    using pushes_mem [of b ?m1 ?vs] that by (simp add: m3_def int(1) numeral_3_eq_3)
  have k: "mem m3 b = mem m b" if "b \<notin> window (a - 64) 8" for b
  proof -
    have "b \<notin> window (a - 64) 3" "b \<notin> window (a - 40) 5" using that w by blast+
    then show ?thesis using k3 int(3) by simp
  qed
  have c: "mem m3 (CURRENT_TASK_PTR L) = mem m (CURRENT_TASK_PTR L)"
    "mem m3 (mem m (CURRENT_TASK_PTR L) + taskid_offset) = TASKID_SCHEDULER"
    unfolding id [symmetric] using cells by (intro k; blast)+
  have f3: "frame_at (a - 64) (rev ?vs) (mem m3)"
    using pushes_frame [of ?vs ?m1] by (simp add: m3_def int(1))
  have f5: "frame_at (a - 40) (iret_frame m) (mem m3)"
    using int(2) w(3) k3
    by (subst frame_at_disjoint [where C = "window (a - 64) 3" and N = "mem ?m1"]) auto
  have E: "?E \<notin> window (a - 40) 5" "?E \<notin> window (a - 64) 8" using cells w(1) by auto
  let ?M = "(mem m3)(?E := 0)"
  have "frame_at (a - 40) (iret_frame m) ?M" using f5 E(1) by simp
  then have fM: "frame_at (a - 40) [rip m, cs m, rflags m, gpr m RSP, ss m] ?M"
    by (simp add: iret_frame_def)
  have p: "mem m3 (a - 64) = gpr m RCX" "mem m3 (a - 56) = gpr m RAX" "mem m3 (a - 48) = rflags ?m1"
    using f3 by (simp_all add: frame_at_Cons add.commute)
  define m6 where "m6 = fold effect [Load R15 (CURRENT_TASK_PTR L), LoadOff R15 R15 taskid_offset,
    MovI R14 TASKID_SCHEDULER, Cmp R14 R15, Pop RCX, Pop RAX, Popfq, Cli, MovI RAX 0, Store ?E RAX] m3"
  let ?rs = "[RDX, RSI, RDI, R8, R9, R10, R11, RBX, RBP, R12, R13, R14, R15]"
  let ?R = "[Load R15 (CURRENT_TASK_PTR L), LoadOff R15 R15 taskid_offset, MovI R14 TASKID_SCHEDULER,
      Cmp R14 R15, Je 2] @ map Push ?rs @ [Mov RDI RSP, MovI RSI 2, PushI KERNEL_SS,
      Load RAX (HHDM_TOP_ADDR_INNER L), AddI RAX (of_nat SCHEDULER_SP_OFFSET), Push RAX, Pushfq,
      PushI KERNEL_CS, Lea RAX (sym_preempt_jump_out L), Push RAX, Iretq,
      Label 2, Pop RCX, Pop RAX, Popfq, Cli, MovI RAX 0, Store ?E RAX, Iretq]"
  have "?R = drop 3 (scheduler_preempt L)" by (simp add: scheduler_preempt_def)
  moreover have "m3 = pushes [rflags ?m1, gpr ?m1 RAX, gpr ?m1 RCX] ?m1" by (simp add: m3_def int(1))
  ultimately have "exec (scheduler_preempt L) ?m1 = exec ?R m3" by (simp only: preempt_entry)
  also have "\<dots> = Transferred (iretq m6)" using c by (simp add: m6_def)
  finally have e: "exec (scheduler_preempt L) ?m1 = Transferred (iretq m6)" .
  have g6: "gpr m6 = (gpr m)(RAX := 0, R14 := TASKID_SCHEDULER, R15 := TASKID_SCHEDULER, RSP := a - 40)"
  proof
    fix r
    show "gpr m6 r = ((gpr m)(RAX := 0, R14 := TASKID_SCHEDULER, R15 := TASKID_SCHEDULER, RSP := a - 40)) r"
      by (cases r) (simp_all add: m6_def r3 c p stack_top_def)
  qed
  have M6: "mem m6 = ?M" by (simp add: m6_def)
  have "iretq m6 = m\<lparr>gpr := (gpr m)(RAX := 0, R14 := TASKID_SCHEDULER, R15 := TASKID_SCHEDULER), mem := ?M\<rparr>"
    using fM iretq_frame [of m6 "rip m" "cs m" "rflags m" "gpr m RSP" "ss m"] g6 M6
    by (auto intro!: machine.equality simp: fun_eq_iff)
  with e have "exec (scheduler_preempt L) ?m1 = Transferred (m\<lparr>
      gpr := (gpr m)(RAX := 0, R14 := TASKID_SCHEDULER, R15 := TASKID_SCHEDULER), mem := ?M\<rparr>)"
    by simp
  moreover have "?M b = mem m b" if "b \<notin> insert ?E (window (a - 64) 8)" for b
    using that k by simp
  ultimately show ?thesis by (intro exI [of _ ?M]) simp
qed

theorem preempt_scheduler_returns_witness:
  "\<exists>M. exec (scheduler_preempt sample_symbols)
      (interrupt True 0x3000 (sample_machine\<lparr>mem := (mem sample_machine)(0x2000 := 0x1000, 0x1008 := TASKID_SCHEDULER)\<rparr>)) =
    Transferred (sample_machine\<lparr>
      gpr := (gpr sample_machine)(RAX := 0, R14 := TASKID_SCHEDULER, R15 := TASKID_SCHEDULER), mem := M\<rparr>)"
proof -
  let ?m = "sample_machine\<lparr>mem := (mem sample_machine)(0x2000 := 0x1000, 0x1008 := TASKID_SCHEDULER)\<rparr>"
  have "0x9000 = gpr ?m RSP AND NOT 15"
    "mem ?m (mem ?m (CURRENT_TASK_PTR sample_symbols) + taskid_offset) = TASKID_SCHEDULER"
    "{CURRENT_TASK_PTR sample_symbols, of_nat LAPIC_EOI_ADDR,
      mem ?m (CURRENT_TASK_PTR sample_symbols) + taskid_offset} \<inter> window (0x9000 - 64) 8 = {}"
    by (simp_all add: sample_simps LAPIC_EOI_ADDR_def LAPIC_ADDR_def EOI_OFFSET_def)
  from preempt_scheduler_returns [OF this, of True "0x3000"] show ?thesis by auto
qed

text \<open>The rest of \<open>resume_task\<close> after its first pop, and what it does when the flag is clear.\<close>

definition resume_tail :: "symbols \<Rightarrow> instr list" where
  "resume_tail L = drop 6 (resume_task L)"

lemma resume_tail_standard:
  assumes "gpr m RDI = p" "frame_at (gpr m RSP) (std @ [i, c, f, s, d]) (mem m)" "length std = 5"
    and "p + flags_offset \<notin> window (gpr m RSP) 10" "\<not> bit (mem m (p + flags_offset)) 0"
  shows "\<exists>m'. exec (resume_tail L) m = Transferred m' \<and> rip m' = i \<and> cs m' = c \<and> rflags m' = f \<and>
    gpr m' RSP = s \<and> ss m' = d"
proof -
  let ?rs = "[R14, R13, R12, RBP, RBX]"
  let ?rest = "[Jnc 2] @ map Pop scratch_regs @ [Popfq, Label 2, Iretq]"
  have code: "resume_tail L = map Pop ?rs @ [Btr RDI flags_offset 0] @ ?rest"
    by (simp add: resume_tail_def resume_task_def)
  let ?m = "m\<lparr>gpr := (loads ?rs std (gpr m))(RSP := gpr m RSP + 8 * of_nat (length ?rs))\<rparr>"
  have "exec (resume_tail L) m = exec ([Btr RDI flags_offset 0] @ ?rest) ?m"
    unfolding code using assms(2,3) by (intro exec_pops) (simp_all add: frame_at_append)
  moreover have "gpr ?m RDI = p" using assms(1,3) by (simp add: loads_not_in)
  ultimately have e: "exec (resume_tail L) m = exec [Iretq] (effect (Btr RDI flags_offset 0) ?m)"
    using assms(5) by (simp add: Let_def)
  have "frame_at (gpr m RSP) (std @ [i, c, f, s, d]) ((mem m)(p + flags_offset := x))" for x
    using assms(2,3,4) by simp
  then have "frame_at (gpr m RSP + 40) [i, c, f, s, d] ((mem m)(p + flags_offset := x))" for x
    using assms(3) by (simp add: frame_at_append)
  then have "frame_at (gpr (effect (Btr RDI flags_offset 0) ?m) RSP) [i, c, f, s, d]
      (mem (effect (Btr RDI flags_offset 0) ?m))"
    using \<open>gpr ?m RDI = p\<close> by (simp add: Let_def)
  from exec_iretq [OF this] e show ?thesis by simp
qed

lemma scheduler_mem_flag: "\<not> bit (resumed_mem L p M (p + flags_offset)) 0"
  by (simp add: resumed_mem_def)


text \<open>A task with 0xdead in r11, to be resumed at 0x6000, interrupted after the first pop.\<close>

definition resuming_machine :: machine where
  "resuming_machine = sample_machine\<lparr>gpr := (gpr sample_machine)(RDI := 0x4000),
     mem := (mem sample_machine)(0x9028 := 0xdead, 0x9078 := 0x6000)\<rparr>"

lemma resuming_frame:
  "frame_at (gpr resuming_machine RSP) ([0, 0, 0, 0, 0] @ [0xdead, 0, 0, 0, 0] @ [0, 0, 0, 0, 0] @
     [0x6000, 0, 0, 0, 0]) (mem resuming_machine)"
  by (simp add: resuming_machine_def sample_machine_def frame_at_Cons)


end
