(* ===== verification/Bitfields.thy ===== *)
theory Bitfields
  imports Prelude
begin

text \<open>
  The bit field helpers of \<^verbatim>\<open>util.rs\<close>: the bodies of the accessors that the macros
  \<^verbatim>\<open>bitfield_volatile_bitrange\<close>, \<^verbatim>\<open>bitfield_cenum_bitrange\<close> and \<^verbatim>\<open>bitfield_bitflags_bitrange\<close>
  expand to, for a representation of any width. An enum is its discriminant. Shifts are
  checked: a shift by the width of the type or more panics.

  The crates \<^verbatim>\<open>bitfield\<close> and \<^verbatim>\<open>bitflags\<close> are parameters: a record of the operations the
  kernel calls, and a locale of what their documentation says of them.
\<close>

section \<open>The crates\<close>

record 'w bitfield_ops =
  get_bits :: "'w \<Rightarrow> nat \<Rightarrow> nat \<Rightarrow> 'w"
  put_bits :: "'w \<Rightarrow> nat \<Rightarrow> nat \<Rightarrow> 'w \<Rightarrow> 'w"

text \<open>\<open>get_bits w msb lsb\<close> reads the field, right aligned; \<open>put_bits\<close> replaces it.\<close>

locale bitfield_crate =
  fixes P :: "'a::len word bitfield_ops"
  assumes bit_get_bits: "lsb \<le> msb \<Longrightarrow> msb < LENGTH('a) \<Longrightarrow>
      bit (get_bits P w msb lsb) n \<longleftrightarrow> n \<le> msb - lsb \<and> bit w (lsb + n)"
    and bit_put_bits: "lsb \<le> msb \<Longrightarrow> msb < LENGTH('a) \<Longrightarrow>
      bit (put_bits P w msb lsb v) n \<longleftrightarrow>
        (if lsb \<le> n \<and> n \<le> msb then bit v (n - lsb) else bit w n)"
begin

lemma get_put_other:
  assumes "lsb \<le> msb" "msb < LENGTH('a)" "l \<le> m" "m < LENGTH('a)" "m < lsb \<or> msb < l"
  shows "get_bits P (put_bits P w msb lsb v) m l = get_bits P w m l"
  by (rule bit_eqI) (use assms in \<open>auto simp: bit_get_bits bit_put_bits\<close>)

lemma get_put_same:
  assumes "lsb \<le> msb" "msb < LENGTH('a)"
  shows "get_bits P (put_bits P w msb lsb v) msb lsb = take_bit (msb - lsb + 1) v"
  by (rule bit_eqI) (use assms in \<open>auto simp: bit_get_bits bit_put_bits bit_take_bit_iff\<close>)

end

record 'w bitflags_ops =
  from_bits :: "'w \<Rightarrow> 'w option"
  from_bits_truncate :: "'w \<Rightarrow> 'w"
  known_bits :: "'w \<Rightarrow> 'w"
  contains_flags :: "'w \<Rightarrow> 'w \<Rightarrow> bool"
  insert_flags :: "'w \<Rightarrow> 'w \<Rightarrow> 'w"

text \<open>\<open>all_flags\<close> are the bits of the named flags of the type.\<close>

locale bitflags_crate =
  fixes F :: "'a::len word bitflags_ops" and all_flags :: "'a word"
  assumes from_bits: "from_bits F w = (if w AND all_flags = w then Some w else None)"
    and from_bits_truncate: "from_bits_truncate F w = w AND all_flags"
    and known_bits: "known_bits F w = w AND all_flags"
    and contains_flags: "contains_flags F w f \<longleftrightarrow> w AND f = f"
    and insert_flags: "insert_flags F w f = w OR f"

definition doc_bitfield :: "'a::len word bitfield_ops" where
  "doc_bitfield = \<lparr>get_bits = (\<lambda>w msb lsb. take_bit (msb - lsb + 1) (drop_bit lsb w)),
     put_bits = (\<lambda>w msb lsb v.
       (w AND NOT (push_bit lsb (mask (msb - lsb + 1)))) OR push_bit lsb (take_bit (msb - lsb + 1) v))\<rparr>"

definition doc_bitflags :: "'a::len word \<Rightarrow> 'a word bitflags_ops" where
  "doc_bitflags all_flags = \<lparr>from_bits = (\<lambda>w. if w AND all_flags = w then Some w else None),
     from_bits_truncate = (\<lambda>w. w AND all_flags), known_bits = (\<lambda>w. w AND all_flags),
     contains_flags = (\<lambda>w f. w AND f = f), insert_flags = (\<lambda>w f. w OR f)\<rparr>"

interpretation docbf: bitfield_crate doc_bitfield
proof
  fix lsb msb n :: nat and w v :: "'a word"
  assume a: "lsb \<le> msb" "msb < LENGTH('a)"
  show "bit (get_bits doc_bitfield w msb lsb) n \<longleftrightarrow> n \<le> msb - lsb \<and> bit w (lsb + n)"
    by (auto simp: doc_bitfield_def bit_take_bit_iff bit_drop_bit_eq)
  show "bit (put_bits doc_bitfield w msb lsb v) n \<longleftrightarrow>
      (if lsb \<le> n \<and> n \<le> msb then bit v (n - lsb) else bit w n)"
    using a by (cases "n < LENGTH('a)")
      (auto simp: doc_bitfield_def bit_simps not_le dest: bit_imp_le_length)
qed

interpretation docfl: bitflags_crate "doc_bitflags all_flags" all_flags
  for all_flags :: "'a::len word"
  by unfold_locales (simp_all add: doc_bitflags_def)

section \<open>The code\<close>

definition wshl :: "'a::len word \<Rightarrow> nat \<Rightarrow> 'a word res" where
  "wshl w k = (if k < LENGTH('a) then Inr (push_bit k w) else Inl ArithOverflow)"

definition wshr :: "'a::len word \<Rightarrow> nat \<Rightarrow> 'a word res" where
  "wshr w k = (if k < LENGTH('a) then Inr (drop_bit k w) else Inl ArithOverflow)"

definition wadd :: "'a::len word \<Rightarrow> 'a word \<Rightarrow> 'a word res" where
  "wadd a b = (if unat a + unat b < 2 ^ LENGTH('a) then Inr (a + b) else Inl ArithOverflow)"

definition wsub :: "'a::len word \<Rightarrow> 'a word \<Rightarrow> 'a word res" where
  "wsub a b = (if b \<le> a then Inr (a - b) else Inl ArithOverflow)"

definition wmul :: "'a::len word \<Rightarrow> 'a word \<Rightarrow> 'a word res" where
  "wmul a b = (if unat a * unat b < 2 ^ LENGTH('a) then Inr (a * b) else Inl ArithOverflow)"

text \<open>\<^verbatim>\<open>msb - lsb + 1\<close> on \<^verbatim>\<open>usize\<close>.\<close>

definition field_width :: "nat \<Rightarrow> nat \<Rightarrow> nat res" where
  "field_width msb lsb = bindR (usub msb lsb) (\<lambda>d. uadd d 1)"

definition volatile_bit_range :: "'a::len word \<Rightarrow> nat \<Rightarrow> nat \<Rightarrow> 'b::len word res" where
  "volatile_bit_range value msb lsb =
     bindR (field_width msb lsb) (\<lambda>width.
     bindR (wshl 1 width) (\<lambda>one.
     bindR (wsub one 1) (\<lambda>mask.
     bindR (wshr value lsb) (\<lambda>shifted.
     Inr (ucast (shifted AND mask))))))"

definition volatile_set_bit_range :: "'a::len word \<Rightarrow> nat \<Rightarrow> nat \<Rightarrow> 'b::len word \<Rightarrow> 'a word res" where
  "volatile_set_bit_range old_value msb lsb value =
     bindR (field_width msb lsb) (\<lambda>width.
     bindR (wshl 1 width) (\<lambda>one.
     bindR (wsub one 1) (\<lambda>ones.
     bindR (wshl ones lsb) (\<lambda>mask.
     Inr ((old_value AND NOT mask) OR (ucast value AND mask))))))"

definition cenum_bit_range :: "'a::len word \<Rightarrow> nat \<Rightarrow> nat \<Rightarrow> 'b::len word res" where
  "cenum_bit_range self msb lsb =
     bindR (field_width msb lsb) (\<lambda>width.
     bindR (wshl 1 width) (\<lambda>one.
     bindR (wsub one 1) (\<lambda>mask.
     bindR (wshr self lsb) (\<lambda>shifted.
     Inr (ucast (shifted AND mask))))))"

definition cenum_set_bit_range :: "'a::len word \<Rightarrow> nat \<Rightarrow> nat \<Rightarrow> 'b::len word \<Rightarrow> 'a word res" where
  "cenum_set_bit_range self msb lsb value =
     bindR (field_width msb lsb) (\<lambda>width.
     bindR (wshl 1 width) (\<lambda>one.
     bindR (wsub one 1) (\<lambda>ones.
     bindR (wshl ones lsb) (\<lambda>mask.
     bindR (wshl (ucast value) lsb) (\<lambda>val.
     Inr ((self AND NOT mask) OR (val AND mask)))))))"

definition bitflags_bit_range :: "'a::len word bitflags_ops \<Rightarrow> 'a word \<Rightarrow> nat \<Rightarrow> nat \<Rightarrow> 'a word res" where
  "bitflags_bit_range F self msb lsb =
     bindR (field_width msb lsb) (\<lambda>width.
     bindR (wshl 1 width) (\<lambda>one.
     bindR (wsub one 1) (\<lambda>ones.
     bindR (wshl ones lsb) (\<lambda>mask.
     Inr (from_bits_truncate F (self AND mask))))))"

definition bitflags_set_bit_range :: "'a::len word bitflags_ops \<Rightarrow> 'a word \<Rightarrow> nat \<Rightarrow> nat \<Rightarrow> 'a word \<Rightarrow> 'a word res" where
  "bitflags_set_bit_range F self msb lsb value =
     bindR (field_width msb lsb) (\<lambda>width.
     bindR (wshl 1 width) (\<lambda>one.
     bindR (wadd one 1) (\<lambda>ones.
     bindR (wshl ones lsb) (\<lambda>mask.
     let added = known_bits F value AND mask in
     Inr ((self AND NOT mask) OR added)))))"

section \<open>What they compute\<close>

lemma field_width_ok: "lsb \<le> msb \<Longrightarrow> msb < 2 ^ 63 \<Longrightarrow> field_width msb lsb = Inr (msb - lsb + 1)"
  by (simp add: field_width_def)

text \<open>The mask of a field that is narrower than its type.\<close>

lemma low_mask:
  assumes "w < LENGTH('a::len)"
  shows "bindR (wshl (1::'a word) w) (\<lambda>one. wsub one 1) = Inr (mask w)"
proof -
  have e: "push_bit w (1::'a word) = 2 ^ w" by (simp add: push_bit_eq_mult)
  have "(1::'a word) \<le> 2 ^ w"
  proof -
    have "(2 ^ w :: 'a word) \<noteq> 0" using assms by (simp add: exp_eq_zero_iff)
    then show ?thesis by (simp add: word_le_nat_alt Suc_leI unat_gt_0)
  qed
  then show ?thesis using assms e by (simp add: wshl_def wsub_def mask_eq_exp_minus_1)
qed

lemma low_mask_bind:
  assumes "w < LENGTH('a::len)"
  shows "bindR (wshl (1::'a word) w) (\<lambda>one. bindR (wsub one 1) g) = g (mask w)"
  using low_mask [OF assms] bindR_assoc [of "wshl (1::'a word) w" "\<lambda>one. wsub one 1" g] by simp

lemmas range_defs = volatile_bit_range_def volatile_set_bit_range_def cenum_bit_range_def
  cenum_set_bit_range_def bitflags_bit_range_def

lemma bit_range_ok:
  fixes w :: "'a::len word"
  assumes "lsb \<le> msb" "msb < LENGTH('a)" "msb - lsb + 1 < LENGTH('a)" "LENGTH('a) \<le> 2 ^ 63"
  shows "volatile_bit_range w msb lsb = Inr (ucast (drop_bit lsb w AND mask (msb - lsb + 1)))"
    and "cenum_bit_range w msb lsb = Inr (ucast (drop_bit lsb w AND mask (msb - lsb + 1)))"
    and "bitflags_bit_range F w msb lsb =
      Inr (from_bits_truncate F (w AND push_bit lsb (mask (msb - lsb + 1))))"
proof -
  have fw: "field_width msb lsb = Inr (msb - lsb + 1)" using assms by (simp add: field_width_ok)
  note unfolds = range_defs fw bindR_Inr low_mask_bind [OF assms(3)]
  show "volatile_bit_range w msb lsb = Inr (ucast (drop_bit lsb w AND mask (msb - lsb + 1)))"
    "cenum_bit_range w msb lsb = Inr (ucast (drop_bit lsb w AND mask (msb - lsb + 1)))"
    using assms(1,2) unfolding unfolds by (simp_all add: wshr_def)
  show "bitflags_bit_range F w msb lsb =
      Inr (from_bits_truncate F (w AND push_bit lsb (mask (msb - lsb + 1))))"
    using assms(1,2) unfolding unfolds by (simp add: wshl_def)
qed

lemma set_bit_range_ok:
  fixes w :: "'a::len word"
  assumes "lsb \<le> msb" "msb < LENGTH('a)" "msb - lsb + 1 < LENGTH('a)" "LENGTH('a) \<le> 2 ^ 63"
  shows "volatile_set_bit_range w msb lsb v =
      Inr ((w AND NOT (push_bit lsb (mask (msb - lsb + 1)))) OR (ucast v AND push_bit lsb (mask (msb - lsb + 1))))"
    and "cenum_set_bit_range w msb lsb v =
      Inr ((w AND NOT (push_bit lsb (mask (msb - lsb + 1)))) OR
           (push_bit lsb (ucast v) AND push_bit lsb (mask (msb - lsb + 1))))"
proof -
  have fw: "field_width msb lsb = Inr (msb - lsb + 1)" using assms by (simp add: field_width_ok)
  note unfolds = range_defs fw bindR_Inr low_mask_bind [OF assms(3)]
  show "volatile_set_bit_range w msb lsb v =
      Inr ((w AND NOT (push_bit lsb (mask (msb - lsb + 1)))) OR (ucast v AND push_bit lsb (mask (msb - lsb + 1))))"
    "cenum_set_bit_range w msb lsb v =
      Inr ((w AND NOT (push_bit lsb (mask (msb - lsb + 1)))) OR
           (push_bit lsb (ucast v) AND push_bit lsb (mask (msb - lsb + 1))))"
    using assms(1,2) unfolding unfolds by (simp_all add: wshl_def)
qed

text \<open>An enum written into a field is read back, and the other bits do not change.\<close>

theorem cenum_roundtrip:
  fixes self :: "'a::len word" and v :: "'b::len word"
  assumes "lsb \<le> msb" "msb < LENGTH('a)" "msb - lsb + 1 < LENGTH('a)" "LENGTH('a) \<le> 2 ^ 63"
    and "LENGTH('b) \<le> LENGTH('a)" "unat v < 2 ^ (msb - lsb + 1)"
  shows "\<exists>w. cenum_set_bit_range self msb lsb v = Inr w \<and> cenum_bit_range w msb lsb = Inr v \<and>
    (\<forall>n. n < lsb \<or> msb < n \<longrightarrow> bit w n = bit self n)"
proof -
  let ?M = "push_bit lsb (mask (msb - lsb + 1)) :: 'a word"
  let ?w = "(self AND NOT ?M) OR (push_bit lsb (ucast v) AND ?M)"
  have "take_bit (msb - lsb + 1) v = v"
    using assms(6) by (simp add: word_unat_eq_iff unsigned_take_bit_eq take_bit_nat_eq_self)
  then have small: "bit v n \<Longrightarrow> n \<le> msb - lsb" for n
    by (metis bit_take_bit_iff less_Suc_eq_le Suc_eq_plus1)
  have fits: "lsb + n < LENGTH('a)" if "n \<le> msb - lsb" for n using assms(1,2) that by linarith
  have "ucast (drop_bit lsb ?w AND mask (msb - lsb + 1)) = v"
    by (rule bit_eqI) (use assms(5) in \<open>auto simp: bit_simps less_Suc_eq_le dest: small fits\<close>)
  moreover have "bit ?w n = bit self n" if "n < lsb \<or> msb < n" for n
    using that assms(1) by (cases "n < LENGTH('a)") (auto simp: bit_simps dest: bit_imp_le_length)
  ultimately show ?thesis using assms(1-4) by (simp add: bit_range_ok set_bit_range_ok)
qed

theorem cenum_roundtrip_witness:
  "\<exists>w. cenum_set_bit_range (0x10005 :: u64) 10 8 (5 :: u8) = Inr w \<and> cenum_bit_range w 10 8 = Inr (5 :: u8) \<and>
    (\<forall>n. n < 8 \<or> 10 < n \<longrightarrow> bit w n = bit (0x10005 :: u64) n)"
  by (rule cenum_roundtrip) simp_all

lemma high_mask_bind:
  assumes "0 < w" "w < LENGTH('a::len)"
  shows "bindR (wshl (1::'a word) w) (\<lambda>one. bindR (wadd one 1) g) = g (push_bit w 1 OR 1)"
proof -
  have u: "unat (push_bit w (1::'a word)) = 2 ^ w"
    using assms(2) unsigned_of_nat [of "2 ^ w", where 'b='a and 'a=nat]
    by (simp add: push_bit_eq_mult take_bit_nat_eq_self power_strict_increasing)
  have "(2::nat) ^ w + 1 < 2 ^ Suc w" using assms(1) by (cases w) (simp_all add: Suc_lessI)
  also have "(2::nat) ^ Suc w \<le> 2 ^ LENGTH('a)" using assms(2) by (intro power_increasing) simp_all
  finally have "(2::nat) ^ w + 1 < 2 ^ LENGTH('a)" .
  moreover have "push_bit w (1::'a word) + 1 = push_bit w 1 OR 1"
    by (rule disjunctive_add) (use assms(1) in \<open>auto simp: bit_simps\<close>)
  ultimately show ?thesis using assms(2) u by (simp add: wshl_def wadd_def)
qed

text \<open>
  C40. The setter for a \<^verbatim>\<open>bitflags\<close> field, whose mask adds one where the getter's subtracts one,
  writes the lowest bit of the field and the bit above it, and no other bit of the field.
\<close>

theorem bitflags_setter_mask:
  fixes self v :: "'a::len word"
  assumes "bitflags_crate F all_flags" "lsb \<le> msb" "msb < LENGTH('a)" "msb - lsb + 1 < LENGTH('a)"
    "LENGTH('a) \<le> 2 ^ 63"
  shows "\<exists>w. bitflags_set_bit_range F self msb lsb v = Inr w \<and>
    (\<forall>n<LENGTH('a). bit w n \<longleftrightarrow>
       (if n = lsb \<or> n = msb + 1 then bit (v AND all_flags) n else bit self n))"
proof -
  have fw: "field_width msb lsb = Inr (msb - lsb + 1)" using assms by (simp add: field_width_ok)
  let ?M = "push_bit lsb (push_bit (msb - lsb + 1) 1 OR 1) :: 'a word"
  have "bitflags_set_bit_range F self msb lsb v = Inr ((self AND NOT ?M) OR (v AND all_flags AND ?M))"
    using assms(2,3) high_mask_bind [OF zero_less_Suc, of "msb - lsb", where 'a='a] assms(4)
    unfolding bitflags_set_bit_range_def fw bindR_Inr
    by (simp add: wshl_def [of _ lsb] Let_def bitflags_crate.known_bits [OF assms(1)] ac_simps
        del: push_bit_of_1 push_bit_or push_bit_push_bit)
  moreover have "bit ((self AND NOT ?M) OR (v AND all_flags AND ?M)) n \<longleftrightarrow>
      (if n = lsb \<or> n = msb + 1 then bit (v AND all_flags) n else bit self n)" if "n < LENGTH('a)" for n
  proof -
    have "bit ?M n \<longleftrightarrow> n = lsb \<or> n = msb + 1" using that assms(2) by (auto simp: bit_simps)
    then show ?thesis using that by (simp only: bit_or_iff bit_and_iff bit_not_iff) auto
  qed
  ultimately show ?thesis by blast
qed

text \<open>The flags of a task identifier, bits 63 to 56: the setter cannot clear \<^verbatim>\<open>KERNEL_TASK\<close>.\<close>

theorem bitflags_setter_mask_witness:
  "\<exists>w. bitflags_set_bit_range (doc_bitflags 0xe000000000000000) (0x8000000000000101 :: u64) 63 56 0 = Inr w \<and> bit w 63"
proof -
  have "\<exists>w. bitflags_set_bit_range (doc_bitflags 0xe000000000000000) (0x8000000000000101 :: u64) 63 56 0 = Inr w \<and>
    (\<forall>n<LENGTH(64). bit w n \<longleftrightarrow>
       (if n = 56 \<or> n = 63 + 1 then bit (0 AND 0xe000000000000000 :: u64) n else bit (0x8000000000000101 :: u64) n))"
    by (rule bitflags_setter_mask [OF docfl.bitflags_crate_axioms]) simp_all
  then obtain w where w: "bitflags_set_bit_range (doc_bitflags 0xe000000000000000) (0x8000000000000101 :: u64) 63 56 0 = Inr w"
    "\<forall>n<LENGTH(64). bit w n \<longleftrightarrow>
       (if n = 56 \<or> n = 63 + 1 then bit (0 AND 0xe000000000000000 :: u64) n else bit (0x8000000000000101 :: u64) n)"
    by (elim exE conjE)
  have "bit w 63" using spec [OF w(2), of 63] by simp
  with w(1) show ?thesis by blast
qed

text \<open>
  The setter for a volatile field does not shift the value to the position of the field: it
  stores the value's own bits at that position, so a value that fits the field below it is lost.
\<close>

lemma volatile_setter_unshifted:
  fixes self :: "'a::len word" and v :: "'b::len word"
  assumes "lsb \<le> msb" "msb < LENGTH('a)" "msb - lsb + 1 < LENGTH('a)" "LENGTH('a) \<le> 2 ^ 63"
    and "unat v < 2 ^ lsb"
  shows "\<exists>w. volatile_set_bit_range self msb lsb v = Inr w \<and> volatile_bit_range w msb lsb = Inr (0 :: 'b word)"
proof -
  let ?M = "push_bit lsb (mask (msb - lsb + 1)) :: 'a word"
  have "take_bit lsb v = v"
    using assms(5) by (simp add: word_unat_eq_iff unsigned_take_bit_eq take_bit_nat_eq_self)
  then have small: "bit v n \<Longrightarrow> n < lsb" for n by (metis bit_take_bit_iff)
  have "drop_bit lsb ((self AND NOT ?M) OR (ucast v AND ?M)) AND mask (msb - lsb + 1) = 0"
    by (rule bit_eqI) (use assms(1,2) in \<open>auto simp: bit_simps dest: small\<close>)
  then show ?thesis using assms(1-4) by (simp add: bit_range_ok set_bit_range_ok)
qed

lemma volatile_setter_unshifted_witness:
  "\<exists>w. volatile_set_bit_range (0 :: u64) 13 9 (5 :: u8) = Inr w \<and> volatile_bit_range w 13 9 = Inr (0 :: u8)"
  using volatile_setter_unshifted [of 9 13 "5 :: u8" "0 :: u64"] by simp

end
