(* ===== verification/Idt.thy ===== *)
theory Idt
  imports Asm Vmem
begin

text \<open>
  The interrupt descriptor table of \<^verbatim>\<open>idt.rs\<close>: the gates, their installation at start-up and
  later by \<open>load_handler\<close>, the naked wrappers around the Rust handlers, and what the fault
  handlers read off an error code; the handlers themselves are in \<open>Exceptions\<close>. The link addresses of the
  wrappers and the code segment are parameters.
\<close>

section \<open>The code\<close>

definition IRQ_LAPIC_CLK :: u8 where "IRQ_LAPIC_CLK = 0x32"
definition IRQ_PIT :: u8 where "IRQ_PIT = 0x33"
definition IRQ_RTC :: u8 where "IRQ_RTC = 0x34"
definition IRQ_HPET :: u8 where "IRQ_HPET = 0x35"

definition Options_empty :: u16 where
  "Options_empty = 0 OR push_bit 9 0b111"

definition Options_new :: u16 where
  "Options_new = Options_empty OR push_bit 15 1"

definition is_present :: "u16 \<Rightarrow> bool" where
  "is_present self \<longleftrightarrow> self AND push_bit 15 1 \<noteq> 0"

definition is_trap :: "u16 \<Rightarrow> bool" where
  "is_trap self \<longleftrightarrow> self AND push_bit 8 1 \<noteq> 0"

definition with_trap :: "bool \<Rightarrow> u16 \<Rightarrow> u16" where
  "with_trap trapped self = (self AND NOT (push_bit 8 1)) OR push_bit 8 (of_bool trapped)"

record Entry =
  ptr_low :: u16
  gdt_sel :: u16
  opts :: u16
  ptr_mid :: u16
  ptr_top :: u32
  reserved :: u32

definition Entry_empty :: Entry where
  "Entry_empty = \<lparr>ptr_low = 0, gdt_sel = 0, opts = Options_empty, ptr_mid = 0, ptr_top = 0, reserved = 0\<rparr>"

definition Entry_new :: "u16 \<Rightarrow> u64 \<Rightarrow> Entry" where
  "Entry_new sel ptr =
     \<lparr>ptr_low = ucast ptr, gdt_sel = sel, opts = Options_new, ptr_mid = ucast (drop_bit 16 ptr),
      ptr_top = ucast (drop_bit 32 ptr), reserved = 0\<rparr>"

text \<open>The wrappers: \<open>f\<close> is the address of the Rust handler.\<close>

definition handler :: "u64 \<Rightarrow> instr list" where
  "handler f = [Mov RDI RSP, Call f, Iretq]"

definition handler_from_lapic :: "u64 \<Rightarrow> instr list" where
  "handler_from_lapic f =
     [Mov RDI RSP, Call f, MovI RAX 0, Store (of_nat (LAPIC_ADDR + 0xb0)) RAX, Iretq]"

definition handler_with_ec :: "u64 \<Rightarrow> instr list" where
  "handler_with_ec f = [Pop RSI, Mov RDI RSP, Call f, Iretq]"

datatype table = GDT | LDT | IDT_table

text \<open>What a fault handler reports of its error code: the flag, the table and the index.\<close>

definition ec_fault_report :: "u64 \<Rightarrow> (bool \<times> table \<times> u64) res" where
  "ec_fault_report ec =
     bindR
       (if drop_bit 1 ec AND 0x3 = 0 then Inr GDT
        else if drop_bit 1 ec AND 0x3 = 1 \<or> drop_bit 1 ec AND 0x3 = 3 then Inr IDT_table
        else if drop_bit 1 ec AND 0x3 = 2 then Inr LDT
        else Inl Unreachable)
       (\<lambda>tbl. Inr (ec AND 1 \<noteq> 0, tbl, drop_bit 3 ec AND 0x1ff))"

record idt_state =
  IDT :: "Entry list option"
  idtr :: "(u64 \<times> u16) option"
  int_flag :: bool

definition InterruptDescriptorTable_new :: "Entry list" where
  "InterruptDescriptorTable_new = replicate 64 Entry_empty"

definition set_handler :: "u16 \<Rightarrow> u8 \<Rightarrow> u64 \<Rightarrow> Entry list \<Rightarrow> Entry list res" where
  "set_handler sel entry ptr self =
     (if unat entry < length self then Inr (self[unat entry := Entry_new sel ptr])
      else Inl IndexOutOfBounds)"

text \<open>\<open>with_trap\<close> on the options that \<open>set_handler\<close> returns a reference to.\<close>

definition set_trap :: "u8 \<Rightarrow> bool \<Rightarrow> Entry list \<Rightarrow> Entry list" where
  "set_trap entry trapped self =
     self[unat entry := (self ! unat entry)\<lparr>opts := with_trap trapped (opts (self ! unat entry))\<rparr>]"

definition set_gate :: "u16 \<Rightarrow> u8 \<Rightarrow> u64 \<Rightarrow> bool \<Rightarrow> Entry list \<Rightarrow> Entry list res" where
  "set_gate sel entry ptr trapped self =
     bindR (set_handler sel entry ptr self) (\<lambda>idt. Inr (set_trap entry trapped idt))"

definition idt_load :: "u64 \<Rightarrow> idt_state \<Rightarrow> idt_state" where
  "idt_load base s = s\<lparr>idtr := Some (base, of_nat (64 * 16 - 1))\<rparr>"

definition load_handler :: "u16 \<Rightarrow> u8 \<Rightarrow> u64 \<Rightarrow> bool \<Rightarrow> idt_state \<Rightarrow> idt_state res" where
  "load_handler sel irq ptr trapping s =
     bindR (assertR (irq > 31)) (\<lambda>_.
     let reenable = int_flag s;
         s1 = s\<lparr>int_flag := False\<rparr> in
     case IDT s1 of
       None \<Rightarrow> Inl UninitUse
     | Some idt \<Rightarrow>
         bindR (set_gate sel irq ptr trapping idt) (\<lambda>idt'.
         let s2 = s1\<lparr>IDT := Some idt'\<rparr> in
         Inr (if reenable then s2\<lparr>int_flag := True\<rparr> else s2)))"

record idt_symbols =
  sym_IDT :: u64
  sym_breakpoint :: u64
  sym_inv_opcode :: u64
  sym_double_fault :: u64
  sym_tss_inv :: u64
  sym_snp :: u64
  sym_ss_fault :: u64
  sym_gp_fault :: u64
  sym_page_fault :: u64
  sym_lapic_clk_interrupt :: u64
  sym_pit_interrupt :: u64
  sym_rtc :: u64
  sym_hpet :: u64

definition idt_init :: "idt_symbols \<Rightarrow> u16 \<Rightarrow> idt_state \<Rightarrow> idt_state res" where
  "idt_init L sel s =
     bindR (set_gate sel 3 (sym_breakpoint L) False InterruptDescriptorTable_new) (\<lambda>t.
     bindR (set_gate sel 6 (sym_inv_opcode L) False t) (\<lambda>t.
     bindR (set_gate sel 8 (sym_double_fault L) True t) (\<lambda>t.
     bindR (set_gate sel 10 (sym_tss_inv L) True t) (\<lambda>t.
     bindR (set_gate sel 11 (sym_snp L) True t) (\<lambda>t.
     bindR (set_gate sel 12 (sym_ss_fault L) True t) (\<lambda>t.
     bindR (set_gate sel 13 (sym_gp_fault L) True t) (\<lambda>t.
     bindR (set_gate sel 14 (sym_page_fault L) True t) (\<lambda>t.
     bindR (set_handler sel IRQ_LAPIC_CLK (sym_lapic_clk_interrupt L) t) (\<lambda>t.
     bindR (set_handler sel IRQ_PIT (sym_pit_interrupt L) t) (\<lambda>t.
     bindR (set_handler sel IRQ_RTC (sym_rtc L) t) (\<lambda>t.
     bindR (set_handler sel IRQ_HPET (sym_hpet L) t) (\<lambda>t.
     Inr ((idt_load (sym_IDT L) (s\<lparr>IDT := Some t\<rparr>))\<lparr>int_flag := True\<rparr>)))))))))))))"

section \<open>How the processor reads a gate\<close>

text \<open>
  The processor takes the address of the handler from three fields, the present bit from
  bit 15 and the type from bits 8 to 11 of the options: 14 is an interrupt gate, which clears
  the interrupt flag, 15 a trap gate, which keeps it.
\<close>

definition gate_offset :: "Entry \<Rightarrow> u64" where
  "gate_offset e = ucast (ptr_low e) OR push_bit 16 (ucast (ptr_mid e)) OR push_bit 32 (ucast (ptr_top e))"

definition gate_type :: "Entry \<Rightarrow> u16" where
  "gate_type e = drop_bit 8 (opts e) AND 0xf"

text \<open>A gate that leads to a handler, as an interrupt or a trap gate with interrupt stack table 0.\<close>

definition leads_to :: "u16 \<Rightarrow> u64 \<Rightarrow> bool \<Rightarrow> Entry \<Rightarrow> bool" where
  "leads_to sel ptr trapped e \<longleftrightarrow>
     is_present (opts e) \<and> gate_offset e = ptr \<and> gdt_sel e = sel \<and>
     gate_type e = (if trapped then 15 else 14) \<and> opts e AND 7 = 0"

lemmas options_defs = Options_empty_def Options_new_def is_present_def is_trap_def with_trap_def

lemma gate_offset_new: "gate_offset (Entry_new sel ptr) = ptr"
proof (rule bit_word_eqI)
  fix n
  assume "n < LENGTH(64)"
  then show "bit (gate_offset (Entry_new sel ptr)) n = bit ptr n"
    by (cases "n < 32") (auto simp: gate_offset_def Entry_new_def bit_simps)
qed

lemma leads_to_new: "leads_to sel ptr False (Entry_new sel ptr)"
  using gate_offset_new [of sel ptr]
  by (simp add: leads_to_def gate_type_def Entry_new_def options_defs)

lemma leads_to_trap:
  "leads_to sel ptr b (Entry_new sel ptr\<lparr>opts := with_trap b (opts (Entry_new sel ptr))\<rparr>)"
  using gate_offset_new [of sel ptr]
  by (cases b) (simp_all add: leads_to_def gate_type_def gate_offset_def Entry_new_def options_defs)

lemma not_present_empty: "\<not> is_present (opts Entry_empty)"
  by (simp add: Entry_empty_def options_defs)

lemma set_gate_ok:
  "unat v < length t \<Longrightarrow> set_gate sel v ptr b t =
     Inr (t[unat v := Entry_new sel ptr\<lparr>opts := with_trap b (opts (Entry_new sel ptr))\<rparr>])"
  by (simp add: set_gate_def set_handler_def set_trap_def)

lemma set_handler_ok:
  "unat v < length t \<Longrightarrow> set_handler sel v ptr t = Inr (t[unat v := Entry_new sel ptr])"
  by (simp add: set_handler_def)

text \<open>The gates that \<open>init\<close> means to install.\<close>

definition idt_spec :: "idt_symbols \<Rightarrow> (nat \<times> u64 \<times> bool) list" where
  "idt_spec L =
     [(3, sym_breakpoint L, False), (6, sym_inv_opcode L, False), (8, sym_double_fault L, True),
      (10, sym_tss_inv L, True), (11, sym_snp L, True), (12, sym_ss_fault L, True),
      (13, sym_gp_fault L, True), (14, sym_page_fault L, True),
      (0x32, sym_lapic_clk_interrupt L, False), (0x33, sym_pit_interrupt L, False),
      (0x34, sym_rtc L, False), (0x35, sym_hpet L, False)]"

lemma idt_init_run:
  "\<exists>t. idt_init L sel s = Inr (s\<lparr>IDT := Some t, idtr := Some (sym_IDT L, 1023), int_flag := True\<rparr>) \<and>
    length t = 64 \<and>
    (\<forall>v<64. case map_of (idt_spec L) v of
        None \<Rightarrow> \<not> is_present (opts (t ! v))
      | Some (ptr, trapped) \<Rightarrow> leads_to sel ptr trapped (t ! v))"
  by (auto simp: idt_init_def idt_load_def set_gate_ok set_handler_ok InterruptDescriptorTable_new_def
      IRQ_LAPIC_CLK_def IRQ_PIT_def IRQ_RTC_def IRQ_HPET_def idt_spec_def leads_to_new leads_to_trap
      not_present_empty nth_list_update)

text \<open>
  C23. \<open>init\<close> does not panic, loads the table and enables interrupts. In the table every vector
  that the code names leads to its handler, by a present gate of the right type, and no other
  vector is present.
\<close>

theorem idt_init_gates:
  "\<exists>t. idt_init L sel s = Inr (s\<lparr>IDT := Some t, idtr := Some (sym_IDT L, 1023), int_flag := True\<rparr>) \<and>
    length t = 64 \<and>
    (\<forall>v<64. case map_of (idt_spec L) v of
        None \<Rightarrow> \<not> is_present (opts (t ! v))
      | Some (ptr, trapped) \<Rightarrow> leads_to sel ptr trapped (t ! v))"
  by (rule idt_init_run)

definition sample_idt :: idt_state where
  "sample_idt = \<lparr>IDT = Some InterruptDescriptorTable_new, idtr = None, int_flag = True\<rparr>"

definition sample_handlers :: idt_symbols where
  "sample_handlers = \<lparr>sym_IDT = 0x1000, sym_breakpoint = 0x2003, sym_inv_opcode = 0x2006,
     sym_double_fault = 0x2008, sym_tss_inv = 0x200a, sym_snp = 0x200b, sym_ss_fault = 0x200c,
     sym_gp_fault = 0x200d, sym_page_fault = 0x200e, sym_lapic_clk_interrupt = 0x2032,
     sym_pit_interrupt = 0x2033, sym_rtc = 0x2034, sym_hpet = 0x2035\<rparr>"

theorem idt_init_gates_witness:
  "\<exists>t. idt_init sample_handlers 8 sample_idt =
      Inr (sample_idt\<lparr>IDT := Some t, idtr := Some (0x1000, 1023), int_flag := True\<rparr>) \<and>
    leads_to 8 0x200e True (t ! 14) \<and> leads_to 8 0x2033 False (t ! 51) \<and> \<not> is_present (opts (t ! 9))"
proof -
  obtain t where t: "idt_init sample_handlers 8 sample_idt =
      Inr (sample_idt\<lparr>IDT := Some t, idtr := Some (0x1000, 1023), int_flag := True\<rparr>)"
    and g: "\<forall>v<64. case map_of (idt_spec sample_handlers) v of
        None \<Rightarrow> \<not> is_present (opts (t ! v))
      | Some (ptr, trapped) \<Rightarrow> leads_to 8 ptr trapped (t ! v)"
    using idt_init_gates [of sample_handlers 8 sample_idt] by (auto simp: sample_handlers_def)
  show ?thesis
    using spec [OF g, of 14] spec [OF g, of 51] spec [OF g, of 9]
    by (intro exI [of _ t] conjI [OF t]) (simp add: idt_spec_def sample_handlers_def)
qed

lemma load_handler_result:
  assumes "IDT s = Some t" "length t = 64"
  shows "if irq \<le> 31 then load_handler sel irq ptr trapping s = Inl AssertFailed
    else if 64 \<le> unat irq then load_handler sel irq ptr trapping s = Inl IndexOutOfBounds
    else \<exists>e. leads_to sel ptr trapping e \<and>
      load_handler sel irq ptr trapping s = Inr (s\<lparr>IDT := Some (t[unat irq := e])\<rparr>)"
proof -
  have r: "s\<lparr>int_flag := False, IDT := x, int_flag := True\<rparr> = s\<lparr>IDT := x\<rparr>" if "int_flag s" for x
    using that by (cases s) simp
  have r': "s\<lparr>int_flag := False, IDT := x\<rparr> = s\<lparr>IDT := x\<rparr>" if "\<not> int_flag s" for x
    using that by (cases s) simp
  have "load_handler sel irq ptr trapping s = Inl IndexOutOfBounds" if "\<not> irq \<le> 31" "64 \<le> unat irq"
    using that assms by (simp add: load_handler_def set_gate_def set_handler_def not_le)
  moreover have "load_handler sel irq ptr trapping s = Inr (s\<lparr>IDT := Some (t[unat irq :=
      Entry_new sel ptr\<lparr>opts := with_trap trapping (opts (Entry_new sel ptr))\<rparr>])\<rparr>)"
    if "\<not> irq \<le> 31" "\<not> 64 \<le> unat irq"
    using that assms by (simp add: load_handler_def set_gate_ok not_le Let_def r r')
  moreover have "load_handler sel irq ptr trapping s = Inl AssertFailed" if "irq \<le> 31"
    using that by (simp add: load_handler_def flip: not_less)
  ultimately show ?thesis using leads_to_trap by auto
qed

text \<open>
  \<open>load_handler\<close> replaces the gate of one vector and restores the interrupt flag; it panics
  for the vectors of the processor's exceptions and for those above the table.
\<close>

theorem load_handler_correct:
  assumes "IDT s = Some t" "length t = 64"
  shows "if irq \<le> 31 then load_handler sel irq ptr trapping s = Inl AssertFailed
    else if 64 \<le> unat irq then load_handler sel irq ptr trapping s = Inl IndexOutOfBounds
    else \<exists>e. leads_to sel ptr trapping e \<and>
      load_handler sel irq ptr trapping s = Inr (s\<lparr>IDT := Some (t[unat irq := e])\<rparr>)"
  by (rule load_handler_result [OF assms])

theorem load_handler_correct_witness:
  "\<exists>e. leads_to 8 0x5000 True e \<and>
    load_handler 8 IRQ_LAPIC_CLK 0x5000 True sample_idt =
      Inr (sample_idt\<lparr>IDT := Some (InterruptDescriptorTable_new[0x32 := e])\<rparr>)"
  using load_handler_correct [of sample_idt InterruptDescriptorTable_new IRQ_LAPIC_CLK 8 "0x5000" True]
  by (simp add: sample_idt_def InterruptDescriptorTable_new_def IRQ_LAPIC_CLK_def)

lemma ec_fault_report_eq:
  "ec_fault_report ec = Inr (bit ec 0, if bit ec 1 then IDT_table else if bit ec 2 then LDT else GDT,
     drop_bit 3 ec AND 0x1ff)"
  "unat (drop_bit 3 ec AND 0x1ff) = (unat ec div 8) mod 512"
proof -
  have m: "(3::u64) = mask 2" "(0x1ff::u64) = mask 9" "(1::u64) = mask 1"
    by (simp_all add: mask_eq_exp_minus_1)
  have sel: "drop_bit 1 ec AND 3 = (if bit ec 1 then 1 else 0) OR (if bit ec 2 then 2 else 0)"
    unfolding m(1) by (rule bit_word_eqI) (auto simp: bit_simps less_Suc_eq numeral_2_eq_2)
  have ext: "ec AND 1 \<noteq> 0 \<longleftrightarrow> bit ec 0" by (simp add: and_one_eq bit_0 mod_2_eq_odd)
  show "unat (drop_bit 3 ec AND 0x1ff) = (unat ec div 8) mod 512"
    unfolding m(2) take_bit_eq_mask [symmetric]
    by (simp add: take_bit_eq_mod drop_bit_eq_div unat_div_distrib unat_mod_distrib)
  show "ec_fault_report ec = Inr (bit ec 0,
      if bit ec 1 then IDT_table else if bit ec 2 then LDT else GDT, drop_bit 3 ec AND 0x1ff)"
    unfolding ec_fault_report_def sel ext by (cases "bit ec 1"; cases "bit ec 2") simp_all
qed

text \<open>
  The report of a fault's error code never reaches the unreachable branch, names the table
  the code's bits 1 and 2 select and gives the index of the selector exactly when it is below
  512; the mask drops the upper four of its thirteen bits.
\<close>

lemma ec_fault_report_index:
  "\<exists>ext tbl i. ec_fault_report ec = Inr (ext, tbl, i) \<and> (ext \<longleftrightarrow> bit ec 0) \<and>
    (tbl = GDT \<longleftrightarrow> \<not> bit ec 1 \<and> \<not> bit ec 2) \<and> (tbl = LDT \<longleftrightarrow> \<not> bit ec 1 \<and> bit ec 2) \<and>
    unat i = (unat ec div 8) mod 512 \<and> (unat i = unat ec div 8 \<longleftrightarrow> ec < 2 ^ 12)"
proof -
  have "x mod 512 = x \<longleftrightarrow> x < 512" for x :: nat by (metis mod_less mod_less_divisor zero_less_numeral)
  then have "(unat ec div 8) mod 512 = unat ec div 8 \<longleftrightarrow> unat ec div 8 < 512" .
  also have "\<dots> \<longleftrightarrow> ec < 2 ^ 12" by (simp add: div_less_iff_less_mult word_less_nat_alt)
  finally have "unat (drop_bit 3 ec AND 0x1ff) = unat ec div 8 \<longleftrightarrow> ec < 2 ^ 12" unfolding ec_fault_report_eq(2) .
  then show ?thesis
    by - (rule exI, rule exI, rule exI, rule conjI [OF ec_fault_report_eq(1)], simp add: ec_fault_report_eq(2))
qed

section \<open>The wrappers\<close>

text \<open>What follows the call in a wrapper.\<close>

fun after_call :: "instr list \<Rightarrow> instr list" where
  "after_call [] = []"
| "after_call (Call f # is) = is"
| "after_call (i # is) = after_call is"

text \<open>
  The calling convention of a Rust function with the C ABI: it returns with the stack pointer
  above the return address and the callee-saved registers kept, and does not write to the
  interrupt frame above it.
\<close>

definition c_returns :: "machine \<Rightarrow> machine \<Rightarrow> bool" where
  "c_returns m1 m2 \<longleftrightarrow>
     gpr m2 RSP = gpr m1 RSP + 8 \<and> (\<forall>r\<in>{RBX, RBP, R12, R13, R14, R15}. gpr m2 r = gpr m1 r) \<and>
     (\<forall>b\<in>window (gpr m1 RSP + 8) 5. mem m2 b = mem m1 b)"

lemma aligned_minus_48: "take_bit 4 (a :: u64) = 0 \<Longrightarrow> take_bit 4 (a - 48) = 0"
proof -
  assume "take_bit 4 a = 0"
  then have "take_bit 4 (uint a) = 0" by (metis unsigned_take_bit_eq uint_0_eq)
  then have "take_bit 4 (uint a - 48) = 0" using take_bit_diff [of 4 "uint a" 48] by simp
  then have "uint (take_bit 4 (a - 48)) = 0"
    by (simp add: unsigned_take_bit_eq uint_sub_lem uint_word_arith_bintrs)
  then show ?thesis by (simp add: word_uint_eq_iff)
qed

text \<open>
  C35. The wrapper of the real time clock and of the HPET. The Rust handler gets the address of
  the interrupt frame; when it has returned, the wrapper signals the end of the interrupt and
  the interrupted code continues where it was, with its flags and stack pointer. But the
  wrapper saves no register: rax is 0 and the other scratch registers are what the handler
  left, and the handler is entered on a stack that is off by 8 from the alignment the C ABI
  asks for.
\<close>

theorem handler_from_lapic_clobbers:
  fixes m :: machine
  assumes "a = gpr m RSP AND NOT 15" "eoi = of_nat LAPIC_EOI_ADDR" "eoi \<notin> window (a - 40) 5"
  shows "\<exists>m1. exec (handler_from_lapic f) (interrupt False h m) = Transferred m1 \<and>
    rip m1 = f \<and> gpr m1 RDI = a - 40 \<and> frame_at (a - 40) (iret_frame m) (mem m1) \<and>
    gpr m1 RSP AND 15 = 0 \<and>
    (\<forall>m2. c_returns m1 m2 \<longrightarrow>
      exec (after_call (handler_from_lapic f)) m2 = Transferred (m2\<lparr>rip := rip m, cs := cs m,
        rflags := rflags m, ss := ss m, gpr := (gpr m2)(RAX := 0, RSP := gpr m RSP),
        mem := (mem m2)(eoi := 0)\<rparr>))"
proof -
  let ?i = "interrupt False h m"
  note int = interrupt_run [where m = m and trap = False and h = h, folded assms(1)]
  let ?m1 = "(push (rip ?i) (set_reg RDI (a - 40) ?i))\<lparr>rip := f\<rparr>"
  have e: "exec (handler_from_lapic f) ?i = Transferred ?m1"
    by (simp add: handler_from_lapic_def int(1))
  have r: "gpr ?m1 RSP = a - 48" "gpr ?m1 RDI = a - 40" "rip ?m1 = f" by (simp_all add: int(1))
  have "a - 48 \<notin> window (a - 40) 5" using windows_disjoint [of 1 5 "a - 48"]
    by (simp add: window_Suc)
  then have fr: "frame_at (a - 40) (iret_frame m) (mem ?m1)"
    using int(2) by (simp add: int(1))
  have al: "gpr ?m1 RSP AND 15 = 0"
  proof -
    have "(15::u64) = mask 4" by (simp add: mask_eq_exp_minus_1)
    moreover have "take_bit 4 a = 0"
      unfolding assms(1) calculation by (rule bit_word_eqI) (simp add: bit_simps)
    then have "take_bit 4 (a - 48) = 0" by (rule aligned_minus_48)
    ultimately show ?thesis unfolding r by (simp add: take_bit_eq_mask)
  qed
  have "exec (after_call (handler_from_lapic f)) m2 = Transferred (m2\<lparr>rip := rip m, cs := cs m,
      rflags := rflags m, ss := ss m, gpr := (gpr m2)(RAX := 0, RSP := gpr m RSP),
      mem := (mem m2)(eoi := 0)\<rparr>)" if "c_returns ?m1 m2" for m2
  proof -
    let ?m3 = "(set_reg RAX 0 m2)\<lparr>mem := (mem m2)(eoi := 0)\<rparr>"
    have sp: "gpr m2 RSP = a - 40" "\<forall>b\<in>window (a - 40) 5. mem m2 b = mem ?m1 b"
      using that unfolding c_returns_def r by simp_all
    have "frame_at (a - 40) (iret_frame m) (mem m2)"
      using fr by (subst frame_at_window_cong [OF sp(2)]) (simp_all only: length_iret_frame)
    then have "frame_at (gpr ?m3 RSP) (iret_frame m) (mem ?m3)" using assms(3) sp(1) by simp
    then have "exec [Iretq] ?m3 = Transferred (?m3\<lparr>rip := rip m, cs := cs m, rflags := rflags m,
        gpr := (gpr ?m3)(RSP := gpr m RSP), ss := ss m\<rparr>)"
      unfolding iret_frame_def by (rule exec_iretq)
    moreover have "exec (after_call (handler_from_lapic f)) m2 = exec [Iretq] ?m3"
      by (simp add: handler_from_lapic_def assms(2) LAPIC_EOI_ADDR_def EOI_OFFSET_def set_reg_def)
    ultimately show ?thesis by (simp add: set_reg_def)
  qed
  then show ?thesis using e r fr al by blast
qed

definition sample_interrupted :: machine where
  "sample_interrupted = \<lparr>gpr = (\<lambda>r. 7)(RSP := 0x9000), rip = 0x6000, cs = 8, ss = 16, rflags = 0x202,
     mem = (\<lambda>a. 0)\<rparr>"

theorem handler_from_lapic_clobbers_witness:
  "\<exists>m1 m2 m3. exec (handler_from_lapic 0x4000) (interrupt False 0x3000 sample_interrupted) = Transferred m1 \<and>
    c_returns m1 m2 \<and> exec (after_call (handler_from_lapic 0x4000)) m2 = Transferred m3 \<and>
    gpr sample_interrupted RAX = 7 \<and> gpr m3 RAX = 0 \<and> rip m3 = 0x6000"
proof -
  have h: "0x9000 = gpr sample_interrupted RSP AND NOT 15" "(0x1f10000000b0 :: u64) = of_nat LAPIC_EOI_ADDR"
    "(0x1f10000000b0 :: u64) \<notin> window (0x9000 - 40) 5"
    by (simp_all add: sample_interrupted_def LAPIC_EOI_ADDR_def LAPIC_ADDR_def EOI_OFFSET_def
        window_def lessThan_nat_numeral lessThan_Suc)
  from handler_from_lapic_clobbers [OF h, of "0x4000" "0x3000"] obtain m1 where m1:
    "exec (handler_from_lapic 0x4000) (interrupt False 0x3000 sample_interrupted) = Transferred m1"
    and k: "\<And>m2. c_returns m1 m2 \<Longrightarrow>
      exec (after_call (handler_from_lapic 0x4000)) m2 = Transferred (m2\<lparr>rip := rip sample_interrupted,
        cs := cs sample_interrupted, rflags := rflags sample_interrupted, ss := ss sample_interrupted,
        gpr := (gpr m2)(RAX := 0, RSP := gpr sample_interrupted RSP),
        mem := (mem m2)(0x1f10000000b0 := 0)\<rparr>)"
    by blast
  let ?m2 = "m1\<lparr>gpr := (gpr m1)(RSP := gpr m1 RSP + 8)\<rparr>"
  have c: "c_returns m1 ?m2" by (simp add: c_returns_def)
  obtain m3 where m3: "exec (after_call (handler_from_lapic 0x4000)) ?m2 = Transferred m3"
    "gpr m3 RAX = 0" "rip m3 = 0x6000"
    using k [OF c] by (simp add: sample_interrupted_def)
  have "gpr sample_interrupted RAX = 7" by (simp add: sample_interrupted_def)
  with m1 c m3 show ?thesis by blast
qed

end
