(* ===== verification/Format.thy ===== *)
theory Format
  imports Prelude
begin

text \<open>
  The number formats of \<^verbatim>\<open>core::fmt\<close> that the kernel prints with: \<^verbatim>\<open>{}\<close>, \<^verbatim>\<open>{:x}\<close>, \<^verbatim>\<open>{:016x}\<close> and
  the like. Formats with a minimal width pad on the left, with zeros or spaces, and never cut.
  What is printed can be read back.
\<close>

definition digit :: "nat \<Rightarrow> char" where
  "digit d = ''0123456789abcdef'' ! (d mod 16)"

fun digits :: "nat \<Rightarrow> nat \<Rightarrow> string" where
  "digits b n = (if b < 2 \<or> n < b then [digit n] else digits b (n div b) @ [digit (n mod b)])"

declare digits.simps [simp del]

definition dec :: "nat \<Rightarrow> string" where
  "dec n = digits 10 n"

definition hex :: "nat \<Rightarrow> string" where
  "hex n = digits 16 n"

definition pad :: "char \<Rightarrow> nat \<Rightarrow> string \<Rightarrow> string" where
  "pad c w s = replicate (w - length s) c @ s"

text \<open>\<^verbatim>\<open>{:016x}\<close> and \<^verbatim>\<open>{:08x}\<close> with the prefix the format strings write.\<close>

definition hex_field :: "nat \<Rightarrow> 'a::len word \<Rightarrow> string" where
  "hex_field w v = ''0x'' @ pad CHR ''0'' w (hex (unat v))"

section \<open>Reading numbers back\<close>

definition digit_value :: "char \<Rightarrow> nat" where
  "digit_value c = (let n = of_char c in if n < 58 then n - 48 else n - 87)"

definition number :: "nat \<Rightarrow> string \<Rightarrow> nat" where
  "number b s = foldl (\<lambda>n c. n * b + digit_value c) 0 s"

lemma digit_value_digit [simp]: "digit_value (digit d) = d mod 16"
proof -
  have "\<forall>k<16. digit_value (''0123456789abcdef'' ! k) = k"
    by (simp add: All_less_Suc2 numeral_eq_Suc digit_value_def Let_def)
  then show ?thesis by (simp add: digit_def)
qed

lemma number_snoc: "number b (s @ [c]) = number b s * b + digit_value c"
  by (simp add: number_def)

lemma number_digits: "2 \<le> b \<Longrightarrow> b \<le> 16 \<Longrightarrow> number b (digits b n) = n"
proof (induction b n rule: digits.induct)
  case (1 b n)
  show ?case
  proof (cases "n < b")
    case True
    then show ?thesis using "1.prems" by (simp add: digits.simps number_def)
  next
    case False
    have "n mod b < b" using "1.prems"(1) by simp
    then have "n mod b mod 16 = n mod b" using "1.prems"(2) by simp
    then show ?thesis using False 1 by (simp add: digits.simps [of b n] number_snoc)
  qed
qed

lemma number_zeros: "number b (replicate k CHR ''0'' @ s) = number b s"
  by (induction k) (simp_all add: number_def digit_value_def Let_def)

lemma number_pad: "number b (pad CHR ''0'' w s) = number b s"
  unfolding pad_def by (rule number_zeros)

lemma dec_inj: "dec m = dec n \<longleftrightarrow> m = n"
proof
  assume "dec m = dec n"
  then have "number 10 (digits 10 m) = number 10 (digits 10 n)" unfolding dec_def by (rule arg_cong)
  then show "m = n" by (simp add: number_digits)
qed simp

lemma digits_ne [simp]: "digits b n \<noteq> []"
  by (simp add: digits.simps)

lemma digit_in: "digit d \<in> set ''0123456789abcdef''"
  unfolding digit_def by (rule nth_mem) simp

lemma set_digits: "set (digits b n) \<subseteq> set ''0123456789abcdef''"
proof (induction b n rule: digits.induct)
  case (1 b n)
  then show ?case using digit_in by (cases "b < 2 \<or> n < b") (auto simp: digits.simps [of b n])
qed

text \<open>How long a number is.\<close>

lemma length_digits: "2 \<le> b \<Longrightarrow> n < b ^ Suc k \<Longrightarrow> length (digits b n) \<le> Suc k"
proof (induction k arbitrary: n)
  case 0
  then show ?case by (simp add: digits.simps)
next
  case (Suc k)
  have "n div b < b ^ Suc k" using Suc.prems by (simp add: less_mult_imp_div_less mult.commute)
  then show ?case using Suc.IH Suc.prems(1) by (simp add: digits.simps [of b n])
qed

lemma length_hex_u64: "length (pad CHR ''0'' 16 (hex (unat (v :: u64)))) = 16"
proof -
  have "unat v < 16 ^ Suc 15" using unsigned_less [of v] by simp
  then have "length (hex (unat v)) \<le> 16" unfolding hex_def using length_digits [of 16 "unat v" 15] by simp
  then show ?thesis by (simp add: pad_def)
qed

lemma length_hex_field [simp]: "length (hex_field 16 (v :: u64)) = 18"
  by (simp add: hex_field_def length_hex_u64)

lemma hex_field_inj: "hex_field w v = hex_field w u \<longleftrightarrow> v = u" for v u :: "'a::len word"
proof
  assume "hex_field w v = hex_field w u"
  then have "number 16 (hex (unat v)) = number 16 (hex (unat u))"
    by (auto simp: hex_field_def dest: arg_cong [of _ _ "number 16"] simp: number_pad)
  then show "v = u" by (simp add: hex_def number_digits unsigned_word_eqI)
qed simp

text \<open>Splitting a text at the first occurrence of a separator.\<close>

lemma split_at_sep:
  assumes "c \<notin> set s" "c \<notin> set t" "s @ c # x = t @ c # y"
  shows "s = t \<and> x = y"
  using assms
proof (induction s arbitrary: t)
  case Nil
  then show ?case by (cases t) auto
next
  case (Cons a s)
  then show ?case by (cases t) auto
qed

lemma dec_no_sep: "c \<notin> set ''0123456789abcdef'' \<Longrightarrow> c \<notin> set (dec n)"
  unfolding dec_def using set_digits [of 10 n] by (rule contra_subsetD)

lemma dec_split: "c \<notin> set ''0123456789abcdef'' \<Longrightarrow> dec m @ c # x = dec n @ c # y \<longleftrightarrow> m = n \<and> x = y"
  using split_at_sep [OF dec_no_sep dec_no_sep] dec_inj [of m n] by metis

end
