(* ===== verification/Acpi.thy ===== *)
theory Acpi
  imports Bitfields X86_Crate Format
begin

text \<open>
  The ACPI tables of \<^verbatim>\<open>acpi.rs\<close>, \<^verbatim>\<open>acpi/madt.rs\<close> and \<^verbatim>\<open>acpi/hpet.rs\<close>: the tables and the interrupt
  controller records of the MADT as they lie in memory, the iterator over the records, the handles
  of the tables and their printers. The look-up and the reference counts of the tables are in the
  uACPI library, which is a parameter with a contract.

  The iterator is a coroutine that reads one record per step, so it is modelled as a lazy
  sequence, which may be infinite.
\<close>

section \<open>The code\<close>

type_synonym bytes = "nat \<Rightarrow> u8"

definition read16 :: "bytes \<Rightarrow> nat \<Rightarrow> u16" where
  "read16 m a = ucast (m a) OR push_bit 8 (ucast (m (a + 1)))"

definition read32 :: "bytes \<Rightarrow> nat \<Rightarrow> u32" where
  "read32 m a = ucast (read16 m a) OR push_bit 16 (ucast (read16 m (a + 2)))"

definition read64 :: "bytes \<Rightarrow> nat \<Rightarrow> u64" where
  "read64 m a = ucast (read32 m a) OR push_bit 32 (ucast (read32 m (a + 4)))"

text \<open>\<^verbatim>\<open>Header\<close> and \<^verbatim>\<open>MADT\<close> are \<^verbatim>\<open>repr(C)\<close>: 36 and 44 bytes, with the length at offset 4.\<close>

record Header =
  signature :: "u8 list"
  hdr_length :: u32
  revision :: u8
  checksum :: u8
  oemid :: "u8 list"
  oem_table_id :: "u8 list"
  oem_revision :: u32
  creator_id :: u32
  creator_revision :: u32

definition Header_length :: "bytes \<Rightarrow> nat \<Rightarrow> u32" where
  "Header_length m self = read32 m (self + 4)"

definition Header_at :: "bytes \<Rightarrow> nat \<Rightarrow> Header" where
  "Header_at m self =
     \<lparr>signature = map m [self..<self + 4], hdr_length = Header_length m self, revision = m (self + 8),
      checksum = m (self + 9), oemid = map m [self + 10..<self + 16],
      oem_table_id = map m [self + 16..<self + 24], oem_revision = read32 m (self + 24),
      creator_id = read32 m (self + 28), creator_revision = read32 m (self + 32)\<rparr>"

definition utf8 :: "u8 list \<Rightarrow> string" where
  "utf8 bs = map (\<lambda>b. char_of (unat b)) bs"

definition Header_fmt :: "Header \<Rightarrow> string" where
  "Header_fmt self =
     ''Header { signature: \"'' @ utf8 (signature self) @ ''\", length: '' @ dec (unat (hdr_length self)) @
     '', revision: '' @ dec (unat (revision self)) @ '', checksum: '' @ dec (unat (checksum self)) @
     '', oemid: \"'' @ utf8 (oemid self) @ ''\", oem_table_id: \"'' @ utf8 (oem_table_id self) @
     ''\", oem_revision: '' @ dec (unat (oem_revision self)) @ '', creator_id: '' @ dec (unat (creator_id self)) @
     '', creator_revision: '' @ dec (unat (creator_revision self)) @ '' }''"

record MADT =
  madt_header :: Header
  lapic_addr :: u32
  madt_flags :: u32

definition size_of_MADT :: nat where
  "size_of_MADT = 44"

definition MADT_at :: "bytes \<Rightarrow> nat \<Rightarrow> MADT" where
  "MADT_at m self = \<lparr>madt_header = Header_at m self, lapic_addr = read32 m (self + 36), madt_flags = read32 m (self + 40)\<rparr>"

definition has_legacy_pics :: "u32 bitfield_ops \<Rightarrow> u32 \<Rightarrow> bool" where
  "has_legacy_pics P flags \<longleftrightarrow> get_bits P flags 0 0 \<noteq> 0"

definition is_enabled :: "u32 bitfield_ops \<Rightarrow> u32 \<Rightarrow> bool" where
  "is_enabled P flags \<longleftrightarrow> get_bits P flags 0 0 \<noteq> 0"

definition is_online_capable :: "u32 bitfield_ops \<Rightarrow> u32 \<Rightarrow> bool" where
  "is_online_capable P flags \<longleftrightarrow> get_bits P flags 1 1 \<noteq> 0"

datatype ApicIRQPolarity = PNoOverride | ActiveHi | PReserved | ActiveLo

datatype ApicIRQTrigger = TNoOverride | Edge | TReserved | Level

definition polarity :: "u16 \<Rightarrow> ApicIRQPolarity res" where
  "polarity flags =
     bindR (cenum_bit_range flags 1 0) (\<lambda>v::u16.
     if v = 0 then Inr PNoOverride else if v = 1 then Inr ActiveHi
     else if v = 2 then Inr PReserved else if v = 3 then Inr ActiveLo else Inl Unreachable)"

definition trigger :: "u16 \<Rightarrow> ApicIRQTrigger res" where
  "trigger flags =
     bindR (cenum_bit_range flags 3 2) (\<lambda>v::u16.
     if v = 0 then Inr TNoOverride else if v = 1 then Inr Edge
     else if v = 2 then Inr TReserved else if v = 3 then Inr Level else Inl Unreachable)"

record LocalApicEntry =
  lae_acpi_processor_id :: u8
  lae_apic_id :: u8
  lae_flags :: u32

record IOApicEntry =
  ioe_apic_id :: u8
  ioe_address :: u32
  ioe_gsi_base :: u32

record IOApicOverrideEntry =
  bus_source :: u8
  irq_source :: u8
  gsi :: u32
  ovr_flags :: u16

record IOApicNonmaskableEntry =
  nmi_source :: u8
  ion_flags :: u16
  ion_gsi :: u32

record LocalApicNonmaskableEntry =
  lan_acpi_processor_id :: u8
  lan_flags :: u16
  lint :: u8

record LocalApicOverrideEntry =
  lao_addr :: u64

record Localx2ApicEntry =
  x2apic_id :: u32
  x2_flags :: u32
  acpi_id :: u32

datatype MADTEntry =
    LocalApic LocalApicEntry
  | IOApic IOApicEntry
  | IOApicOverride IOApicOverrideEntry
  | IOApicNonmaskable IOApicNonmaskableEntry
  | LocalApicNonmaskable LocalApicNonmaskableEntry
  | LocalApicOverride LocalApicOverrideEntry
  | Localx2Apic Localx2ApicEntry

text \<open>
  The entry at an address: the offsets are those of \<^verbatim>\<open>repr(C, packed(2))\<close>, which aligns the
  fields of more than one byte, and so the entries, to 2.
\<close>

definition madt_entry :: "bytes \<Rightarrow> nat \<Rightarrow> MADTEntry res" where
  "madt_entry m ptr =
     (let entry_type = m ptr in
      if entry_type = 0 then ref_to 2 ptr (LocalApic \<lparr>lae_acpi_processor_id = m (ptr + 2),
        lae_apic_id = m (ptr + 3), lae_flags = read32 m (ptr + 4)\<rparr>)
      else if entry_type = 1 then ref_to 2 ptr (IOApic \<lparr>ioe_apic_id = m (ptr + 2),
        ioe_address = read32 m (ptr + 4), ioe_gsi_base = read32 m (ptr + 8)\<rparr>)
      else if entry_type = 2 then ref_to 2 ptr (IOApicOverride \<lparr>bus_source = m (ptr + 2),
        irq_source = m (ptr + 3), gsi = read32 m (ptr + 4), ovr_flags = read16 m (ptr + 8)\<rparr>)
      else if entry_type = 3 then ref_to 2 ptr (IOApicNonmaskable \<lparr>nmi_source = m (ptr + 2),
        ion_flags = read16 m (ptr + 4), ion_gsi = read32 m (ptr + 6)\<rparr>)
      else if entry_type = 4 then ref_to 2 ptr (LocalApicNonmaskable \<lparr>lan_acpi_processor_id = m (ptr + 2),
        lan_flags = read16 m (ptr + 4), lint = m (ptr + 6)\<rparr>)
      else if entry_type = 5 then ref_to 2 ptr (LocalApicOverride \<lparr>lao_addr = read64 m (ptr + 4)\<rparr>)
      else if entry_type = 9 then ref_to 2 ptr (Localx2Apic \<lparr>x2apic_id = read32 m (ptr + 2),
        x2_flags = read32 m (ptr + 6), acpi_id = read32 m (ptr + 10)\<rparr>)
      else Inl Unimplemented)"

codatatype 'a iter = Done | Panics panic | Yield 'a "'a iter"

primcorec entries_from :: "bytes \<Rightarrow> nat \<Rightarrow> nat \<Rightarrow> MADTEntry iter" where
  "entries_from m eptr ptr =
     (if ptr < eptr then
        case madt_entry m ptr of
          Inl e \<Rightarrow> Panics e
        | Inr x \<Rightarrow> Yield x (entries_from m eptr (ptr + unat (m (ptr + 1))))
      else Done)"

definition madt_entries :: "bytes \<Rightarrow> nat \<Rightarrow> MADTEntry iter" where
  "madt_entries m self = entries_from m (self + unat (Header_length m self)) (self + size_of_MADT)"

datatype AddressSpace = Memory | IO

text \<open>\<^verbatim>\<open>Address\<close> and \<^verbatim>\<open>hpet::HPET\<close> are packed: the address structure lies at offset 40 of the table.\<close>

record Address =
  address_space :: u8
  reg_bit_width :: u8
  reg_bit_offset :: u8
  addr_reserved :: u8
  gas_address :: u64

definition Address_at :: "bytes \<Rightarrow> nat \<Rightarrow> Address" where
  "Address_at m self = \<lparr>address_space = m self, reg_bit_width = m (self + 1), reg_bit_offset = m (self + 2),
     addr_reserved = m (self + 3), gas_address = read64 m (self + 4)\<rparr>"

definition pci_vendor_id :: "u32 bitfield_ops \<Rightarrow> u32 \<Rightarrow> u16" where
  "pci_vendor_id P flags = ucast (get_bits P flags 31 16)"

definition can_use_legreg :: "u32 bitfield_ops \<Rightarrow> u32 \<Rightarrow> bool" where
  "can_use_legreg P flags \<longleftrightarrow> get_bits P flags 15 15 \<noteq> 0"

definition counter_size :: "u32 bitfield_ops \<Rightarrow> u32 \<Rightarrow> u8" where
  "counter_size P flags = ucast (get_bits P flags 13 13)"

definition num_comparators :: "u32 bitfield_ops \<Rightarrow> u32 \<Rightarrow> u8" where
  "num_comparators P flags = ucast (get_bits P flags 12 8)"

definition hardware_rev_id :: "u32 bitfield_ops \<Rightarrow> u32 \<Rightarrow> u8" where
  "hardware_rev_id P flags = ucast (get_bits P flags 7 0)"

record HPETTable =
  hpet_header :: Header
  hpet_flags :: u32
  hpet_address :: Address
  hpet_number :: u8
  minimum_tick :: u16
  page_protection :: u8

definition hpet_at :: "bytes \<Rightarrow> nat \<Rightarrow> HPETTable" where
  "hpet_at m self =
     \<lparr>hpet_header = Header_at m self, hpet_flags = read32 m (self + 36), hpet_address = Address_at m (self + 40),
      hpet_number = m (self + 52), minimum_tick = read16 m (self + 53), page_protection = m (self + 55)\<rparr>"

text \<open>The printers of the flags and of the address come from the crate and from \<^verbatim>\<open>derive\<close>.\<close>

definition HPET_fmt :: "(u32 \<Rightarrow> string) \<Rightarrow> (Address \<Rightarrow> string) \<Rightarrow> HPETTable \<Rightarrow> string" where
  "HPET_fmt flags_fmt address_fmt self =
     ''HPET { flags: '' @ flags_fmt (hpet_flags self) @ '', address: '' @ address_fmt (hpet_address self) @
     '', hpet_number: '' @ dec (unat (hpet_number self)) @ '', minimum_tick: '' @ dec (unat (minimum_tick self)) @
     '', page_protection: '' @ dec (unat (page_protection self)) @ '' }''"

text \<open>
  The tables of the uACPI library: the look-up by signature, which takes a reference on the table
  it finds, and the release of a reference.
\<close>

record uacpi_table =
  virt_addr :: nat
  table_index :: nat

record 'u acpi_ops =
  find_by_signature :: "string \<Rightarrow> 'u \<Rightarrow> uacpi_table option \<times> 'u"
  table_unref :: "uacpi_table \<Rightarrow> 'u \<Rightarrow> 'u"

text \<open>
  The code does not look at the status of the look-up: without a table, the handle is made of
  uninitialised memory.
\<close>

definition madt_table :: "'u acpi_ops \<Rightarrow> 'u \<Rightarrow> (uacpi_table \<times> 'u) res" where
  "madt_table U u =
     (case find_by_signature U ''APIC'' u of (None, _) \<Rightarrow> Inl UninitUse | (Some t, u1) \<Rightarrow> Inr (t, u1))"

definition hpet_table :: "'u acpi_ops \<Rightarrow> 'u \<Rightarrow> (uacpi_table \<times> 'u) res" where
  "hpet_table U u =
     (case find_by_signature U ''HPET'' u of (None, _) \<Rightarrow> Inl UninitUse | (Some t, u1) \<Rightarrow> Inr (t, u1))"

definition MADTHandle_as_ref :: "x86_ops \<Rightarrow> uacpi_table \<Rightarrow> nat res" where
  "MADTHandle_as_ref X self = bindR (va_new X (virt_addr self)) (\<lambda>addr. ref_to 4 addr addr)"

definition HPETHandle_as_ref :: "x86_ops \<Rightarrow> uacpi_table \<Rightarrow> nat res" where
  "HPETHandle_as_ref X self = bindR (va_new X (virt_addr self)) (\<lambda>addr. ref_to 1 addr addr)"

definition MADTHandle_drop :: "'u acpi_ops \<Rightarrow> uacpi_table \<Rightarrow> 'u \<Rightarrow> 'u" where
  "MADTHandle_drop U self = table_unref U self"

definition HPETHandle_drop :: "'u acpi_ops \<Rightarrow> uacpi_table \<Rightarrow> 'u \<Rightarrow> 'u" where
  "HPETHandle_drop U self = table_unref U self"

definition init_acpi :: "nat \<Rightarrow> unit option" where
  "init_acpi status = (if status = 0 then Some () else None)"

section \<open>The uACPI library\<close>

text \<open>
  What the documentation of uACPI says of references: a successful look-up takes one on the table,
  a failed one changes nothing, and \<^verbatim>\<open>uacpi_table_unref\<close> gives one back.
\<close>

locale acpi_library =
  fixes U :: "'u acpi_ops" and refs :: "'u \<Rightarrow> nat \<Rightarrow> nat"
  assumes find_found: "find_by_signature U sg u = (Some t, u') \<Longrightarrow>
      refs u' = (refs u)(table_index t := Suc (refs u (table_index t)))"
    and find_missing: "find_by_signature U sg u = (None, u') \<Longrightarrow> refs u' = refs u"
    and unref: "refs (table_unref U t u) = (refs u)(table_index t := refs u (table_index t) - 1)"
begin

text \<open>A handle that goes out of scope leaves the counts as they were before the look-up.\<close>

lemma hpet_handle_balanced:
  assumes "hpet_table U u = Inr (t, u1)"
  shows "refs (HPETHandle_drop U t u1) = refs u" "refs u1 = (refs u)(table_index t := Suc (refs u (table_index t)))"
proof -
  show r: "refs u1 = (refs u)(table_index t := Suc (refs u (table_index t)))"
    using assms find_found by (auto simp: hpet_table_def split: prod.splits option.splits)
  show "refs (HPETHandle_drop U t u1) = refs u" by (simp add: HPETHandle_drop_def unref r)
qed

lemma madt_handle_held:
  assumes "madt_table U u = Inr (t, u1)"
  shows "refs u1 = (refs u)(table_index t := Suc (refs u (table_index t)))" "refs (MADTHandle_drop U t u1) = refs u"
proof -
  show r: "refs u1 = (refs u)(table_index t := Suc (refs u (table_index t)))"
    using assms find_found by (auto simp: madt_table_def split: prod.splits option.splits)
  show "refs (MADTHandle_drop U t u1) = refs u" by (simp add: MADTHandle_drop_def unref r)
qed

end

text \<open>Tables by signature and their counts.\<close>

type_synonym doc_acpi = "(string \<times> uacpi_table) list \<times> (nat \<Rightarrow> nat)"

definition doc_uacpi :: "doc_acpi acpi_ops" where
  "doc_uacpi = \<lparr>find_by_signature = (\<lambda>sg (ts, n). case map_of ts sg of None \<Rightarrow> (None, ts, n)
       | Some t \<Rightarrow> (Some t, ts, n(table_index t := Suc (n (table_index t))))),
     table_unref = (\<lambda>t (ts, n). (ts, n(table_index t := n (table_index t) - 1)))\<rparr>"

interpretation docu: acpi_library doc_uacpi snd
  by unfold_locales (auto simp: doc_uacpi_def split: option.splits prod.splits)

section \<open>Records in memory\<close>

text \<open>A record: its type and the bytes after the two bytes of its header.\<close>

type_synonym madt_record = "u8 \<times> u8 list"

definition known_type :: "u8 \<Rightarrow> bool" where
  "known_type t \<longleftrightarrow> t \<in> {0, 1, 2, 3, 4, 5, 9}"

definition record_size :: "madt_record \<Rightarrow> nat" where
  "record_size r = 2 + length (snd r)"

definition record_bytes :: "madt_record \<Rightarrow> u8 list" where
  "record_bytes r = fst r # of_nat (record_size r) # snd r"

definition holds_bytes :: "bytes \<Rightarrow> nat \<Rightarrow> u8 list \<Rightarrow> bool" where
  "holds_bytes m a bs \<longleftrightarrow> (\<forall>i<length bs. m (a + i) = bs ! i)"

text \<open>The sequence a list of records stands for, read at the address where they lie.\<close>

fun iter_of :: "bytes \<Rightarrow> nat \<Rightarrow> madt_record list \<Rightarrow> MADTEntry iter" where
  "iter_of m ptr [] = Done"
| "iter_of m ptr (r # rs) =
     (case madt_entry m ptr of
        Inl e \<Rightarrow> Panics e
      | Inr x \<Rightarrow> Yield x (iter_of m (ptr + record_size r) rs))"

lemma madt_entry_odd: "known_type (m ptr) \<Longrightarrow> odd ptr \<Longrightarrow> madt_entry m ptr = Inl Misaligned"
  by (auto simp: known_type_def madt_entry_def Let_def ref_to_def odd_iff_mod_2_eq_one)

lemma madt_entry_unknown: "\<not> known_type (m ptr) \<Longrightarrow> madt_entry m ptr = Inl Unimplemented"
  by (auto simp: known_type_def madt_entry_def Let_def)

lemma holds_bytes_append:
  "holds_bytes m a (xs @ ys) \<longleftrightarrow> holds_bytes m a xs \<and> holds_bytes m (a + length xs) ys"
  by (auto simp: holds_bytes_def nth_append all_conj_distrib add.assoc)
    (metis add_diff_inverse_nat nat_add_left_cancel_less)

lemma length_record_bytes [simp]: "length (record_bytes r) = record_size r"
  by (simp add: record_bytes_def record_size_def)

lemma entries_from_records:
  assumes "holds_bytes m ptr (concat (map record_bytes rs))" "\<forall>r\<in>set rs. record_size r < 256"
  shows "entries_from m (ptr + sum_list (map record_size rs)) ptr = iter_of m ptr rs"
  using assms
proof (induction rs arbitrary: ptr)
  case Nil
  then show ?case by (subst entries_from.code) simp
next
  case (Cons r rs)
  have b: "holds_bytes m ptr (record_bytes r)"
    "holds_bytes m (ptr + record_size r) (concat (map record_bytes rs))"
    using Cons.prems(1) by (simp_all add: holds_bytes_append)
  have "m (ptr + 1) = of_nat (record_size r)"
    using b(1) by (auto simp: holds_bytes_def record_bytes_def record_size_def dest!: spec [of _ 1])
  then have len: "unat (m (ptr + 1)) = record_size r"
    using Cons.prems(2) by (simp add: unsigned_of_nat take_bit_nat_eq_self)
  have "entries_from m (ptr + record_size r + sum_list (map record_size rs)) (ptr + record_size r) =
      iter_of m (ptr + record_size r) rs"
    using Cons.prems(2) b(2) by (intro Cons.IH) simp_all
  moreover have "0 < record_size r" by (simp add: record_size_def)
  ultimately show ?case
    by (subst entries_from.code) (simp add: len [simplified] add.assoc split: sum.split)
qed

section \<open>What the iterator yields\<close>

definition bytes16 :: "u16 \<Rightarrow> u8 list" where
  "bytes16 w = [ucast w, ucast (drop_bit 8 w)]"

definition bytes32 :: "u32 \<Rightarrow> u8 list" where
  "bytes32 w = bytes16 (ucast w) @ bytes16 (ucast (drop_bit 16 w))"

definition bytes64 :: "u64 \<Rightarrow> u8 list" where
  "bytes64 w = bytes32 (ucast w) @ bytes32 (ucast (drop_bit 32 w))"

text \<open>
  The records of the ACPI specification whose fields of several bytes lie at even offsets.
\<close>

fun encode :: "MADTEntry \<Rightarrow> madt_record" where
  "encode (LocalApic e) = (0, [lae_acpi_processor_id e, lae_apic_id e] @ bytes32 (lae_flags e))"
| "encode (IOApic e) = (1, [ioe_apic_id e, 0] @ bytes32 (ioe_address e) @ bytes32 (ioe_gsi_base e))"
| "encode (IOApicOverride e) =
     (2, [bus_source e, irq_source e] @ bytes32 (gsi e) @ bytes16 (ovr_flags e))"
| "encode (LocalApicOverride e) = (5, [0, 0] @ bytes64 (lao_addr e))"
| "encode _ = (255, [])"

fun plain :: "MADTEntry \<Rightarrow> bool" where
  "plain (LocalApic e) = True"
| "plain (IOApic e) = True"
| "plain (IOApicOverride e) = True"
| "plain (LocalApicOverride e) = True"
| "plain _ = False"

lemma holds_bytes_Cons: "holds_bytes m a (b # bs) \<longleftrightarrow> m a = b \<and> holds_bytes m (a + 1) bs"
  by (auto simp: holds_bytes_def All_less_Suc2)

lemma holds_bytes_Nil [simp]: "holds_bytes m a []"
  by (simp add: holds_bytes_def)

lemma length_bytes [simp]: "length (bytes16 w) = 2" "length (bytes32 v) = 4" "length (bytes64 u) = 8"
  by (simp_all add: bytes16_def bytes32_def bytes64_def)

lemma plus_Suc: "(p :: nat) + 2 = Suc (Suc p)" "p + 3 = Suc (Suc (Suc p))" "p + 4 = Suc (Suc (Suc (Suc p)))"
  "p + 5 = Suc (Suc (Suc (Suc (Suc p))))" "p + 6 = Suc (Suc (Suc (Suc (Suc (Suc p)))))"
  "p + 8 = Suc (Suc (Suc (Suc (Suc (Suc (Suc (Suc p)))))))"
  by simp_all

lemma read16_bytes: "holds_bytes m a (bytes16 w) \<Longrightarrow> read16 m a = w"
  by (rule bit_word_eqI) (auto simp: bytes16_def holds_bytes_Cons read16_def bit_simps)

lemma read32_bytes:
  assumes "holds_bytes m a (bytes32 w)"
  shows "read32 m a = w"
proof -
  have "read16 m a = ucast w" "read16 m (a + 2) = ucast (drop_bit 16 w)"
    using assms by (auto simp: bytes32_def holds_bytes_append intro!: read16_bytes)
  then show ?thesis by (intro bit_word_eqI) (auto simp: read32_def bit_simps)
qed

lemma read64_bytes:
  assumes "holds_bytes m a (bytes64 w)"
  shows "read64 m a = w"
proof -
  have "read32 m a = ucast w" "read32 m (a + 4) = ucast (drop_bit 32 w)"
    using assms by (auto simp: bytes64_def holds_bytes_append intro!: read32_bytes)
  then show ?thesis by (intro bit_word_eqI) (auto simp: read64_def bit_simps)
qed

lemma encode_small: "plain e \<Longrightarrow> record_size (encode e) < 256 \<and> even (record_size (encode e))"
  by (cases e) (simp_all add: record_size_def)

lemma madt_entry_encode:
  assumes "plain e" "holds_bytes m ptr (record_bytes (encode e))" "0 < ptr" "even ptr"
  shows "madt_entry m ptr = Inr e"
  using assms
  by (cases e) (auto simp: record_bytes_def holds_bytes_Cons holds_bytes_append madt_entry_def Let_def
      plus_Suc dest!: read16_bytes read32_bytes read64_bytes)

lemma iter_of_append:
  assumes "\<forall>e\<in>set es. plain e" "holds_bytes m ptr (concat (map (record_bytes \<circ> encode) es))" "0 < ptr" "even ptr"
  shows "iter_of m ptr (map encode es @ rs) =
     foldr Yield es (iter_of m (ptr + sum_list (map (record_size \<circ> encode) es)) rs)"
  using assms
proof (induction es arbitrary: ptr)
  case (Cons e es)
  have "madt_entry m ptr = Inr e"
    using Cons.prems by (intro madt_entry_encode) (simp_all add: holds_bytes_append)
  then show ?case using Cons encode_small [of e] by (simp add: holds_bytes_append add.assoc)
qed simp

lemma madt_entries_run:
  assumes "\<forall>e\<in>set es. plain e" "\<forall>r\<in>set rs. record_size r < 256"
    and "holds_bytes m (self + 44) (concat (map record_bytes (map encode es @ rs)))"
    and "unat (Header_length m self) = 44 + sum_list (map record_size (map encode es @ rs))" and "even self"
  shows "\<exists>tl. madt_entries m self = foldr Yield es tl \<and> (rs = [] \<longrightarrow> tl = Done) \<and>
    (\<forall>r rs'. rs = r # rs' \<longrightarrow> \<not> known_type (fst r) \<longrightarrow> tl = Panics Unimplemented)"
proof -
  let ?p = "self + 44 + sum_list (map (record_size \<circ> encode) es)"
  have b: "holds_bytes m (self + 44) (concat (map (record_bytes \<circ> encode) es))"
    "holds_bytes m ?p (concat (map record_bytes rs))"
    using assms(3) by (simp_all add: holds_bytes_append length_concat o_def)
  have "madt_entries m self = iter_of m (self + 44) (map encode es @ rs)"
    using entries_from_records [OF assms(3)] assms(1,2,4) encode_small
    by (auto simp: madt_entries_def size_of_MADT_def add.assoc)
  also have "\<dots> = foldr Yield es (iter_of m ?p rs)" using assms(5) by (intro iter_of_append [OF assms(1) b(1)]) simp_all
  finally have "madt_entries m self = foldr Yield es (iter_of m ?p rs)" .
  moreover have "iter_of m ?p rs = Panics Unimplemented" if "rs = r # rs'" "\<not> known_type (fst r)" for r rs'
  proof -
    have "m ?p = fst r" using b(2) that(1) by (simp add: record_bytes_def holds_bytes_Cons)
    then show ?thesis using that madt_entry_unknown [of m ?p] by simp
  qed
  ultimately show ?thesis by auto
qed


text \<open>A table with an IO APIC, the override of the timer interrupt and a record of type 10.\<close>

definition sample_entries :: "MADTEntry list" where
  "sample_entries =
     [IOApic \<lparr>ioe_apic_id = 1, ioe_address = 0xfec00000, ioe_gsi_base = 0\<rparr>,
      IOApicOverride \<lparr>bus_source = 0, irq_source = 0, gsi = 2, ovr_flags = 0\<rparr>]"

definition sample_madt :: bytes where
  "sample_madt a =
     (if a = 4 then 72
      else if 44 \<le> a \<and> a < 72 then
        [1, 12, 1, 0, 0, 0, 0xc0, 0xfe, 0, 0, 0, 0, 2, 10, 0, 0, 2, 0, 0, 0, 0, 0, 10, 6, 0, 0, 0, 0] ! (a - 44)
      else 0)"


lemma madt_zero_length_repeats:
  assumes "madt_entry m (self + 44) = Inr x" "m (self + 45) = 0" "44 < unat (Header_length m self)"
  shows "madt_entries m self = Yield x (madt_entries m self)"
  using assms unfolding madt_entries_def size_of_MADT_def
  by (subst entries_from.code) (simp add: add.commute [of self])

text \<open>
  A record of length 0 makes the iterator yield the same entry for ever.
\<close>

theorem madt_zero_length_diverges:
  assumes "madt_entry m (self + 44) = Inr x" "m (self + 45) = 0" "44 < unat (Header_length m self)"
  shows "madt_entries m self = Yield x (madt_entries m self)"
  using madt_zero_length_repeats [OF assms] .

definition broken_madt :: bytes where
  "broken_madt = (\<lambda>a. 0)(4 := 52)"

theorem madt_zero_length_diverges_witness:
  "\<exists>x. madt_entries broken_madt 0 = Yield x (madt_entries broken_madt 0)"
proof (rule exI)
  show "madt_entries broken_madt 0 = Yield (LocalApic \<lparr>lae_acpi_processor_id = 0, lae_apic_id = 0, lae_flags = 0\<rparr>)
      (madt_entries broken_madt 0)"
    by (rule madt_zero_length_diverges)
      (simp_all add: broken_madt_def madt_entry_def Header_length_def read32_def read16_def)
qed

text \<open>
  The record of a local APIC interrupt of the ACPI specification has the processor at offset
  2, the flags at 3 and the pin at 5. The entry the code reads takes its flags from the upper
  byte of the flags and the pin, and its pin from the byte after the record.
\<close>

lemma madt_local_nmi_misread:
  assumes "holds_bytes m ptr (record_bytes (4, [proc] @ bytes16 fl @ [pin]) @ [nxt])" "0 < ptr" "even ptr"
  shows "madt_entry m ptr = Inr (LocalApicNonmaskable \<lparr>lan_acpi_processor_id = proc,
    lan_flags = drop_bit 8 fl OR push_bit 8 (ucast pin), lint = nxt\<rparr>)"
proof -
  have "ucast (ucast (drop_bit 8 fl) :: u8) = drop_bit 8 fl"
    by (rule bit_word_eqI) (auto simp: bit_simps dest: bit_imp_le_length)
  then show ?thesis
    using assms by (simp add: record_bytes_def bytes16_def holds_bytes_Cons madt_entry_def read16_def plus_Suc)
qed

definition sample_nmi :: bytes where
  "sample_nmi = (\<lambda>a. 0)(2 := 4, 3 := 6, 4 := 0xff, 5 := 5, 7 := 1, 8 := 1)"

lemma madt_local_nmi_misread_witness:
  "madt_entry sample_nmi 2 = Inr (LocalApicNonmaskable \<lparr>lan_acpi_processor_id = 0xff,
    lan_flags = 0x100, lint = 1\<rparr>)"
  using madt_local_nmi_misread [of sample_nmi 2 "0xff" 5 1 1]
  by (simp add: sample_nmi_def record_bytes_def record_size_def bytes16_def holds_bytes_Cons)

section \<open>The HPET table\<close>

text \<open>The table as the specification lays it out, 56 bytes without padding.\<close>

definition header_bytes :: "Header \<Rightarrow> u8 list" where
  "header_bytes h = signature h @ bytes32 (hdr_length h) @ [revision h, checksum h] @ oemid h @ oem_table_id h @
     bytes32 (oem_revision h) @ bytes32 (creator_id h) @ bytes32 (creator_revision h)"

definition hpet_bytes :: "HPETTable \<Rightarrow> u8 list" where
  "hpet_bytes T = header_bytes (hpet_header T) @ bytes32 (hpet_flags T) @
     [address_space (hpet_address T), reg_bit_width (hpet_address T), reg_bit_offset (hpet_address T),
      addr_reserved (hpet_address T)] @ bytes64 (gas_address (hpet_address T)) @
     [hpet_number T] @ bytes16 (minimum_tick T) @ [page_protection T]"

definition header_ok :: "Header \<Rightarrow> bool" where
  "header_ok h \<longleftrightarrow> length (signature h) = 4 \<and> length (oemid h) = 6 \<and> length (oem_table_id h) = 8"

lemma holds_bytes_map: "holds_bytes m a bs \<Longrightarrow> map m [a..<a + length bs] = bs"
  by (rule nth_equalityI) (auto simp: holds_bytes_def)

lemma length_header_bytes: "header_ok h \<Longrightarrow> length (header_bytes h) = 36"
  by (simp add: header_ok_def header_bytes_def)

lemma Header_at_bytes:
  assumes "header_ok h" "holds_bytes m a (header_bytes h)"
  shows "Header_at m a = h"
proof -
  have l: "length (signature h) = 4" "length (oemid h) = 6" "length (oem_table_id h) = 8"
    using assms(1) by (simp_all add: header_ok_def)
  have b: "holds_bytes m a (signature h)" "holds_bytes m (a + 4) (bytes32 (hdr_length h))" "m (a + 8) = revision h"
    "m (a + 9) = checksum h" "holds_bytes m (a + 10) (oemid h)" "holds_bytes m (a + 16) (oem_table_id h)"
    "holds_bytes m (a + 24) (bytes32 (oem_revision h))" "holds_bytes m (a + 28) (bytes32 (creator_id h))"
    "holds_bytes m (a + 32) (bytes32 (creator_revision h))"
    using assms(2) unfolding header_bytes_def by (simp_all add: holds_bytes_append holds_bytes_Cons l add.left_commute [of _ a] add.commute [of _ a])
  have "map m [a..<a + 4] = signature h" "map m [a + 10..<a + 16] = oemid h" "map m [a + 16..<a + 24] = oem_table_id h"
    using holds_bytes_map [OF b(1)] holds_bytes_map [OF b(5)] holds_bytes_map [OF b(6)] by (simp_all add: l add.assoc)
  then show ?thesis
    using b by (simp add: Header_at_def Header_length_def read32_bytes)
qed

text \<open>
  A table that lies in memory as the specification says is read field by field, for every
  address, aligned or not.
\<close>

theorem hpet_at_bytes:
  assumes "header_ok (hpet_header T)" "holds_bytes m a (hpet_bytes T)"
  shows "hpet_at m a = T"
proof -
  note l = length_header_bytes [OF assms(1)]
  have b: "holds_bytes m a (header_bytes (hpet_header T))" "holds_bytes m (a + 36) (bytes32 (hpet_flags T))"
    "m (a + 40) = address_space (hpet_address T)" "m (a + 41) = reg_bit_width (hpet_address T)"
    "m (a + 42) = reg_bit_offset (hpet_address T)" "m (a + 43) = addr_reserved (hpet_address T)"
    "holds_bytes m (a + 44) (bytes64 (gas_address (hpet_address T)))" "m (a + 52) = hpet_number T"
    "holds_bytes m (a + 53) (bytes16 (minimum_tick T))" "m (a + 55) = page_protection T"
    using assms(2) unfolding hpet_bytes_def by (simp_all add: holds_bytes_append holds_bytes_Cons l add.left_commute [of _ a] add.commute [of _ a])
  show ?thesis
    using b Header_at_bytes [OF assms(1) b(1)]
    by (simp add: hpet_at_def Address_at_def add.left_commute [of _ a] add.commute [of _ a] read16_bytes read32_bytes read64_bytes)
qed

end
