(* ===== verification/Apic.thy ===== *)
theory Apic
  imports Idt Acpi
begin

text \<open>
  The interrupt controllers of \<^verbatim>\<open>hdint.rs\<close>: the registers and the timer of the local APIC, and
  the IO APIC with its redirection entries behind an index and a data register.

  A device is a store of registers: a register holds the last value written to it. What the
  timer counts down is not in the store; a definition that reads the current count takes the
  value as an argument. The time an interrupt takes to arrive is the sequence of interrupts a
  waiting loop is given.
\<close>

section \<open>The code of the local APIC\<close>

definition GLOBAL_PIT :: nat where "GLOBAL_PIT = 0"
definition GLOBAL_RTC :: nat where "GLOBAL_RTC = 8"
definition GLOBAL_KBD :: nat where "GLOBAL_KBD = 1"

definition LAPIC_ID_OFFSET :: nat where "LAPIC_ID_OFFSET = 0x20"
definition LAPIC_VERSION_OFFSET :: nat where "LAPIC_VERSION_OFFSET = 0x30"
definition SPURIOUS_OFFSET :: nat where "SPURIOUS_OFFSET = 0xf0"
definition EOI_FLAG :: u32 where "EOI_FLAG = 0"
definition LVT_TIMER_OFFSET :: nat where "LVT_TIMER_OFFSET = 0x320"
definition TMRINITCNT_OFFSET :: nat where "TMRINITCNT_OFFSET = 0x380"
definition TMRCURRCNT_OFFSET :: nat where "TMRCURRCNT_OFFSET = 0x390"
definition TMRDIV_OFFSET :: nat where "TMRDIV_OFFSET = 0x3e0"

definition TIMER_MODE_ONESHOT :: u32 where "TIMER_MODE_ONESHOT = push_bit 17 0b00"
definition TIMER_MODE_PERIODIC :: u32 where "TIMER_MODE_PERIODIC = push_bit 17 0b01"
definition TIMER_MODE_DEADLINE :: u32 where "TIMER_MODE_DEADLINE = push_bit 17 0b10"

definition LVT_INT_MASKED :: u32 where "LVT_INT_MASKED = push_bit 16 1"
definition LVT_INT_UNMASKED :: u32 where "LVT_INT_UNMASKED = push_bit 16 0"

record clock_state =
  LAPIC :: "nat \<Rightarrow> u32"
  TICKS_PER_MS :: u32
  IS_SLEEPING :: bool
  TIMER_FLAGS :: u8

definition lapic_id :: "clock_state \<Rightarrow> u32" where
  "lapic_id s = LAPIC s LAPIC_ID_OFFSET"

definition lapic_write :: "nat \<Rightarrow> u32 \<Rightarrow> clock_state \<Rightarrow> clock_state" where
  "lapic_write offset v s = s\<lparr>LAPIC := (LAPIC s)(offset := v)\<rparr>"

definition lapic_read :: "nat \<Rightarrow> clock_state \<Rightarrow> u32" where
  "lapic_read offset s = LAPIC s offset"

definition set_spurious :: "u32 \<Rightarrow> clock_state \<Rightarrow> clock_state" where
  "set_spurious v = lapic_write SPURIOUS_OFFSET v"

definition spurious :: "clock_state \<Rightarrow> u32" where
  "spurious = lapic_read SPURIOUS_OFFSET"

definition eoi :: "clock_state \<Rightarrow> clock_state" where
  "eoi = lapic_write EOI_OFFSET EOI_FLAG"

text \<open>\<open>wait\<close> is the sleep on the interval timer; \<open>current\<close> is what the counter reads after it.\<close>

definition setup_timer_pit :: "(clock_state \<Rightarrow> clock_state) \<Rightarrow> u32 \<Rightarrow> clock_state \<Rightarrow> clock_state res" where
  "setup_timer_pit wait current s =
     (let s1 = lapic_write TMRDIV_OFFSET 0x2 s;
          s2 = lapic_write TMRINITCNT_OFFSET 0xffffffff s1;
          s3 = wait s2;
          s4 = lapic_write LVT_TIMER_OFFSET LVT_INT_MASKED s3 in
      bindR (wsub 0xffffffff current) (\<lambda>ticks_per_ms.
      Inr (s4\<lparr>TICKS_PER_MS := ticks_per_ms\<rparr>)))"

definition halt_timer :: "clock_state \<Rightarrow> clock_state" where
  "halt_timer s =
     lapic_write TMRINITCNT_OFFSET 0
       (lapic_write LVT_TIMER_OFFSET (TIMER_MODE_ONESHOT OR LVT_INT_MASKED) s)"

definition trigger_local_us :: "u32 \<Rightarrow> clock_state \<Rightarrow> clock_state res" where
  "trigger_local_us us s =
     (let s1 = lapic_write LVT_TIMER_OFFSET LVT_INT_MASKED s;
          ticks_per_ms = TICKS_PER_MS s1 in
      bindR (assertR (ticks_per_ms > 0)) (\<lambda>_.
      bindR (wmul (ticks_per_ms div 1000) us) (\<lambda>ticks.
      Inr (lapic_write LVT_TIMER_OFFSET (ucast IRQ_LAPIC_CLK OR TIMER_MODE_ONESHOT)
        (lapic_write TMRINITCNT_OFFSET ticks s1)))))"

text \<open>
  The interrupts that reach the processor while it waits. The handler of the timer clears the
  flag, the others leave it.
\<close>

datatype irq = Clk | Other

fun deliver :: "irq \<Rightarrow> u8 \<Rightarrow> u8" where
  "deliver Clk flags = flags AND 0xfe"
| "deliver Other flags = flags"

text \<open>
  One turn of the waiting loop: the flag is read, some interrupts may come before the processor
  halts, and the next one wakes it. \<open>late\<close> are interrupts that come in the last turn, after
  the read and before the halt, with none to wake the processor.
\<close>

datatype waited = Waiting u8 | Woken u8 "(irq list \<times> irq) list"

fun sleep_loop :: "irq list \<Rightarrow> (irq list \<times> irq) list \<Rightarrow> u8 \<Rightarrow> waited" where
  "sleep_loop late [] flags =
     (if flags AND 1 \<noteq> 0 then Waiting (fold deliver late flags) else Woken flags [])"
| "sleep_loop late ((before, wake) # turns) flags =
     (if flags AND 1 \<noteq> 0 then sleep_loop late turns (deliver wake (fold deliver before flags))
      else Woken flags ((before, wake) # turns))"

definition sleep_local_us ::
  "irq list \<Rightarrow> (irq list \<times> irq) list \<Rightarrow> u32 \<Rightarrow> clock_state \<Rightarrow> (clock_state option) res" where
  "sleep_local_us late turns us s =
     bindR (assertR (\<not> IS_SLEEPING s)) (\<lambda>_.
     let s1 = lapic_write LVT_TIMER_OFFSET LVT_INT_MASKED (s\<lparr>IS_SLEEPING := True\<rparr>);
         s2 = s1\<lparr>IS_SLEEPING := True, TIMER_FLAGS := TIMER_FLAGS s1 OR 1\<rparr>;
         ticks_per_ms = TICKS_PER_MS s2 in
     bindR (assertR (ticks_per_ms > 0)) (\<lambda>_.
     bindR (wmul (ticks_per_ms div 1000) us) (\<lambda>ticks.
     let s3 = lapic_write LVT_TIMER_OFFSET (ucast IRQ_LAPIC_CLK OR TIMER_MODE_ONESHOT)
        (lapic_write TMRINITCNT_OFFSET ticks s2) in
     case sleep_loop late turns (TIMER_FLAGS s3) of
       Waiting _ \<Rightarrow> Inr None
     | Woken flags _ \<Rightarrow> Inr (Some (s3\<lparr>TIMER_FLAGS := flags, IS_SLEEPING := False\<rparr>)))))"

text \<open>The handler of the timer before the scheduler runs; \<open>flags\<close> is the address of \<^verbatim>\<open>TIMER_FLAGS\<close>.\<close>

definition lapic_clk_interrupt :: "u64 \<Rightarrow> instr list" where
  "lapic_clk_interrupt flags =
     [Push RAX,
      AndB flags 0xfe,
      MovI RAX 0,
      Store (of_nat LAPIC_EOI_ADDR) RAX,
      Pop RAX,
      Iretq]"

definition WRITE_THROUGH :: u64 where "WRITE_THROUGH = 8"
definition NO_CACHE :: u64 where "NO_CACHE = 16"
definition NO_EXECUTE :: u64 where "NO_EXECUTE = push_bit 63 1"

text \<open>\<open>apic_phys_frame\<close> is what the model specific register holds.\<close>

definition init_local ::
  "x86_ops \<Rightarrow> ('m, 'b) mapper_ops \<Rightarrow> nat \<Rightarrow> ('m, 'b) MapperAllocator \<Rightarrow> ('m, 'b) MapperAllocator res" where
  "init_local X M apic_phys_frame mapall =
     bindR (expectR (page_from_start X 4096 LAPIC_ADDR)) (\<lambda>page.
     bindR (map_to M mapall page apic_phys_frame (PRESENT OR WRITABLE OR NO_CACHE OR WRITE_THROUGH))
       (\<lambda>(r, mapall1).
     case r of Inl _ \<Rightarrow> Inl UnwrapFailed | Inr _ \<Rightarrow> Inr mapall1))"

section \<open>The code of the IO APIC\<close>

record IOApic =
  io_id :: u8
  interrupt_base :: u32
  io_base :: nat
  irqs :: "nat list"

text \<open>The device: the index register and the registers behind the data window.\<close>

record ioapic_dev =
  ioregsel :: u32
  ioregs :: "u32 \<Rightarrow> u32"

definition IOAPIC_FLAGS :: u64 where
  "IOAPIC_FLAGS = PRESENT OR NO_CACHE OR NO_EXECUTE OR WRITE_THROUGH OR WRITABLE"

fun map_ioapic ::
  "x86_ops \<Rightarrow> ('m, 'b) mapper_ops \<Rightarrow> nat \<Rightarrow> (nat \<times> nat) list \<Rightarrow> ('m, 'b) MapperAllocator \<Rightarrow>
   ('m, 'b) MapperAllocator res" where
  "map_ioapic X M start_addr [] mapall = Inr mapall"
| "map_ioapic X M start_addr ((i, frame) # frames) mapall =
     bindR (umul i 0x1000) (\<lambda>off.
     bindR (va_add X start_addr off) (\<lambda>addr.
     bindR (expectR (page_from_start X 4096 addr)) (\<lambda>page.
     bindR (map_to M mapall page frame IOAPIC_FLAGS) (\<lambda>(r, mapall1).
     case r of
       Inl _ \<Rightarrow> Inl ExplicitPanic
     | Inr _ \<Rightarrow> map_ioapic X M start_addr frames mapall1))))"

text \<open>\<open>nxt\<close> is \<^verbatim>\<open>APIC_NEXT_OFFSET\<close>, returned updated; its atomic addition wraps.\<close>

definition IOApic_new ::
  "x86_ops \<Rightarrow> ('m, 'b) mapper_ops \<Rightarrow> IOApicEntry \<Rightarrow> nat \<Rightarrow> ('m, 'b) MapperAllocator \<Rightarrow>
   (IOApic \<times> nat \<times> ('m, 'b) MapperAllocator) res" where
  "IOApic_new X M entry nxt mapall =
     bindR (pa_new X (unat (ioe_address entry))) (\<lambda>addr.
     bindR (pa_add X addr (2 * 4)) (\<lambda>end_addr.
     let start_frame = frame_containing X 4096 addr;
         end_frame = frame_containing X 4096 end_addr;
         range = frame_range X 4096 start_frame end_frame;
         n_pages = length range in
     bindR (umul n_pages 0x1000) (\<lambda>size.
     bindR (va_add X APIC_START nxt) (\<lambda>start_addr.
     bindR (map_ioapic X M start_addr (zip [0..<n_pages] range) mapall) (\<lambda>mapall1.
     bindR (usub addr start_frame) (\<lambda>off.
     bindR (va_add X start_addr off) (\<lambda>vaddr.
     Inr (\<lparr>io_id = ioe_apic_id entry, interrupt_base = ioe_gsi_base entry, io_base = vaddr,
           irqs = [0..<32]\<rparr>, (nxt + size) mod 2 ^ 64, mapall1))))))))"

definition io_read :: "u32 \<Rightarrow> ioapic_dev \<Rightarrow> u32 \<times> ioapic_dev" where
  "io_read reg d = (let d1 = d\<lparr>ioregsel := reg AND 0xff\<rparr> in (ioregs d1 (ioregsel d1), d1))"

definition io_write :: "u32 \<Rightarrow> u32 \<Rightarrow> ioapic_dev \<Rightarrow> ioapic_dev" where
  "io_write reg v d =
     (let d1 = d\<lparr>ioregsel := reg AND 0xff\<rparr> in d1\<lparr>ioregs := (ioregs d1)(ioregsel d1 := v)\<rparr>)"

text \<open>The number of the lower register of an entry.\<close>

definition entry_reg :: "nat \<Rightarrow> u32 res" where
  "entry_reg index = bindR (wmul (of_nat index) 2) (\<lambda>i. wadd 0x10 i)"

definition get_entry :: "nat \<Rightarrow> ioapic_dev \<Rightarrow> (u64 \<times> ioapic_dev) res" where
  "get_entry index d =
     bindR (entry_reg index) (\<lambda>reg.
     let (bot_half, d1) = io_read reg d in
     bindR (wadd reg 1) (\<lambda>reg1.
     let (top_half, d2) = io_read reg1 d1 in
     Inr (push_bit 32 (ucast top_half) OR ucast bot_half, d2)))"

definition set_entry :: "nat \<Rightarrow> u64 \<Rightarrow> ioapic_dev \<Rightarrow> ioapic_dev res" where
  "set_entry index entry d =
     (let bot_half = ucast (entry AND 0xffffffff);
          top_half = ucast (drop_bit 32 entry) in
      bindR (entry_reg index) (\<lambda>reg.
      let d1 = io_write reg bot_half d in
      bindR (wadd reg 1) (\<lambda>reg1.
      Inr (io_write reg1 top_half d1))))"

text \<open>The fields of a redirection entry, through the \<^verbatim>\<open>bitfield\<close> crate.\<close>

definition set_vector :: "u64 bitfield_ops \<Rightarrow> u8 \<Rightarrow> u64 \<Rightarrow> u64" where
  "set_vector P v e = put_bits P e 7 0 (ucast v)"

definition set_active_low :: "u64 bitfield_ops \<Rightarrow> bool \<Rightarrow> u64 \<Rightarrow> u64" where
  "set_active_low P b e = put_bits P e 13 13 (of_bool b)"

definition set_level_triggered :: "u64 bitfield_ops \<Rightarrow> bool \<Rightarrow> u64 \<Rightarrow> u64" where
  "set_level_triggered P b e = put_bits P e 15 15 (of_bool b)"

definition set_mask :: "u64 bitfield_ops \<Rightarrow> bool \<Rightarrow> u64 \<Rightarrow> u64" where
  "set_mask P b e = put_bits P e 16 16 (of_bool b)"

definition irq_at :: "IOApic \<Rightarrow> nat \<Rightarrow> nat res" where
  "irq_at self i = (if i < length (irqs self) then Inr (irqs self ! i) else Inl IndexOutOfBounds)"

definition register_override ::
  "u64 bitfield_ops \<Rightarrow> IOApicOverrideEntry \<Rightarrow> IOApic \<Rightarrow> ioapic_dev \<Rightarrow> (IOApic \<times> ioapic_dev) res" where
  "register_override P ovr self d =
     (if unat (irq_source ovr) < length (irqs self) then
        let self1 = self\<lparr>irqs := (irqs self)[unat (irq_source ovr) := unat (gsi ovr)]\<rparr> in
        bindR (get_entry (unat (gsi ovr)) d) (\<lambda>(redentry, d1).
        bindR (polarity (ovr_flags ovr)) (\<lambda>pol.
        bindR (case pol of
                 PNoOverride \<Rightarrow> Inr redentry
               | ActiveLo \<Rightarrow> Inr (set_active_low P True redentry)
               | ActiveHi \<Rightarrow> Inr (set_active_low P False redentry)
               | PReserved \<Rightarrow> Inl Unreachable) (\<lambda>redentry1.
        bindR (trigger (ovr_flags ovr)) (\<lambda>trig.
        bindR (case trig of
                 TNoOverride \<Rightarrow> Inr redentry1
               | Level \<Rightarrow> Inr (set_level_triggered P True redentry1)
               | Edge \<Rightarrow> Inr (set_level_triggered P False redentry1)
               | TReserved \<Rightarrow> Inl Unreachable) (\<lambda>redentry2.
        bindR (set_entry (unat (gsi ovr)) redentry2 d1) (\<lambda>d2.
        Inr (self1, d2)))))))
      else Inl IndexOutOfBounds)"

definition enable_pit :: "u64 bitfield_ops \<Rightarrow> IOApic \<Rightarrow> ioapic_dev \<Rightarrow> ioapic_dev res" where
  "enable_pit P self d =
     bindR (irq_at self GLOBAL_PIT) (\<lambda>irq.
     bindR (get_entry irq d) (\<lambda>(entry, d1).
     set_entry irq (set_vector P IRQ_PIT (set_mask P False entry)) d1))"

definition disable_pit :: "u64 bitfield_ops \<Rightarrow> IOApic \<Rightarrow> ioapic_dev \<Rightarrow> ioapic_dev res" where
  "disable_pit P self d =
     bindR (irq_at self GLOBAL_PIT) (\<lambda>irq.
     bindR (get_entry irq d) (\<lambda>(entry, d1).
     set_entry irq (set_mask P False entry) d1))"

section \<open>The timer\<close>

lemmas lapic_defs = lapic_write_def LVT_TIMER_OFFSET_def TMRINITCNT_OFFSET_def LVT_INT_MASKED_def
  TIMER_MODE_ONESHOT_def IRQ_LAPIC_CLK_def

text \<open>
  C28. Starting the timer for \<open>us\<close> microseconds panics exactly when the timer was not calibrated
  or the tick count does not fit 32 bits. Otherwise the timer is unmasked on its vector with a
  count that is never too long, and short by less than \<open>us\<close> ticks: the calibration is rounded
  down to whole ticks per microsecond, so below 1000 ticks per millisecond the count is 0 and
  the timer does not start.
\<close>

theorem trigger_local_us_bounds:
  "case trigger_local_us us s of
     Inl e \<Rightarrow> TICKS_PER_MS s = 0 \<or> 2 ^ 32 \<le> unat (TICKS_PER_MS s) div 1000 * unat us
   | Inr s' \<Rightarrow> TICKS_PER_MS s \<noteq> 0 \<and> unat (TICKS_PER_MS s) div 1000 * unat us < 2 ^ 32 \<and>
       LAPIC s' LVT_TIMER_OFFSET = 0x32 \<and>
       1000 * unat (LAPIC s' TMRINITCNT_OFFSET) \<le> unat (TICKS_PER_MS s) * unat us \<and>
       unat (TICKS_PER_MS s) * unat us \<le> 1000 * unat (LAPIC s' TMRINITCNT_OFFSET) + 999 * unat us \<and>
       (unat (TICKS_PER_MS s) < 1000 \<longrightarrow> LAPIC s' TMRINITCNT_OFFSET = 0) \<and>
       (\<forall>r. r \<noteq> LVT_TIMER_OFFSET \<longrightarrow> r \<noteq> TMRINITCNT_OFFSET \<longrightarrow> LAPIC s' r = LAPIC s r)"
proof -
  let ?t = "unat (TICKS_PER_MS s)"
  have d: "unat (TICKS_PER_MS s div 1000) = ?t div 1000" by (simp add: unat_div_distrib)
  have split: "?t * unat us = 1000 * (?t div 1000 * unat us) + ?t mod 1000 * unat us"
    by (metis add_mult_distrib mult.assoc mult_div_mod_eq)
  have le: "?t mod 1000 * unat us \<le> 999 * unat us" by (intro mult_right_mono) simp_all
  show ?thesis
  proof (cases "TICKS_PER_MS s = 0 \<or> 2 ^ 32 \<le> ?t div 1000 * unat us")
    case True
    then show ?thesis
      by (auto simp: trigger_local_us_def Let_def wmul_def d lapic_write_def assertR_def word_neq_0_conv)
  next
    case False
    then have fits: "?t div 1000 * unat us < 2 ^ 32" and pos: "0 < TICKS_PER_MS s"
      by (auto simp: word_neq_0_conv)
    have u: "unat (TICKS_PER_MS s div 1000 * us) = ?t div 1000 * unat us"
      using fits d unat_mult_lem [of "TICKS_PER_MS s div 1000" us] by simp
    have "?t < 1000 \<Longrightarrow> TICKS_PER_MS s div 1000 = 0" by (simp add: word_unat_eq_iff d)
    then show ?thesis using fits pos u split le
      by (simp add: trigger_local_us_def Let_def wmul_def d lapic_defs word_neq_0_conv)
  qed
qed

definition sample_clock :: clock_state where
  "sample_clock = \<lparr>LAPIC = (\<lambda>r. 0), TICKS_PER_MS = 125000, IS_SLEEPING = False, TIMER_FLAGS = 0\<rparr>"

theorem trigger_local_us_bounds_witness:
  "(\<exists>s'. trigger_local_us 3000 sample_clock = Inr s' \<and> LAPIC s' LVT_TIMER_OFFSET = 0x32 \<and>
      375000000 \<le> 1000 * unat (LAPIC s' TMRINITCNT_OFFSET) + 2997000) \<and>
   (\<exists>e. trigger_local_us 40000000 sample_clock = Inl e)"
  using trigger_local_us_bounds [of sample_clock 3000] trigger_local_us_bounds [of sample_clock 40000000]
  by (auto simp: sample_clock_def split: sum.splits)

lemma deliver_clears: "deliver i f AND 1 \<noteq> 0 \<longleftrightarrow> f AND 1 \<noteq> 0 \<and> i \<noteq> Clk"
  by (cases i) (simp_all add: and.assoc)

lemma deliver_all: "fold deliver is f AND 1 \<noteq> 0 \<longleftrightarrow> f AND 1 \<noteq> 0 \<and> Clk \<notin> set is"
  by (induction "is" arbitrary: f) (auto simp: deliver_clears)

text \<open>The interrupts of the completed turns.\<close>

definition arrived :: "(irq list \<times> irq) list \<Rightarrow> irq list" where
  "arrived turns = concat (map (\<lambda>(before, wake). before @ [wake]) turns)"

lemma sleep_loop_woken:
  assumes "flags AND 1 \<noteq> 0"
  shows "(\<exists>f r. sleep_loop late turns flags = Woken f r) \<longleftrightarrow> Clk \<in> set (arrived turns)"
  using assms
proof (induction late turns flags rule: sleep_loop.induct)
  case (2 late before wake turns flags)
  show ?case
  proof (cases "deliver wake (fold deliver before flags) AND 1 \<noteq> 0")
    case True
    then have "Clk \<notin> set before" "wake \<noteq> Clk" by (auto simp: deliver_clears deliver_all)
    with True 2 show ?thesis by (auto simp: arrived_def)
  next
    case False
    then have "Clk \<in> set (before @ [wake])" using 2 by (auto simp: deliver_clears deliver_all)
    moreover have "\<exists>f r. sleep_loop late turns (deliver wake (fold deliver before flags)) = Woken f r"
      using False by (cases turns) auto
    ultimately show ?thesis using 2 by (auto simp: arrived_def)
  qed
qed (simp add: arrived_def)

lemma sleep_local_us_run:
  assumes "\<not> IS_SLEEPING s" "0 < TICKS_PER_MS s" "unat (TICKS_PER_MS s) div 1000 * unat us < 2 ^ 32"
  shows "\<exists>r. sleep_local_us late turns us s = Inr r \<and> (r \<noteq> None \<longleftrightarrow> Clk \<in> set (arrived turns)) \<and>
    (\<forall>s'. r = Some s' \<longrightarrow> \<not> IS_SLEEPING s' \<and> TIMER_FLAGS s' AND 1 = 0 \<and> TICKS_PER_MS s' = TICKS_PER_MS s)"
proof -
  let ?f = "TIMER_FLAGS s OR 1"
  have m: "wmul (TICKS_PER_MS s div 1000) us = Inr (TICKS_PER_MS s div 1000 * us)"
    using assms(3) by (simp add: wmul_def unat_div_distrib)
  have f: "?f AND 1 \<noteq> 0" by (simp add: bit.conj_disj_distrib2)
  have w: "sleep_loop late turns flags = Woken f r \<Longrightarrow> f AND 1 = 0" for flags f r
    by (induction late turns flags rule: sleep_loop.induct) (auto split: if_splits)
  show ?thesis
  proof (cases "sleep_loop late turns ?f")
    case (Waiting x)
    then have "Clk \<notin> set (arrived turns)" using sleep_loop_woken [OF f, of late turns] by simp
    with Waiting assms(1,2) m show ?thesis by (simp add: sleep_local_us_def Let_def lapic_write_def)
  next
    case (Woken x r)
    then have "Clk \<in> set (arrived turns)" using sleep_loop_woken [OF f, of late turns] by simp
    with Woken assms(1,2) m w [OF Woken] show ?thesis
      by (simp add: sleep_local_us_def Let_def lapic_write_def)
  qed
qed



section \<open>The redirection table\<close>

text \<open>
  What the drivers rely on: entries that are read and written one at a time, and a view of the
  whole table.
\<close>

locale entry_store =
  fixes get_at :: "nat \<Rightarrow> 'd \<Rightarrow> ('e \<times> 'd) res" and set_at :: "nat \<Rightarrow> 'e \<Rightarrow> 'd \<Rightarrow> 'd res"
    and view :: "'d \<Rightarrow> nat \<Rightarrow> 'e" and slots :: nat
  assumes get_view: "i < slots \<Longrightarrow> \<exists>d'. get_at i d = Inr (view d i, d') \<and> (\<forall>j < slots. view d' j = view d j)"
    and set_view: "i < slots \<Longrightarrow> \<exists>d'. set_at i e d = Inr d' \<and> (\<forall>j < slots. view d' j = ((view d)(i := e)) j)"
begin

lemma modify:
  assumes "i < slots"
  shows "\<exists>d'. bindR (get_at i d) (\<lambda>(e, d1). bindR (f e) (\<lambda>e'. set_at i e' d1)) =
      (case f (view d i) of Inl p \<Rightarrow> Inl p | Inr e' \<Rightarrow> Inr d') \<and>
    (\<forall>e'. f (view d i) = Inr e' \<longrightarrow> (\<forall>j < slots. view d' j = ((view d)(i := e')) j))"
proof -
  obtain d1 where d1: "get_at i d = Inr (view d i, d1)" "\<forall>j < slots. view d1 j = view d j"
    using get_view [OF assms] by blast
  show ?thesis
  proof (cases "f (view d i)")
    case (Inr e')
    obtain d' where "set_at i e' d1 = Inr d'" "\<forall>j < slots. view d' j = ((view d1)(i := e')) j"
      using set_view [OF assms] by blast
    with d1 Inr show ?thesis by (intro exI [of _ d']) auto
  qed (use d1 in simp)
qed

lemma modify_total:
  assumes "i < slots"
  shows "\<exists>d'. bindR (get_at i d) (\<lambda>(e, d1). set_at i (f e) d1) = Inr d' \<and>
    (\<forall>j < slots. view d' j = ((view d)(i := f (view d i))) j)"
  using modify [OF assms, of d "\<lambda>e. Inr (f e)"] by simp

end

definition entry_of :: "ioapic_dev \<Rightarrow> nat \<Rightarrow> u64" where
  "entry_of d i = push_bit 32 (ucast (ioregs d (of_nat (17 + 2 * i)))) OR ucast (ioregs d (of_nat (16 + 2 * i)))"

lemma unat_small: "n < 2 ^ 32 \<Longrightarrow> unat (of_nat n :: u32) = n"
  by (simp add: unsigned_of_nat take_bit_nat_eq_self)

lemma entry_reg_ok:
  assumes "i < 120"
  shows "entry_reg i = Inr (of_nat (16 + 2 * i))" "wadd (of_nat (16 + 2 * i)) (1 :: u32) = Inr (of_nat (17 + 2 * i))"
proof -
  have u: "unat (of_nat i :: u32) = i" "unat (of_nat (2 * i) :: u32) = 2 * i" "unat (of_nat (16 + 2 * i) :: u32) = 16 + 2 * i"
    by (rule unat_small; use assms in simp)+
  have m: "wmul (of_nat i) (2 :: u32) = Inr (of_nat (2 * i))"
    using u(1) assms by (simp add: wmul_def mult.commute)
  show "entry_reg i = Inr (of_nat (16 + 2 * i))"
    unfolding entry_reg_def m bindR_Inr using u(2) assms by (simp add: wadd_def del: of_nat_mult)
  show "wadd (of_nat (16 + 2 * i)) (1 :: u32) = Inr (of_nat (17 + 2 * i))"
    using u(3) assms by (simp add: wadd_def del: of_nat_add of_nat_mult) simp
qed

lemma reg_mask:
  assumes "n < 256"
  shows "(of_nat n :: u32) AND 0xff = of_nat n"
proof -
  have "(0xff :: u32) = mask 8" by (simp add: mask_eq_exp_minus_1)
  moreover have "take_bit 8 (of_nat n :: u32) = of_nat n"
    using assms by (simp add: word_unat_eq_iff unsigned_take_bit_eq unat_small take_bit_nat_eq_self)
  ultimately show ?thesis by (simp add: take_bit_eq_mask)
qed

lemma reg_inj:
  assumes "n < 256" "k < 256"
  shows "(of_nat n :: u32) = of_nat k \<longleftrightarrow> n = k"
proof -
  have "unat (of_nat n :: u32) = n" "unat (of_nat k :: u32) = k"
    by (rule unat_small; use assms in simp)+
  then show ?thesis by metis
qed

lemma io_read_entry: "n < 256 \<Longrightarrow> io_read (of_nat n) d = (ioregs d (of_nat n), d\<lparr>ioregsel := of_nat n\<rparr>)"
  using reg_mask [of n] by (simp add: io_read_def Let_def)

lemma io_write_entry:
  "n < 256 \<Longrightarrow> io_write (of_nat n) v d = d\<lparr>ioregsel := of_nat n, ioregs := (ioregs d)(of_nat n := v)\<rparr>"
  using reg_mask [of n] by (simp add: io_write_def Let_def)

lemma get_entry_ok:
  assumes "i < 120"
  shows "get_entry i d = Inr (entry_of d i, d\<lparr>ioregsel := of_nat (17 + 2 * i)\<rparr>)"
  using assms
  by (simp add: get_entry_def entry_reg_ok io_read_entry entry_of_def Let_def del: of_nat_add of_nat_mult)

lemma set_entry_ok:
  assumes "i < 120"
  shows "set_entry i e d = Inr (d\<lparr>ioregsel := of_nat (17 + 2 * i),
    ioregs := (ioregs d)(of_nat (16 + 2 * i) := ucast (e AND 0xffffffff), of_nat (17 + 2 * i) := ucast (drop_bit 32 e))\<rparr>)"
  using assms
  by (simp add: set_entry_def entry_reg_ok io_write_entry Let_def del: of_nat_add of_nat_mult)

lemma join_halves: "push_bit 32 (ucast (ucast (drop_bit 32 e) :: u32)) OR ucast (ucast (e AND 0xffffffff) :: u32) = (e :: u64)"
proof -
  have m: "(0xffffffff :: u64) = mask 32" by (simp add: mask_eq_exp_minus_1)
  show ?thesis unfolding m by (intro bit_word_eqI) (auto simp: bit_simps)
qed

interpretation iot: entry_store get_entry set_entry entry_of 120
proof
  fix i :: nat and d :: ioapic_dev and e :: u64
  assume i: "i < 120"
  show "\<exists>d'. get_entry i d = Inr (entry_of d i, d') \<and> (\<forall>j<120. entry_of d' j = entry_of d j)"
    by (rule exI, rule conjI [OF get_entry_ok [OF i]]) (simp add: entry_of_def)
  show "\<exists>d'. set_entry i e d = Inr d' \<and> (\<forall>j<120. entry_of d' j = ((entry_of d)(i := e)) j)"
  proof (rule exI, rule conjI [OF set_entry_ok [OF i]], intro allI impI)
    fix j :: nat
    assume j: "j < 120"
    have "(of_nat (16 + 2 * j) :: u32) = of_nat (16 + 2 * i) \<longleftrightarrow> j = i"
      "(of_nat (17 + 2 * j) :: u32) = of_nat (17 + 2 * i) \<longleftrightarrow> j = i"
      "(of_nat (16 + 2 * j) :: u32) \<noteq> of_nat (17 + 2 * i)"
      "(of_nat (17 + 2 * j) :: u32) \<noteq> of_nat (16 + 2 * i)"
      using i j by (subst reg_inj; simp; presburger?)+
    then show "entry_of (d\<lparr>ioregsel := of_nat (17 + 2 * i),
        ioregs := (ioregs d)(of_nat (16 + 2 * i) := ucast (e AND 0xffffffff),
          of_nat (17 + 2 * i) := ucast (drop_bit 32 e))\<rparr>) j = ((entry_of d)(i := e)) j"
      unfolding entry_of_def by (auto simp: join_halves simp del: of_nat_add of_nat_mult)
  qed
qed

text \<open>
  A redirection entry that is written is read back, and the other entries do not change,
  for the 120 entries whose registers the index register can name.
\<close>

theorem set_get_entry:
  assumes "i < 120" "j < 120"
  shows "\<exists>d' d''. set_entry i e d = Inr d' \<and>
    get_entry j d' = Inr (if j = i then e else entry_of d j, d'') \<and>
    (\<exists>d0. get_entry j d = Inr (entry_of d j, d0))"
proof -
  obtain d' where d': "set_entry i e d = Inr d'" "\<forall>j<120. entry_of d' j = ((entry_of d)(i := e)) j"
    using iot.set_view [OF assms(1)] by blast
  have "entry_of d' j = (if j = i then e else entry_of d j)" using d'(2) assms(2) by simp
  with d'(1) get_entry_ok [OF assms(2), of d'] get_entry_ok [OF assms(2), of d] show ?thesis by auto
qed

definition sample_ioapic :: ioapic_dev where
  "sample_ioapic = \<lparr>ioregsel = 0, ioregs = (\<lambda>r. if even (unat r) then 0x10000 else 0)\<rparr>"

theorem set_get_entry_witness:
  "\<exists>d' d''. set_entry 2 0x0100000000000033 sample_ioapic = Inr d' \<and>
    get_entry 3 d' = Inr (if 3 = (2::nat) then 0x0100000000000033 else entry_of sample_ioapic 3, d'') \<and>
    (\<exists>d0. get_entry 3 sample_ioapic = Inr (entry_of sample_ioapic 3, d0))"
  by (rule set_get_entry) simp_all

lemma enable_pit_view:
  assumes "irqs self ! 0 = i" "irqs self \<noteq> []" "i < 120"
  shows "\<exists>d'. enable_pit P self d = Inr d' \<and>
    (\<forall>j<120. entry_of d' j = ((entry_of d)(i := set_vector P IRQ_PIT (set_mask P False (entry_of d i)))) j)"
  using iot.modify_total [OF assms(3), of d "\<lambda>e. set_vector P IRQ_PIT (set_mask P False e)"] assms(1,2)
  by (simp add: enable_pit_def irq_at_def GLOBAL_PIT_def)

lemma disable_pit_view:
  assumes "irqs self ! 0 = i" "irqs self \<noteq> []" "i < 120"
  shows "\<exists>d'. disable_pit P self d = Inr d' \<and>
    (\<forall>j<120. entry_of d' j = ((entry_of d)(i := set_mask P False (entry_of d i))) j)"
  using iot.modify_total [OF assms(3), of d "\<lambda>e. set_mask P False e"] assms(1,2)
  by (simp add: disable_pit_def irq_at_def GLOBAL_PIT_def)

text \<open>
  Enabling the interval timer unmasks its redirection entry on the vector of the handler,
  and disabling it leaves the entry unmasked, so its interrupts continue.
\<close>

theorem disable_pit_keeps_unmasked:
  assumes "bitfield_crate P" "irqs self ! 0 = i" "irqs self \<noteq> []" "i < 120"
  shows "\<exists>d1 d2. enable_pit P self d = Inr d1 \<and> disable_pit P self d1 = Inr d2 \<and>
    \<not> bit (entry_of d1 i) 16 \<and> \<not> bit (entry_of d2 i) 16 \<and> take_bit 8 (entry_of d2 i) = 0x33 \<and>
    (\<forall>n. 7 < n \<and> n \<noteq> 16 \<longrightarrow> bit (entry_of d2 i) n = bit (entry_of d i) n) \<and>
    (\<forall>j<120. j \<noteq> i \<longrightarrow> entry_of d2 j = entry_of d j)"
proof -
  note pb = bitfield_crate.bit_put_bits [OF assms(1)]
  obtain d1 where d1: "enable_pit P self d = Inr d1"
    "\<forall>j<120. entry_of d1 j = ((entry_of d)(i := set_vector P IRQ_PIT (set_mask P False (entry_of d i)))) j"
    using enable_pit_view [OF assms(2-4)] by blast
  obtain d2 where d2: "disable_pit P self d1 = Inr d2"
    "\<forall>j<120. entry_of d2 j = ((entry_of d1)(i := set_mask P False (entry_of d1 i))) j"
    using disable_pit_view [OF assms(2-4)] by blast
  have e1: "bit (entry_of d1 i) n \<longleftrightarrow>
      (if n \<le> 7 then bit (0x33 :: u64) n else if n = 16 then False else bit (entry_of d i) n)" for n
    using d1(2) assms(4) by (simp add: set_vector_def set_mask_def pb IRQ_PIT_def)
  have e2: "bit (entry_of d2 i) n \<longleftrightarrow> (if n = 16 then False else bit (entry_of d1 i) n)" for n
    using d2(2) assms(4) by (simp add: set_mask_def pb)
  have "take_bit 8 (entry_of d2 i) = take_bit 8 0x33"
    by (rule bit_eqI, unfold bit_take_bit_iff e2 e1) auto
  then have "take_bit 8 (entry_of d2 i) = 0x33" by simp
  then show ?thesis using d1 d2 e1 e2 by auto
qed

theorem disable_pit_keeps_unmasked_witness:
  "\<exists>d1 d2. enable_pit doc_bitfield \<lparr>io_id = 0, interrupt_base = 0, io_base = 0, irqs = [2]\<rparr> sample_ioapic = Inr d1 \<and>
    disable_pit doc_bitfield \<lparr>io_id = 0, interrupt_base = 0, io_base = 0, irqs = [2]\<rparr> d1 = Inr d2 \<and>
    bit (entry_of sample_ioapic 2) 16 \<and> \<not> bit (entry_of d2 2) 16"
proof -
  let ?io = "\<lparr>io_id = 0, interrupt_base = 0, io_base = 0, irqs = [2]\<rparr>"
  have "bit (entry_of sample_ioapic 2) 16" by (simp add: entry_of_def sample_ioapic_def)
  then show ?thesis
    using disable_pit_keeps_unmasked [OF docbf.bitfield_crate_axioms, of ?io 2 sample_ioapic] by auto
qed

lemma two_bits:
  "drop_bit k fl AND mask 2 = (if bit fl k then 1 else 0) OR (if bit fl (Suc k) then 2 else 0)" for fl :: u16
  by (rule bit_word_eqI) (auto simp: bit_simps less_Suc_eq numeral_2_eq_2)

lemma cenum_two_bits:
  fixes fl :: u16
  assumes "Suc k < 16"
  shows "cenum_bit_range fl (Suc k) k = Inr ((if bit fl k then 1 else 0) OR (if bit fl (Suc k) then 2 else 0) :: u16)"
proof -
  have "cenum_bit_range fl (Suc k) k = Inr (drop_bit k fl AND mask (Suc k - k + 1))"
    by (subst bit_range_ok(2)) (use assms in simp_all)
  also have "Suc k - k + 1 = 2" by simp
  finally show ?thesis unfolding two_bits .
qed

lemma polarity_cases:
  "polarity fl = Inr (if bit fl 1 then if bit fl 0 then ActiveLo else PReserved
     else if bit fl 0 then ActiveHi else PNoOverride)"
proof -
  have "cenum_bit_range fl 1 0 = Inr ((if bit fl 0 then 1 else 0) OR (if bit fl 1 then 2 else 0) :: u16)"
    using cenum_two_bits [of 0 fl] by (simp only: One_nat_def)
  then show ?thesis unfolding polarity_def
    by (simp only: bindR_Inr) (cases "bit fl 0"; cases "bit fl 1"; simp)
qed

lemma trigger_cases:
  "trigger fl = Inr (if bit fl 3 then if bit fl 2 then Level else TReserved
     else if bit fl 2 then Edge else TNoOverride)"
proof -
  have "cenum_bit_range fl 3 2 = Inr ((if bit fl 2 then 1 else 0) OR (if bit fl 3 then 2 else 0) :: u16)"
    using cenum_two_bits [of 2 fl] by (simp only: eval_nat_numeral BitM.simps)
  then show ?thesis unfolding trigger_def
    by (simp only: bindR_Inr) (cases "bit fl 2"; cases "bit fl 3"; simp)
qed

lemma register_override_run:
  fixes d :: ioapic_dev
  assumes "bitfield_crate P" "unat (gsi ovr) = g" "g < 120" "length (irqs self) = 32"
    "fl = ovr_flags ovr" "unat (irq_source ovr) = src"
  shows "if 32 \<le> src then register_override P ovr self d = Inl IndexOutOfBounds
    else if (bit fl 1 \<and> \<not> bit fl 0) \<or> (bit fl 3 \<and> \<not> bit fl 2) then register_override P ovr self d = Inl Unreachable
    else \<exists>d'. register_override P ovr self d = Inr (self\<lparr>irqs := (irqs self)[src := g]\<rparr>, d') \<and>
      (\<forall>j<120. j \<noteq> g \<longrightarrow> entry_of d' j = entry_of d j) \<and>
      (\<forall>n. bit (entry_of d' g) n \<longleftrightarrow>
         (if n = 13 \<and> bit fl 0 then bit fl 1 else if n = 15 \<and> bit fl 2 then bit fl 3
          else bit (entry_of d g) n))"
proof -
  let ?bad = "(bit fl 1 \<and> \<not> bit fl 0) \<or> (bit fl 3 \<and> \<not> bit fl 2)"
  note pb = bitfield_crate.bit_put_bits [OF assms(1)]
  obtain d1 where d1: "get_entry g d = Inr (entry_of d g, d1)" "\<forall>j<120. entry_of d1 j = entry_of d j"
    using iot.get_view [OF assms(3)] by blast
  define e1 where "e1 = (if bit fl 0 then set_active_low P (bit fl 1) (entry_of d g) else entry_of d g)"
  define e2 where "e2 = (if bit fl 2 then set_level_triggered P (bit fl 3) e1 else e1)"
  have panic: "register_override P ovr self d = Inl IndexOutOfBounds" if "32 \<le> src"
    using that assms(4,6) by (simp add: register_override_def)
  have bad: "register_override P ovr self d = Inl Unreachable" if "\<not> 32 \<le> src" ?bad
    using that assms d1 by (auto simp: register_override_def polarity_cases trigger_cases)
  have good: "register_override P ovr self d =
      bindR (set_entry g e2 d1) (\<lambda>d2. Inr (self\<lparr>irqs := (irqs self)[src := g]\<rparr>, d2))"
    if "\<not> 32 \<le> src" "\<not> ?bad"
    using that assms d1
    by (cases "bit fl 0"; cases "bit fl 2")
      (simp_all add: register_override_def polarity_cases trigger_cases e1_def e2_def)
  have e2: "bit e2 n \<longleftrightarrow> (if n = 13 \<and> bit fl 0 then bit fl 1 else if n = 15 \<and> bit fl 2 then bit fl 3
      else bit (entry_of d g) n)" for n
    by (simp add: e2_def e1_def set_active_low_def set_level_triggered_def pb)
  obtain d2 where d2: "set_entry g e2 d1 = Inr d2" "\<forall>j<120. entry_of d2 j = ((entry_of d1)(g := e2)) j"
    using iot.set_view [OF assms(3)] by blast
  have "entry_of d2 g = e2" "\<forall>j<120. j \<noteq> g \<longrightarrow> entry_of d2 j = entry_of d j"
    using d2(2) d1(2) assms(3) by simp_all
  then show ?thesis using panic bad good d2(1) e2 by auto
qed

text \<open>
  An interrupt override whose polarity and trigger are not the reserved value: the source
  interrupt is routed to the global one, whose entry gets the polarity and the trigger of the
  override where it gives one; nothing else changes. A reserved value, and a source outside
  the 32 interrupts, panics.
\<close>

theorem register_override_correct:
  fixes d :: ioapic_dev
  assumes "bitfield_crate P" "unat (gsi ovr) = g" "g < 120" "length (irqs self) = 32"
    "fl = ovr_flags ovr" "unat (irq_source ovr) = src"
  shows "if 32 \<le> src then register_override P ovr self d = Inl IndexOutOfBounds
    else if (bit fl 1 \<and> \<not> bit fl 0) \<or> (bit fl 3 \<and> \<not> bit fl 2) then register_override P ovr self d = Inl Unreachable
    else \<exists>d'. register_override P ovr self d = Inr (self\<lparr>irqs := (irqs self)[src := g]\<rparr>, d') \<and>
      (\<forall>j<120. j \<noteq> g \<longrightarrow> entry_of d' j = entry_of d j) \<and>
      (\<forall>n. bit (entry_of d' g) n \<longleftrightarrow>
         (if n = 13 \<and> bit fl 0 then bit fl 1 else if n = 15 \<and> bit fl 2 then bit fl 3
          else bit (entry_of d g) n))"
  using register_override_run [OF assms] .

theorem register_override_correct_witness:
  "\<exists>d'. register_override doc_bitfield \<lparr>bus_source = 0, irq_source = 9, gsi = 9, ovr_flags = 0xd\<rparr>
      \<lparr>io_id = 0, interrupt_base = 0, io_base = 0, irqs = [0..<32]\<rparr> sample_ioapic =
    Inr (\<lparr>io_id = 0, interrupt_base = 0, io_base = 0, irqs = [0..<32][9 := 9]\<rparr>, d') \<and>
    \<not> bit (entry_of d' 9) 13 \<and> bit (entry_of d' 9) 15"
proof -
  let ?o = "\<lparr>bus_source = 0, irq_source = 9, gsi = 9, ovr_flags = 0xd\<rparr>"
  let ?s = "\<lparr>io_id = 0, interrupt_base = 0, io_base = 0, irqs = [0..<32]\<rparr>"
  have h: "unat (gsi ?o) = 9" "9 < (120::nat)" "length (irqs ?s) = 32" "0xd = ovr_flags ?o"
    "unat (irq_source ?o) = 9" by simp_all
  have b: "bit (0xd :: u16) 0" "\<not> bit (0xd :: u16) 1" "bit (0xd :: u16) 2" "bit (0xd :: u16) 3" by simp_all
  show ?thesis
    using register_override_correct [OF docbf.bitfield_crate_axioms h, of sample_ioapic] b by auto
qed

end
