(* ===== verification/Timers.thy ===== *)
theory Timers
  imports Apic
begin

text \<open>
  The timers of \<^verbatim>\<open>hdint/pit.rs\<close>, \<^verbatim>\<open>hdint/rtc.rs\<close> and \<^verbatim>\<open>hdint/hpet.rs\<close> and the operations of
  \<^verbatim>\<open>hdint.rs\<close> that set them up. Writes to the ports of the interval timer are a log; the real
  time clock and the HPET are stores of registers.
\<close>

section \<open>The interval timer\<close>

datatype Channel = Chan0 | Chan1 | Chan2 | ReadBack
datatype AccessMode = LatchCount | LoByte | HiByte | LoHiByte
datatype OperatingMode = ITC | Oneshot | RateGen | SquareGen | SoftwareStrobe | HardwareStrobe

primrec channel_bits :: "Channel \<Rightarrow> u8" where
  "channel_bits Chan0 = 0"
| "channel_bits Chan1 = 1"
| "channel_bits Chan2 = 2"
| "channel_bits ReadBack = 3"

primrec access_bits :: "AccessMode \<Rightarrow> u8" where
  "access_bits LatchCount = 0"
| "access_bits LoByte = 1"
| "access_bits HiByte = 2"
| "access_bits LoHiByte = 3"

primrec mode_bits :: "OperatingMode \<Rightarrow> u8" where
  "mode_bits ITC = 0"
| "mode_bits Oneshot = 1"
| "mode_bits RateGen = 2"
| "mode_bits SquareGen = 3"
| "mode_bits SoftwareStrobe = 4"
| "mode_bits HardwareStrobe = 5"

definition FP_WIDTH :: nat where "FP_WIDTH = 24"
definition PIT_NATIVE_FREQ :: nat where "PIT_NATIVE_FREQ = 1193182"
definition PIT_TIMER_RLD :: u16 where "PIT_TIMER_RLD = 600"
definition PIT_INTERVAL :: u64 where "PIT_INTERVAL = 0x1f6db68b1"

record pit_state =
  port_writes :: "(nat \<times> u8) list"
  TIMER_COUNTER :: u64
  pit_interrupts :: bool

definition pit_interrupt :: "u64 \<Rightarrow> instr list" where
  "pit_interrupt timer =
     [Push RAX,
      Push RBX,
      Pushfq,
      Load RAX timer,
      MovI RBX PIT_INTERVAL,
      AddR RAX RBX,
      Store timer RAX,
      MovI RAX 0,
      Store (of_nat LAPIC_EOI_ADDR) RAX,
      Popfq,
      Pop RBX,
      Pop RAX,
      Iretq]"

definition port_write :: "nat \<Rightarrow> u8 \<Rightarrow> pit_state \<Rightarrow> pit_state" where
  "port_write port v s = s\<lparr>port_writes := port_writes s @ [(port, v)]\<rparr>"

definition send_command ::
  "Channel \<Rightarrow> AccessMode \<Rightarrow> OperatingMode \<Rightarrow> bool \<Rightarrow> pit_state \<Rightarrow> pit_state" where
  "send_command channel access_mode op_mode use_bcd =
     port_write 0x43 (push_bit 6 (channel_bits channel) OR push_bit 4 (access_bits access_mode) OR
       push_bit 1 (mode_bits op_mode) OR of_bool use_bcd)"

definition latch :: "Channel \<Rightarrow> pit_state \<Rightarrow> pit_state" where
  "latch channel = send_command channel LatchCount ITC False"

definition pit_init :: "pit_state \<Rightarrow> pit_state" where
  "pit_init s =
     (let s1 = send_command Chan0 LoHiByte SquareGen False (s\<lparr>pit_interrupts := False\<rparr>);
          s2 = port_write 0x40 (ucast (PIT_TIMER_RLD AND 0xff)) s1;
          s3 = port_write 0x40 (ucast (drop_bit 8 PIT_TIMER_RLD AND 0xff)) s2 in
      s3\<lparr>pit_interrupts := True\<rparr>)"

text \<open>
  The waiting loop: how many times the timer's handler runs between the read of the counter and
  the halt, and whether it is the interrupt that ends the halt. \<open>None\<close> is still waiting.
\<close>

fun pit_wait :: "u64 \<Rightarrow> (nat \<times> bool) list \<Rightarrow> u64 \<Rightarrow> u64 option" where
  "pit_wait ctr_val [] counter = (if counter < ctr_val then None else Some counter)"
| "pit_wait ctr_val ((before, wake) # turns) counter =
     (if counter < ctr_val
      then pit_wait ctr_val turns (counter + PIT_INTERVAL * of_nat before + PIT_INTERVAL * of_bool wake)
      else Some counter)"

definition sleep_us :: "(nat \<times> bool) list \<Rightarrow> u32 \<Rightarrow> pit_state \<Rightarrow> pit_state option" where
  "sleep_us turns us s =
     (let ctr_val = push_bit FP_WIDTH (ucast us);
          s1 = s\<lparr>TIMER_COUNTER := 0\<rparr> in
      case pit_wait ctr_val turns (TIMER_COUNTER s1) of
        None \<Rightarrow> None
      | Some c \<Rightarrow> Some (s1\<lparr>TIMER_COUNTER := c\<rparr>))"

definition init_pit :: "u64 bitfield_ops \<Rightarrow> IOApic \<Rightarrow> ioapic_dev \<Rightarrow> pit_state \<Rightarrow> (ioapic_dev \<times> pit_state) res" where
  "init_pit P self d s = bindR (enable_pit P self d) (\<lambda>d1. Inr (d1, pit_init s))"

section \<open>The real time clock\<close>

text \<open>The index port selects a register with its lower seven bits.\<close>

record rtc_state =
  cmos_index :: u8
  cmos :: "u8 \<Rightarrow> u8"
  TICKS_SINCE_BOOT :: u64
  rtc_interrupts :: bool

definition reg_write :: "u8 \<Rightarrow> rtc_state \<Rightarrow> rtc_state" where
  "reg_write v s = s\<lparr>cmos_index := v AND 0x7f\<rparr>"

definition data_read :: "rtc_state \<Rightarrow> u8" where
  "data_read s = cmos s (cmos_index s)"

definition data_write :: "u8 \<Rightarrow> rtc_state \<Rightarrow> rtc_state" where
  "data_write v s = s\<lparr>cmos := (cmos s)(cmos_index s := v)\<rparr>"

definition rtc_interrupt :: "rtc_state \<Rightarrow> rtc_state" where
  "rtc_interrupt s = reg_write 0x0c (s\<lparr>TICKS_SINCE_BOOT := TICKS_SINCE_BOOT s + 1\<rparr>)"

definition enable_int :: "rtc_state \<Rightarrow> rtc_state" where
  "enable_int s =
     (let s1 = reg_write 0x8b (s\<lparr>rtc_interrupts := False\<rparr>);
          d = data_read s1;
          s2 = reg_write 0x8b s1;
          s3 = data_write (d OR 0x40) s2 in
      s3\<lparr>rtc_interrupts := True\<rparr>)"

definition set_rate :: "u8 \<Rightarrow> rtc_state \<Rightarrow> rtc_state res" where
  "set_rate rate s =
     bindR (assertR (rate > 2 \<and> rate < 16)) (\<lambda>_.
     let s0 = s\<lparr>rtc_interrupts := False, TICKS_SINCE_BOOT := 0\<rparr>;
         s1 = reg_write 0x8a s0;
         d = data_read s1;
         s2 = reg_write 0x8a s1;
         s3 = data_write ((d AND 0xf0) OR (rate AND 0x0f)) s2 in
     Inr (s3\<lparr>rtc_interrupts := True\<rparr>))"

definition enable_rtc ::
  "u64 bitfield_ops \<Rightarrow> IOApic \<Rightarrow> ioapic_dev \<Rightarrow> rtc_state \<Rightarrow> (ioapic_dev \<times> rtc_state) res" where
  "enable_rtc P self d s =
     bindR (irq_at self GLOBAL_RTC) (\<lambda>irq.
     bindR (get_entry irq d) (\<lambda>(entry, d1).
     bindR (set_entry irq (set_vector P IRQ_RTC (set_mask P False entry)) d1) (\<lambda>d2.
     Inr (d2, enable_int s))))"

section \<open>The HPET\<close>

type_synonym hpet_regs = "nat \<Rightarrow> u64"

definition CAPABILITIES_OFFSET :: nat where "CAPABILITIES_OFFSET = 0x000"
definition CONFIGURATION_OFFSET :: nat where "CONFIGURATION_OFFSET = 0x010"
definition INTERRUPT_STATUS_OFFSET :: nat where "INTERRUPT_STATUS_OFFSET = 0x020"
definition MC_VALUE_OFFSET :: nat where "MC_VALUE_OFFSET = 0x0f0"
definition TIMER_BASE_OFFSET :: nat where "TIMER_BASE_OFFSET = 0x100"

definition period_fs :: "u64 bitfield_ops \<Rightarrow> u64 \<Rightarrow> u32" where
  "period_fs P caps = ucast (get_bits P caps 63 32)"

definition irq_capabilities :: "u64 bitfield_ops \<Rightarrow> u64 \<Rightarrow> u32" where
  "irq_capabilities P config = ucast (get_bits P config 63 32)"

definition set_enabled :: "u64 bitfield_ops \<Rightarrow> bool \<Rightarrow> u64 \<Rightarrow> u64" where
  "set_enabled P b config = put_bits P config 0 0 (of_bool b)"

definition set_active_irq :: "u64 bitfield_ops \<Rightarrow> u8 \<Rightarrow> u64 \<Rightarrow> u64" where
  "set_active_irq P v config = put_bits P config 13 9 (ucast v)"

definition set_irq_enabled :: "u64 bitfield_ops \<Rightarrow> bool \<Rightarrow> u64 \<Rightarrow> u64" where
  "set_irq_enabled P b config = put_bits P config 2 2 (of_bool b)"

definition set_periodic :: "u64 bitfield_ops \<Rightarrow> bool \<Rightarrow> u64 \<Rightarrow> u64" where
  "set_periodic P b config = put_bits P config 3 3 (of_bool b)"

definition set_cnf :: "u64 bitfield_ops \<Rightarrow> bool \<Rightarrow> u64 \<Rightarrow> u64" where
  "set_cnf P b config = put_bits P config 6 6 (of_bool b)"

definition HPET_FLAGS :: u64 where
  "HPET_FLAGS = PRESENT OR WRITABLE OR WRITE_THROUGH OR NO_CACHE OR NO_EXECUTE"

definition HPET_new ::
  "x86_ops \<Rightarrow> ('m, 'b) mapper_ops \<Rightarrow> HPETTable \<Rightarrow> ('m, 'b) MapperAllocator \<Rightarrow>
   (nat \<times> ('m, 'b) MapperAllocator) res" where
  "HPET_new X M table mapall =
     bindR (assertR (address_space (hpet_address table) = 0)) (\<lambda>_.
     bindR (expectR (frame_from_start X 4096 (unat (gas_address (hpet_address table))))) (\<lambda>frame.
     bindR (expectR (page_from_start X 4096 HPET_ADDR)) (\<lambda>page.
     bindR (map_to M mapall page frame HPET_FLAGS) (\<lambda>(r, mapall1).
     case r of Inl _ \<Rightarrow> Inl UnwrapFailed | Inr _ \<Rightarrow> Inr (page, mapall1)))))"

definition capabilities :: "hpet_regs \<Rightarrow> u64" where
  "capabilities h = h CAPABILITIES_OFFSET"

text \<open>The offset of a timer's configuration; its comparator is 8 above.\<close>

definition timer :: "u8 \<Rightarrow> nat" where
  "timer index = TIMER_BASE_OFFSET + 0x20 * unat index"

definition get_counter :: "hpet_regs \<Rightarrow> u64" where
  "get_counter h = h MC_VALUE_OFFSET"

definition interrupt_status :: "hpet_regs \<Rightarrow> u32" where
  "interrupt_status h = ucast (h INTERRUPT_STATUS_OFFSET AND 0xffffffff)"

definition configuration :: "hpet_regs \<Rightarrow> u64" where
  "configuration h = h CONFIGURATION_OFFSET"

definition set_configuration :: "u64 \<Rightarrow> hpet_regs \<Rightarrow> hpet_regs" where
  "set_configuration c h = h(CONFIGURATION_OFFSET := c)"

definition comparator :: "u8 \<Rightarrow> hpet_regs \<Rightarrow> u64" where
  "comparator index h = h (timer index + 8)"

definition set_comparator :: "u8 \<Rightarrow> u64 \<Rightarrow> hpet_regs \<Rightarrow> hpet_regs" where
  "set_comparator index v h = h(timer index + 8 := v)"

definition hpet_enable :: "u64 bitfield_ops \<Rightarrow> hpet_regs \<Rightarrow> hpet_regs" where
  "hpet_enable P h = set_configuration (set_enabled P True (configuration h)) h"

definition hpet_disable :: "u64 bitfield_ops \<Rightarrow> hpet_regs \<Rightarrow> hpet_regs" where
  "hpet_disable P h = set_configuration (set_enabled P False (configuration h)) h"

definition disable_timer :: "u64 bitfield_ops \<Rightarrow> u8 \<Rightarrow> hpet_regs \<Rightarrow> hpet_regs" where
  "disable_timer P index h = h(timer index := set_irq_enabled P False (h (timer index)))"

definition enable_timer :: "u64 bitfield_ops \<Rightarrow> u8 \<Rightarrow> u8 \<Rightarrow> u64 \<Rightarrow> hpet_regs \<Rightarrow> hpet_regs res" where
  "enable_timer P index on_irq period_ns h =
     (let h1 = hpet_disable P h;
          clk_period_fs = ucast (period_fs P (capabilities h1)) in
      bindR (wmul period_ns 1000000) (\<lambda>fs.
      if clk_period_fs = 0 then Inl DivByZero
      else
        let period_ticks = fs div clk_period_fs;
            curcount = get_counter h1 in
        bindR (wshl 1 (unat on_irq)) (\<lambda>irq_bit.
        let timer_config = h1 (timer index) in
        bindR (assertR (irq_capabilities P timer_config AND irq_bit \<noteq> 0)) (\<lambda>_.
        let c = set_cnf P True (set_periodic P True (set_irq_enabled P True
              (set_active_irq P on_irq timer_config)));
            h2 = h1(timer index := c);
            h3 = set_comparator index (curcount + period_ticks) h2 in
        Inr (set_comparator index period_ticks h3)))))"

definition get_ns :: "u64 bitfield_ops \<Rightarrow> hpet_regs \<Rightarrow> u64 res" where
  "get_ns P h =
     (let clk_period_fs = period_fs P (capabilities h);
          clk_period_ns = clk_period_fs div 1000000 in
      wmul (get_counter h) (ucast clk_period_ns))"

definition init_hpet ::
  "x86_ops \<Rightarrow> ('m, 'b) mapper_ops \<Rightarrow> u64 bitfield_ops \<Rightarrow> HPETTable \<Rightarrow> ('m, 'b) MapperAllocator \<Rightarrow>
   IOApic \<Rightarrow> ioapic_dev \<Rightarrow> hpet_regs \<Rightarrow> (('m, 'b) MapperAllocator \<times> ioapic_dev \<times> hpet_regs) res" where
  "init_hpet X M P table mapall self d h =
     bindR (HPET_new X M table mapall) (\<lambda>(_, mapall1).
     let h1 = hpet_disable P h in
     bindR (expectR (lowest_one (unat (irq_capabilities P (h1 (timer 0)))))) (\<lambda>on_irq.
     bindR (irq_at self on_irq) (\<lambda>irq.
     bindR (get_entry irq d) (\<lambda>(entry, d1).
     bindR (set_entry irq (set_vector P IRQ_HPET (set_mask P True entry)) d1) (\<lambda>d2.
     Inr (mapall1, d2, disable_timer P 0 h1))))))"

section \<open>The naked handlers\<close>

text \<open>
  A handler that comes to its \<^verbatim>\<open>iretq\<close> with the registers restored and the interrupt frame
  untouched returns to the interrupted code as it was.
\<close>

lemma iretq_resumes:
  assumes "gpr m6 = (gpr m)(RSP := a - 40)" "a = gpr m RSP AND NOT 15"
    and "\<forall>b\<in>window (a - 40) 5. mem m6 b = mem (interrupt trap h m) b"
  shows "iretq m6 = m6\<lparr>rip := rip m, cs := cs m, rflags := rflags m, ss := ss m, gpr := gpr m\<rparr>"
proof -
  have "frame_at (a - 40) (iret_frame m) (mem (interrupt trap h m))"
    using interrupt_run(2) [of m trap h] by (simp only: assms(2))
  then have "frame_at (a - 40) (iret_frame m) (mem m6)"
    by (subst frame_at_window_cong [OF assms(3)]) simp_all
  then have "frame_at (gpr m6 RSP) (iret_frame m) (mem m6)" using assms(1) by simp
  then show ?thesis
    using iretq_frame [of m6 "rip m" "cs m" "rflags m" "gpr m RSP" "ss m"] assms(1)
    by (simp add: iret_frame_def)
qed

lemma not_in_window:
  assumes "b \<notin> window (a - 64) 8"
  shows "b \<noteq> a - 48" "b \<noteq> a - 56" "b \<noteq> a - 64" "b \<notin> window (a - 40) 5" "b \<notin> window (a - 48) 6"
proof -
  have "window (a - 40) 5 \<subseteq> window (a - 64) 8" "window (a - 48) 6 \<subseteq> window (a - 64) 8"
    using window_shift [of 3 5 8 "a - 64"] window_shift [of 2 6 8 "a - 64"] by simp_all
  then show "b \<notin> window (a - 40) 5" "b \<notin> window (a - 48) 6" using assms by auto
  have "a - 48 \<in> window (a - 64) 8" "a - 56 \<in> window (a - 64) 8" "a - 64 \<in> window (a - 64) 8"
    by (simp_all add: window_def image_iff bexI [of _ 2] bexI [of _ 1] bexI [of _ 0])
  then show "b \<noteq> a - 48" "b \<noteq> a - 56" "b \<noteq> a - 64" using assms by auto
qed

lemma saved_not_in_frame:
  "a - 48 \<notin> window (a - 40) 5" "a - 56 \<notin> window (a - 40) 5" "a - 64 \<notin> window (a - 40) 5" for a :: u64
  using windows_disjoint [of 3 5 "a - 64"] by (auto simp: window_Suc numeral_3_eq_3)

text \<open>
  C26. The handler of the interval timer is transparent: whatever code it interrupts continues
  with all its registers, its flags and its stack; of the memory above the interrupted stack
  pointer only the counter has changed, by the length of a period, and the end of interrupt
  register.
\<close>

theorem pit_interrupt_transparent:
  fixes m :: machine
  assumes "a = gpr m RSP AND NOT 15" "eoi_reg = of_nat LAPIC_EOI_ADDR" "timer_cell \<noteq> eoi_reg"
    and "timer_cell \<notin> window (a - 64) 8" "eoi_reg \<notin> window (a - 64) 8"
  shows "\<exists>m'. exec (pit_interrupt timer_cell) (interrupt False h m) = Transferred m' \<and>
    m' = m\<lparr>mem := mem m'\<rparr> \<and> mem m' timer_cell = mem m timer_cell + PIT_INTERVAL \<and> mem m' eoi_reg = 0 \<and>
    (\<forall>b. b \<notin> window (a - 64) 8 \<longrightarrow> b \<noteq> timer_cell \<longrightarrow> b \<noteq> eoi_reg \<longrightarrow> mem m' b = mem m b)"
proof -
  let ?i = "interrupt False h m"
  note int = interrupt_run [where m = m and trap = False and h = h, folded assms(1)]
  note ne = not_in_window [OF assms(4)] not_in_window [OF assms(5)]
  define m6 where "m6 = fold effect (butlast (pit_interrupt timer_cell)) ?i"
  have e: "exec (pit_interrupt timer_cell) ?i = Transferred (iretq m6)"
    by (simp add: pit_interrupt_def m6_def)
  have M: "mem m6 = (mem ?i)(a - 48 := gpr m RAX, a - 56 := gpr m RBX, a - 64 := rflags ?i,
      timer_cell := mem ?i timer_cell + PIT_INTERVAL, eoi_reg := 0)"
    using ne assms(3) by (simp add: m6_def pit_interrupt_def int(1) stack_top_def assms(2))
  have G: "gpr m6 = (gpr m)(RSP := a - 40)"
    using ne assms(3)
    by (intro ext) (simp add: m6_def pit_interrupt_def int(1) stack_top_def assms(2))
  have F: "\<forall>b\<in>window (a - 40) 5. mem m6 b = mem ?i b"
    using ne(4,9) saved_not_in_frame [of a] unfolding M by auto
  have "mem ?i timer_cell = mem m timer_cell" by (rule int(3) [OF ne(4)])
  then show ?thesis
    using e iretq_resumes [OF G assms(1) F] assms(3) int(3) not_in_window
    by (intro exI [of _ "iretq m6"]) (auto simp: M)
qed

theorem pit_interrupt_transparent_witness:
  "\<exists>m'. exec (pit_interrupt 0x2000) (interrupt False 0x3000 sample_interrupted) = Transferred m' \<and>
    m' = sample_interrupted\<lparr>mem := mem m'\<rparr> \<and> mem m' 0x2000 = PIT_INTERVAL"
proof -
  have h: "0x9000 = gpr sample_interrupted RSP AND NOT 15" "(0x1f10000000b0 :: u64) = of_nat LAPIC_EOI_ADDR"
    "(0x2000 :: u64) \<noteq> 0x1f10000000b0" "(0x2000 :: u64) \<notin> window (0x9000 - 64) 8"
    "(0x1f10000000b0 :: u64) \<notin> window (0x9000 - 64) 8"
    by (simp_all add: sample_interrupted_def LAPIC_EOI_ADDR_def LAPIC_ADDR_def EOI_OFFSET_def
        window_def lessThan_nat_numeral lessThan_Suc)
  have "mem sample_interrupted 0x2000 = 0" by (simp add: sample_interrupted_def)
  then show ?thesis using pit_interrupt_transparent [OF h, of "0x3000"] by auto
qed

text \<open>The handler of the local timer is transparent in the same way; it clears the lowest flag.\<close>

lemma lapic_clk_interrupt_transparent:
  fixes m :: machine
  assumes "a = gpr m RSP AND NOT 15" "eoi_reg = of_nat LAPIC_EOI_ADDR" "cell \<noteq> eoi_reg"
    and "cell \<notin> window (a - 64) 8" "eoi_reg \<notin> window (a - 64) 8"
  shows "\<exists>m'. exec (lapic_clk_interrupt cell) (interrupt False h m) = Transferred m' \<and>
    m' = m\<lparr>mem := mem m'\<rparr> \<and> mem m' cell = and_byte 0xfe (mem m cell) \<and> mem m' eoi_reg = 0 \<and>
    (\<forall>b. b \<notin> window (a - 64) 8 \<longrightarrow> b \<noteq> cell \<longrightarrow> b \<noteq> eoi_reg \<longrightarrow> mem m' b = mem m b)"
proof -
  let ?i = "interrupt False h m"
  note int = interrupt_run [where m = m and trap = False and h = h, folded assms(1)]
  note ne = not_in_window [OF assms(4)] not_in_window [OF assms(5)]
  define m6 where "m6 = fold effect (butlast (lapic_clk_interrupt cell)) ?i"
  have e: "exec (lapic_clk_interrupt cell) ?i = Transferred (iretq m6)"
    by (simp add: lapic_clk_interrupt_def m6_def)
  have M: "mem m6 = (mem ?i)(a - 48 := gpr m RAX, cell := and_byte 0xfe (mem ?i cell), eoi_reg := 0)"
    using ne assms(3) by (simp add: m6_def lapic_clk_interrupt_def int(1) stack_top_def assms(2))
  have G: "gpr m6 = (gpr m)(RSP := a - 40)"
    using ne assms(3)
    by (intro ext) (simp add: m6_def lapic_clk_interrupt_def int(1) stack_top_def assms(2))
  have F: "\<forall>b\<in>window (a - 40) 5. mem m6 b = mem ?i b"
    using ne(4,9) saved_not_in_frame [of a] unfolding M by auto
  have "mem ?i cell = mem m cell" by (rule int(3) [OF ne(4)])
  then show ?thesis
    using e iretq_resumes [OF G assms(1) F] assms(3) int(3) not_in_window
    by (intro exI [of _ "iretq m6"]) (auto simp: M)
qed

section \<open>Waiting on the interval timer\<close>

definition ticks :: "(nat \<times> bool) list \<Rightarrow> nat" where
  "ticks turns = sum_list (map (\<lambda>(before, wake). before + of_bool wake) turns)"

lemma ticks_simps [simp]:
  "ticks [] = 0" "ticks ((b, w) # turns) = b + of_bool w + ticks turns"
  by (simp_all add: ticks_def)

lemma counter_step:
  assumes "unat counter + unat PIT_INTERVAL * (b + of_bool w) < 2 ^ 64"
  shows "unat (counter + PIT_INTERVAL * of_nat b + PIT_INTERVAL * of_bool w) =
    unat counter + unat PIT_INTERVAL * (b + of_bool w)"
proof -
  have e: "counter + PIT_INTERVAL * of_nat b + PIT_INTERVAL * of_bool w =
      of_nat (unat counter + unat PIT_INTERVAL * (b + of_bool w))"
    by (simp add: algebra_simps)
  show ?thesis unfolding e using assms by (simp only: unsigned_of_nat) (simp add: take_bit_nat_eq_self)
qed

lemma pit_wait_result:
  assumes "unat counter + unat PIT_INTERVAL * ticks turns < 2 ^ 64"
  shows "case pit_wait c turns counter of
      None \<Rightarrow> unat counter + unat PIT_INTERVAL * ticks turns < unat c
    | Some r \<Rightarrow> unat c \<le> unat r \<and> (\<exists>k\<le>ticks turns. unat r = unat counter + unat PIT_INTERVAL * k) \<and>
        ((\<forall>t\<in>set turns. fst t = 0) \<longrightarrow> unat counter < unat c \<longrightarrow> unat r < unat c + unat PIT_INTERVAL)"
  using assms
proof (induction c turns counter rule: pit_wait.induct)
  case (2 c b w turns counter)
  let ?n = "counter + PIT_INTERVAL * of_nat b + PIT_INTERVAL * of_bool w"
  have "unat counter + unat PIT_INTERVAL * (b + of_bool w) < 2 ^ 64"
    using 2(2) by (simp add: distrib_left)
  note st = counter_step [OF this]
  show ?case
  proof (cases "counter < c")
    case True
    have b: "unat ?n + unat PIT_INTERVAL * ticks turns < 2 ^ 64"
      using 2(2) st by (simp add: distrib_left)
    note IH = 2(1) [OF True b]
    show ?thesis
    proof (cases "pit_wait c turns ?n")
      case None
      then show ?thesis using IH True st by (simp add: distrib_left)
    next
      case (Some r)
      then have r: "unat c \<le> unat r" "\<exists>k\<le>ticks turns. unat r = unat ?n + unat PIT_INTERVAL * k"
        "(\<forall>t\<in>set turns. fst t = 0) \<Longrightarrow> unat ?n < unat c \<Longrightarrow> unat r < unat c + unat PIT_INTERVAL"
        using IH by simp_all
      from r(2) obtain k where k: "k \<le> ticks turns" "unat r = unat ?n + unat PIT_INTERVAL * k" by blast
      then have "unat r = unat counter + unat PIT_INTERVAL * (b + of_bool w + k)"
        using st by (simp add: distrib_left)
      moreover have "unat r < unat c + unat PIT_INTERVAL" if "b = 0" "\<forall>t\<in>set turns. fst t = 0"
      proof (cases "unat ?n < unat c")
        case False
        then have "pit_wait c turns ?n = Some ?n" by (cases turns) (auto simp: word_less_nat_alt)
        then have "unat r = unat counter + unat PIT_INTERVAL * of_bool w" using Some st that(1) by simp
        also have "\<dots> < unat c + unat PIT_INTERVAL"
          using True by (cases w) (simp_all add: word_less_nat_alt PIT_INTERVAL_def)
        finally show ?thesis .
      qed (use r(3) that in blast)
      ultimately show ?thesis using Some True r(1) k(1)
        by (auto intro!: exI [of _ "b + of_bool w + k"])
    qed
  next
    case False
    then show ?thesis by (auto simp: word_less_nat_alt not_less)
  qed
qed (auto simp: word_less_nat_alt not_less)

lemma ceil_div:
  fixes t p k :: nat
  assumes "0 < p"
  shows "(t + p - 1) div p \<le> k \<longleftrightarrow> t \<le> k * p"
proof -
  have "(t + p - 1) div p \<le> k \<longleftrightarrow> (t + p - 1) div p < Suc k" by (rule less_Suc_eq_le [symmetric])
  also have "\<dots> \<longleftrightarrow> t + p - 1 < Suc k * p" using assms by (rule div_less_iff_less_mult)
  also have "\<dots> \<longleftrightarrow> t \<le> k * p" using assms by auto
  finally show ?thesis .
qed

lemma unat_ucast_u32: "unat (ucast w :: u64) = unat w" for w :: u32
proof -
  have "unat w < 2 ^ 32" using unsigned_less [of w] by simp
  then show ?thesis by (simp add: unsigned_ucast_eq take_bit_nat_eq_self)
qed

lemma unat_target: "unat (push_bit FP_WIDTH (ucast us :: u64)) = unat us * 2 ^ 24" for us :: u32
proof -
  have us: "unat us < 2 ^ 32" using unsigned_less [of us] by simp
  then show ?thesis
    unfolding unsigned_push_bit_eq
    by (simp add: FP_WIDTH_def push_bit_eq_mult take_bit_nat_eq_self unat_ucast_u32)
qed

text \<open>
  C25. Sleeping on the interval timer ends exactly when enough of its interrupts have come: the
  least number \<open>n\<close> whose periods add up to the time asked for. When they only come while the
  processor halts, the counter then holds exactly \<open>n\<close> periods. As the phase of the timer at
  the start is not known, the time that has passed is only known to exceed \<open>n - 1\<close> periods,
  which is less than what was asked for.
\<close>

theorem sleep_us_ticks:
  assumes "ticks turns < 2 ^ 30" "target = unat us * 2 ^ 24" "period = unat PIT_INTERVAL"
    "n = (target + period - 1) div period"
  shows "(sleep_us turns us s \<noteq> None \<longleftrightarrow> n \<le> ticks turns) \<and>
    (\<forall>s'. sleep_us turns us s = Some s' \<longrightarrow> (\<forall>t\<in>set turns. fst t = 0) \<longrightarrow>
      unat (TIMER_COUNTER s') = n * period) \<and>
    target \<le> n * period \<and> (0 < us \<longrightarrow> (n - 1) * period < target)"
proof -
  let ?c = "push_bit FP_WIDTH (ucast us :: u64)"
  have p: "0 < period" "period < 2 ^ 33" unfolding assms(3) by (simp_all add: PIT_INTERVAL_def)
  have n: "n \<le> k \<longleftrightarrow> target \<le> k * period" for k
    unfolding assms(4) by (rule ceil_div [OF p(1)])
  have "period * ticks turns < 2 ^ 33 * 2 ^ 30"
    using assms(1) p by (intro mult_strict_mono) simp_all
  then have "unat (0 :: u64) + unat PIT_INTERVAL * ticks turns < 2 ^ 64" by (simp add: assms(3))
  note w = pit_wait_result [OF this, of ?c, unfolded unat_target, folded assms(2,3)]
  have ret: "sleep_us turns us s \<noteq> None \<longleftrightarrow> n \<le> ticks turns"
  proof (cases "pit_wait ?c turns 0")
    case None
    then show ?thesis using w n [of "ticks turns"] by (simp add: sleep_us_def Let_def mult.commute)
  next
    case (Some r)
    then have "target \<le> unat r" "\<exists>k\<le>ticks turns. unat r = k * period" using w by (simp_all add: mult.commute)
    then obtain k where "k \<le> ticks turns" "target \<le> k * period" by auto
    then have "n \<le> ticks turns" using n [of k] by simp
    then show ?thesis using Some by (simp add: sleep_us_def Let_def)
  qed
  have low: "target \<le> n * period" using n [of n] by simp
  have up: "(n - 1) * period < target" if "0 < us"
  proof -
    have "0 < target" using that by (simp add: assms(2) word_less_nat_alt)
    then have "\<not> n \<le> 0" using n [of 0] by simp
    then have "\<not> n \<le> n - 1" by simp
    then show ?thesis using n [of "n - 1"] by (metis not_le)
  qed
  have ex: "unat (TIMER_COUNTER s') = n * period"
    if h: "sleep_us turns us s = Some s'" "\<forall>t\<in>set turns. fst t = 0" for s'
  proof -
    obtain r where r: "pit_wait ?c turns 0 = Some r" "TIMER_COUNTER s' = r"
      using h(1) by (auto simp: sleep_us_def Let_def split: option.splits)
    have "target \<le> unat r" "\<exists>k\<le>ticks turns. unat r = k * period" using w r(1) by (simp_all add: mult.commute)
    then obtain k where k: "target \<le> k * period" "unat r = k * period" by auto
    show ?thesis
    proof (cases "target = 0")
      case True
      then have "n = 0" "unat r = 0" using n [of 0] r(1) assms(2) unat_target [of us]
        by (cases turns; auto simp: word_less_nat_alt)+
      then show ?thesis using r(2) by simp
    next
      case False
      then have "k * period < target + period" using w r(1) k(2) h(2) by simp
      then have "k * period < Suc n * period" using low by simp
      then have "k < Suc n" by (simp only: mult_less_cancel2)
      then have "k \<le> n" by simp
      moreover have "n \<le> k" using n k(1) by simp
      ultimately show ?thesis using k(2) r(2) by simp
    qed
  qed
  show ?thesis using ret low up ex by blast
qed

definition sample_pit :: pit_state where
  "sample_pit = \<lparr>port_writes = [], TIMER_COUNTER = 7, pit_interrupts = True\<rparr>"

text \<open>A millisecond takes two interrupts, each 502 microseconds after the last.\<close>

theorem sleep_us_ticks_witness:
  "sleep_us [(0, False), (0, True), (0, True)] 1000 sample_pit \<noteq> None \<and>
   sleep_us [(0, True)] 1000 sample_pit = None"
proof -
  have p: "unat PIT_INTERVAL = 8436541617" by (simp add: PIT_INTERVAL_def)
  show ?thesis
    using sleep_us_ticks [OF _ refl refl refl, of "[(0, False), (0, True), (0, True)]" 1000 sample_pit]
      sleep_us_ticks [OF _ refl refl refl, of "[(0, True)]" 1000 sample_pit]
    by (simp add: p)
qed

section \<open>The HPET\<close>

lemmas hpet_offsets = CAPABILITIES_OFFSET_def CONFIGURATION_OFFSET_def MC_VALUE_OFFSET_def
  TIMER_BASE_OFFSET_def timer_def

text \<open>
  Starting a timer of the HPET, when its interrupt line is one of those the timer supports,
  programs the timer for periodic interrupts on that line with the number of clock periods in
  the time asked for, and leaves the HPET as a whole disabled: its counter stands still.
\<close>

theorem enable_timer_leaves_disabled:
  fixes h :: hpet_regs
  assumes "bitfield_crate P" "unat period_ns * 1000000 < 2 ^ 64" "on_irq < 32"
    and "clk = period_fs P (h CAPABILITIES_OFFSET)" "0 < clk"
    and "bit (irq_capabilities P (h (timer index))) (unat on_irq)"
  shows "\<exists>h'. enable_timer P index on_irq period_ns h = Inr h' \<and>
    \<not> bit (configuration h') 0 \<and> unat (comparator index h') = unat period_ns * 1000000 div unat clk \<and>
    bit (h' (timer index)) 2 \<and> bit (h' (timer index)) 3 \<and> bit (h' (timer index)) 6 \<and>
    (\<forall>n<5. bit (h' (timer index)) (9 + n) = bit on_irq n)"
proof -
  note pb = bitfield_crate.bit_put_bits [OF assms(1)]
  let ?h1 = "hpet_disable P h"
  have other: "?h1 r = h r" if "r \<noteq> CONFIGURATION_OFFSET" for r
    using that by (simp add: hpet_disable_def set_configuration_def)
  have h1: "?h1 CAPABILITIES_OFFSET = h CAPABILITIES_OFFSET" "?h1 (timer index) = h (timer index)"
    by (rule other; simp add: hpet_offsets)+
  have clk: "unat (ucast clk :: u64) = unat clk"
    by (rule unat_ucast_u32)
  then have nz: "(ucast clk :: u64) \<noteq> 0" using assms(5) by (auto simp: word_less_nat_alt)
  have irq: "unat on_irq < 32" using assms(3) by (simp add: word_less_nat_alt)
  have line: "irq_capabilities P (h (timer index)) AND push_bit (unat on_irq) 1 \<noteq> 0"
    using assms(6) irq by (metis bit_iff_and_push_bit_not_eq_0)
  define c where "c = set_cnf P True (set_periodic P True (set_irq_enabled P True
    (set_active_irq P on_irq (h (timer index)))))"
  define t where "t = period_ns * 1000000 div ucast clk"
  let ?h' = "set_comparator index t (set_comparator index (get_counter ?h1 + t) (?h1(timer index := c)))"
  have mul: "unat (period_ns * 1000000) = unat period_ns * 1000000"
    using assms(2) unat_mult_lem [of period_ns 1000000] by simp
  have run: "enable_timer P index on_irq period_ns h = Inr ?h'"
    using assms(2,4) nz irq line h1
    by (simp add: enable_timer_def Let_def wmul_def wshl_def capabilities_def c_def t_def)
  have off: "configuration ?h' = configuration ?h1" "?h' (timer index) = c" "comparator index ?h' = t"
    by (simp_all add: configuration_def set_comparator_def comparator_def hpet_offsets)
  have "\<not> bit (configuration ?h1) 0"
    by (simp add: hpet_disable_def set_configuration_def configuration_def set_enabled_def pb)
  moreover have "unat t = unat period_ns * 1000000 div unat clk"
    by (simp add: t_def unat_div_distrib clk mul)
  moreover have "bit c 2" "bit c 3" "bit c 6" "\<forall>n<5. bit c (9 + n) = bit on_irq n"
    by (auto simp: c_def set_cnf_def set_periodic_def set_irq_enabled_def set_active_irq_def pb bit_simps
        dest: bit_imp_le_length)
  ultimately show ?thesis using run off by auto
qed

definition sample_hpet :: hpet_regs where
  "sample_hpet = (\<lambda>r. 0)(0 := 0x0429b17f8086a201, 0x10 := 1, 0x100 := 0x0000000400008030)"

theorem enable_timer_leaves_disabled_witness:
  "\<exists>h'. enable_timer doc_bitfield 0 2 1000000 sample_hpet = Inr h' \<and> \<not> bit (configuration h') 0 \<and>
    bit (configuration sample_hpet) 0"
proof -
  have h: "unat (1000000 :: u64) * 1000000 < 2 ^ 64" "(2 :: u8) < 32"
    "0x0429b17f = period_fs doc_bitfield (sample_hpet CAPABILITIES_OFFSET)" "(0 :: u32) < 0x0429b17f"
    "bit (irq_capabilities doc_bitfield (sample_hpet (timer 0))) (unat (2 :: u8))"
    by (simp_all add: period_fs_def irq_capabilities_def doc_bitfield_def sample_hpet_def hpet_offsets)
  have "bit (configuration sample_hpet) 0"
    by (simp add: configuration_def sample_hpet_def hpet_offsets)
  with enable_timer_leaves_disabled [OF docbf.bitfield_crate_axioms h] show ?thesis by auto
qed

text \<open>
  The time in nanoseconds is never ahead, and behind by less than a nanosecond per tick: the
  period is rounded down to whole nanoseconds.
\<close>

lemma get_ns_bounds:
  assumes "get_ns P h = Inr ns" "clk = unat (period_fs P (capabilities h))" "c = unat (get_counter h)"
  shows "unat ns * 1000000 \<le> c * clk" "c * clk \<le> unat ns * 1000000 + c * 999999"
proof -
  let ?ns = "ucast (period_fs P (capabilities h) div 1000000) :: u64"
  have u: "unat ?ns = clk div 1000000" by (simp add: unat_ucast_u32 unat_div_distrib assms(2))
  have "c * unat ?ns < 2 ^ 64" "ns = get_counter h * ?ns"
    using assms(1,3) by (simp_all add: get_ns_def Let_def wmul_def split: if_splits)
  then have ns: "unat ns = c * (clk div 1000000)"
    using unat_mult_lem [of "get_counter h" ?ns] assms(3) u by simp
  have "clk = clk div 1000000 * 1000000 + clk mod 1000000" by simp
  moreover have "clk mod 1000000 \<le> 999999" by (simp add: less_Suc_eq_le [symmetric])
  ultimately have "clk div 1000000 * 1000000 \<le> clk" "clk \<le> clk div 1000000 * 1000000 + 999999"
    by linarith+
  then have "c * (clk div 1000000 * 1000000) \<le> c * clk" "c * clk \<le> c * (clk div 1000000 * 1000000 + 999999)"
    by simp_all
  then show "unat ns * 1000000 \<le> c * clk" "c * clk \<le> unat ns * 1000000 + c * 999999"
    by (simp_all add: ns distrib_left mult.assoc)
qed

end
