(* ===== verification/Scheduler.thy ===== *)
theory Scheduler
  imports Stack Context_Switch Timers
begin

text \<open>
  The Rust part of \<^verbatim>\<open>scheduler.rs\<close> and \<^verbatim>\<open>scheduler/waker.rs\<close>, on top of the assembly of
  \<^verbatim>\<open>Context_Switch\<close>: the task structures lie in the memory of the machine, where the assembly
  reads them, and the Rust functions change that memory, the queue of tasks and the timer.

  The lock-free queue of the \<^verbatim>\<open>crossbeam\<close> crate is a parameter with the contract of a queue.
  The pointer that \<^verbatim>\<open>Box::new\<close> returns is an argument.
\<close>

section \<open>The queue of tasks\<close>

record 'q queue_ops =
  seg_push :: "u64 \<Rightarrow> 'q \<Rightarrow> 'q"
  seg_pop :: "'q \<Rightarrow> u64 option \<times> 'q"

locale seg_queue =
  fixes Q :: "'q queue_ops" and elems :: "'q \<Rightarrow> u64 list"
  assumes elems_push: "elems (seg_push Q x q) = elems q @ [x]"
    and pop_empty: "elems q = [] \<Longrightarrow> \<exists>q'. seg_pop Q q = (None, q') \<and> elems q' = []"
    and pop_first: "elems q = x # xs \<Longrightarrow> \<exists>q'. seg_pop Q q = (Some x, q') \<and> elems q' = xs"

definition list_queue :: "u64 list queue_ops" where
  "list_queue = \<lparr>seg_push = (\<lambda>x q. q @ [x]),
     seg_pop = (\<lambda>q. case q of [] \<Rightarrow> (None, []) | x # xs \<Rightarrow> (Some x, xs))\<rparr>"

interpretation lq: seg_queue list_queue "\<lambda>q. q"
  by unfold_locales (simp_all add: list_queue_def)

section \<open>The code\<close>

definition MAX_TASK_ID :: u64 where "MAX_TASK_ID = 0xfffffffffffe"

definition KERNEL_TASK :: u64 where "KERNEL_TASK = push_bit 63 1"
definition USES_FLOATS :: u64 where "USES_FLOATS = push_bit 62 1"
definition SMALL_STACK :: u64 where "SMALL_STACK = push_bit 61 1"

definition small_kernel :: u64 where "small_kernel = KERNEL_TASK OR SMALL_STACK"
definition kernel :: u64 where "kernel = KERNEL_TASK"

definition INTERRUPTED :: u64 where "INTERRUPTED = push_bit 0 1"

datatype ResumeKind = Blocked | Yielded | Preempted | Complete

definition resume_kind :: "u64 \<Rightarrow> ResumeKind res" where
  "resume_kind flags =
     bindR (cenum_bit_range flags 1 0) (\<lambda>v::u8.
     if v = 0 then Inr Blocked else if v = 1 then Inr Yielded
     else if v = 2 then Inr Preempted else if v = 3 then Inr Complete else Inl Unreachable)"

definition yielded :: u64 where
  "yielded = 0b01"

definition TaskId_priority :: "u64 bitfield_ops \<Rightarrow> u64 \<Rightarrow> u8" where
  "TaskId_priority P w = ucast (get_bits P w 50 48)"

definition TaskId_task_id :: "u64 bitfield_ops \<Rightarrow> u64 \<Rightarrow> u64" where
  "TaskId_task_id P w = get_bits P w 47 0"

definition TaskId_as_flags :: "u64 bitflags_ops \<Rightarrow> u64 \<Rightarrow> u64 res" where
  "TaskId_as_flags F w = bitflags_bit_range F w 63 56"

definition TaskId_set_flags :: "u64 bitflags_ops \<Rightarrow> u64 \<Rightarrow> u64 \<Rightarrow> u64 res" where
  "TaskId_set_flags F w v = bitflags_set_bit_range F w 63 56 v"

definition wake_on_end_offset :: u64 where "wake_on_end_offset = 24"

record TaskInfo =
  ti_sp :: u64
  ti_task_id :: u64
  ti_flags :: u64
  ti_wake_on_end :: u64

definition put_task_info :: "u64 \<Rightarrow> TaskInfo \<Rightarrow> (u64 \<Rightarrow> u64) \<Rightarrow> u64 \<Rightarrow> u64" where
  "put_task_info p info M =
     M(p + sp_offset := ti_sp info, p + taskid_offset := ti_task_id info,
       p + flags_offset := ti_flags info, p + wake_on_end_offset := ti_wake_on_end info)"

record ('q, 'l, 's, 'm, 'b) sched =
  cpu :: machine
  task_queue :: 'q
  NEXT_TASK_ID :: u64
  stacks :: "('l, 's, 'm, 'b) stack_state"
  clock :: clock_state
  gates :: "Entry list option"

definition scheduler_init ::
  "x86_ops \<Rightarrow> 'b bit_ops \<Rightarrow> ('m, 'b) mapper_ops \<Rightarrow> vmem_addrs \<Rightarrow> symbols \<Rightarrow> ('m, 'b) MapperAllocator \<Rightarrow>
   ('q, 'l, 's, 'm, 'b) sched \<Rightarrow> ('q, 'l, 's, 'm, 'b) sched res" where
  "scheduler_init X B M V L mapall s =
     bindR (make_scheduler_stack X B M V mapall) (\<lambda>mapall1.
     bindR (va_add X (HHDM_TOP_ADDR V) SCHEDULER_SP_OFFSET) (\<lambda>sp.
     let m1 = (cpu s)\<lparr>rflags := put_bit 9 False (rflags (cpu s))\<rparr>;
         info = \<lparr>ti_sp = of_nat sp, ti_task_id = TASKID_SCHEDULER, ti_flags = 0, ti_wake_on_end = 0\<rparr>;
         m2 = m1\<lparr>mem := put_task_info (SCHEDULER_TASK L) info (mem m1)\<rparr>;
         m3 = m2\<lparr>rflags := put_bit 9 True (rflags m2)\<rparr> in
     Inr (s\<lparr>cpu := m3, stacks := (stacks s)\<lparr>MAPALL := mapall1\<rparr>\<rparr>)))"

definition spawn_task ::
  "x86_ops \<Rightarrow> 'b bit_ops \<Rightarrow> 'l bit_ops \<Rightarrow> 's bit_ops \<Rightarrow> ('m, 'b) mapper_ops \<Rightarrow> vmem_addrs \<Rightarrow>
   u64 bitflags_ops \<Rightarrow> 'q queue_ops \<Rightarrow> symbols \<Rightarrow> u64 \<Rightarrow> u64 \<Rightarrow> u8 \<Rightarrow> u64 option \<Rightarrow> u64 \<Rightarrow>
   ('q, 'l, 's, 'm, 'b) sched \<Rightarrow> (u64 \<times> ('q, 'l, 's, 'm, 'b) sched) res" where
  "spawn_task X B LB SB M V F Q L task_ptr options priority wake_on_end box s =
     bindR (assertR (contains_flags F options KERNEL_TASK)) (\<lambda>_.
     bindR (assertR (priority < 8)) (\<lambda>_.
     let task_raw_id = NEXT_TASK_ID s;
         s1 = s\<lparr>NEXT_TASK_ID := task_raw_id + 1\<rparr> in
     bindR (assertR (task_raw_id \<le> MAX_TASK_ID)) (\<lambda>_.
     let tid = known_bits F options OR task_raw_id OR push_bit 48 (ucast priority AND 0x7);
         st0 = (stacks s1)\<lparr>interrupts := bit (rflags (cpu s1)) 9\<rparr> in
     bindR (make_kernel_stack X B LB SB M V (contains_flags F options SMALL_STACK) st0) (\<lambda>(r, st).
     case r of
       Inl _ \<Rightarrow> Inl UnwrapFailed
     | Inr stack_ptr \<Rightarrow>
         let info = \<lparr>ti_sp = of_nat stack_ptr, ti_task_id = tid, ti_flags = 0,
               ti_wake_on_end = (case wake_on_end of None \<Rightarrow> 0 | Some w \<Rightarrow> w)\<rparr>;
             m0 = cpu s1;
             m1 = m0\<lparr>mem := put_task_info box info (mem m0),
               rflags := put_bit 9 (interrupts st) (rflags m0),
               gpr := (gpr m0)(RDI := task_ptr, RSI := of_nat stack_ptr)\<rparr> in
         case exec (spawn_asm L) m1 of
           Transferred _ \<Rightarrow> Inl Unreachable
         | FellThrough m2 \<Rightarrow>
             bindR (va_new X (unat (gpr m2 RAX))) (\<lambda>final_sp.
             let m3 = m2\<lparr>mem := (mem m2)(box + sp_offset := of_nat final_sp)\<rparr> in
             Inr (box, s1\<lparr>cpu := m3, stacks := st,
               task_queue := seg_push Q box (task_queue s1)\<rparr>))))))"

definition finish_stale_task :: "symbols \<Rightarrow> ('q, 'l, 's, 'm, 'b) sched \<Rightarrow> ('q, 'l, 's, 'm, 'b) sched res" where
  "finish_stale_task L s = (let task_ptr = mem (cpu s) (STALE_TASK_PTR L) in Inl ExplicitPanic)"

definition load_task_ptrs :: "symbols \<Rightarrow> u64 \<Rightarrow> (u64 \<Rightarrow> u64) \<Rightarrow> u64 \<Rightarrow> u64" where
  "load_task_ptrs L info M = M(STALE_TASK_PTR L := info, CURRENT_TASK_PTR L := info)"

text \<open>The scheduler either resumes a task or halts for ever.\<close>

datatype 'a dispatch = Running 'a | Idle 'a

definition run_scheduler ::
  "symbols \<Rightarrow> 'q queue_ops \<Rightarrow> ('q, 'l, 's, 'm, 'b) sched \<Rightarrow> ('q, 'l, 's, 'm, 'b) sched dispatch res" where
  "run_scheduler L Q s =
     (case seg_pop Q (task_queue s) of
        (Some task_ptr, q) \<Rightarrow>
          bindR (trigger_local_us 1000000 (clock s)) (\<lambda>c.
          let s1 = s\<lparr>task_queue := q, clock := c\<rparr> in
          case exec (resume_task L) (set_reg RDI task_ptr (cpu s1)) of
            Transferred m \<Rightarrow> Inr (Running (s1\<lparr>cpu := m\<rparr>))
          | FellThrough _ \<Rightarrow> Inl Unreachable)
      | (None, q) \<Rightarrow> Inr (Idle (s\<lparr>task_queue := q\<rparr>)))"

definition resume_scheduler ::
  "symbols \<Rightarrow> 'q queue_ops \<Rightarrow> u64 bitflags_ops \<Rightarrow> u64 \<Rightarrow> u64 \<Rightarrow> ('q, 'l, 's, 'm, 'b) sched \<Rightarrow>
   ('q, 'l, 's, 'm, 'b) sched dispatch res" where
  "resume_scheduler L Q F released_stack flags s =
     (let s1 = s\<lparr>clock := halt_timer (clock s),
           cpu := (cpu s)\<lparr>rflags := put_bit 9 True (rflags (cpu s))\<rparr>\<rparr>;
          task_ptr = mem (cpu s1) (STALE_TASK_PTR L) in
      bindR (resume_kind flags) (\<lambda>kind.
      let M1 = (if kind = Preempted
                then (mem (cpu s1))(task_ptr + flags_offset :=
                  insert_flags F (mem (cpu s1) (task_ptr + flags_offset)) INTERRUPTED)
                else mem (cpu s1));
          q1 = (if kind = Preempted \<or> kind = Yielded then seg_push Q task_ptr (task_queue s1)
                else task_queue s1);
          M2 = M1(task_ptr + sp_offset := released_stack) in
      run_scheduler L Q (s1\<lparr>cpu := (cpu s1)\<lparr>mem := M2\<rparr>, task_queue := q1\<rparr>)))"

definition start_scheduler ::
  "symbols \<Rightarrow> 'q queue_ops \<Rightarrow> u16 \<Rightarrow> u64 \<Rightarrow> ('q, 'l, 's, 'm, 'b) sched \<Rightarrow>
   ('q, 'l, 's, 'm, 'b) sched dispatch res" where
  "start_scheduler L Q sel preempt s =
     (let m1 = (cpu s)\<lparr>rflags := put_bit 9 False (rflags (cpu s))\<rparr>;
          c = halt_timer (clock s) in
      bindR (load_handler sel IRQ_LAPIC_CLK preempt True \<lparr>IDT = gates s, idtr = None, int_flag = False\<rparr>)
        (\<lambda>i.
      let m2 = m1\<lparr>mem := load_task_ptrs L (SCHEDULER_TASK L) (mem m1)\<rparr>;
          m3 = m2\<lparr>rflags := put_bit 9 True (rflags m2)\<rparr> in
      run_scheduler L Q (s\<lparr>cpu := m3, clock := c, gates := IDT i\<rparr>)))"

text \<open>
  Giving up the processor: the assembly of \<open>release_task\<close> switches to the scheduler's stack and
  calls \<open>resume_scheduler\<close> with the stack pointer and the flags in the argument registers.
\<close>

definition release_task ::
  "symbols \<Rightarrow> 'q queue_ops \<Rightarrow> u64 bitflags_ops \<Rightarrow> u64 \<Rightarrow> ('q, 'l, 's, 'm, 'b) sched \<Rightarrow>
   ('q, 'l, 's, 'm, 'b) sched dispatch res" where
  "release_task L Q F flags s =
     (case exec (release_asm L) (set_reg RSI flags (cpu s)) of
        FellThrough _ \<Rightarrow> Inl Unreachable
      | Transferred m1 \<Rightarrow>
          (case exec (release_jump_out L) m1 of
             FellThrough _ \<Rightarrow> Inl Unreachable
           | Transferred m2 \<Rightarrow> resume_scheduler L Q F (gpr m2 RDI) (gpr m2 RSI) (s\<lparr>cpu := m2\<rparr>)))"

definition yield_task ::
  "symbols \<Rightarrow> 'q queue_ops \<Rightarrow> u64 bitflags_ops \<Rightarrow> ('q, 'l, 's, 'm, 'b) sched \<Rightarrow>
   ('q, 'l, 's, 'm, 'b) sched dispatch res" where
  "yield_task L Q F s = release_task L Q F yielded s"

text \<open>The timer interrupt: the handler either returns at once or calls \<open>resume_scheduler\<close>.\<close>

definition timer_step ::
  "symbols \<Rightarrow> 'q queue_ops \<Rightarrow> u64 bitflags_ops \<Rightarrow> u64 \<Rightarrow> ('q, 'l, 's, 'm, 'b) sched \<Rightarrow>
   ('q, 'l, 's, 'm, 'b) sched dispatch res" where
  "timer_step L Q F preempt s =
     (case exec (scheduler_preempt L) (interrupt True preempt (cpu s)) of
        FellThrough _ \<Rightarrow> Inl Unreachable
      | Transferred m1 \<Rightarrow>
          if rip m1 = sym_preempt_jump_out L then
            (case exec (preempt_jump_out L) m1 of
               FellThrough _ \<Rightarrow> Inl Unreachable
             | Transferred m2 \<Rightarrow> resume_scheduler L Q F (gpr m2 RDI) (gpr m2 RSI) (s\<lparr>cpu := m2\<rparr>))
          else Inr (Running (s\<lparr>cpu := m1\<rparr>)))"

text \<open>A waker is the pointer of its task.\<close>

definition waker_from_task_info :: "u64 \<Rightarrow> u64" where
  "waker_from_task_info task_info = task_info"

definition waker_clone :: "u64 \<Rightarrow> u64" where
  "waker_clone task_ptr = task_ptr"

definition wake :: "'q queue_ops \<Rightarrow> u64 \<Rightarrow> ('q, 'l, 's, 'm, 'b) sched \<Rightarrow> ('q, 'l, 's, 'm, 'b) sched" where
  "wake Q task_ptr s = s\<lparr>task_queue := seg_push Q task_ptr (task_queue s)\<rparr>"

definition wake_by_ref :: "'q queue_ops \<Rightarrow> u64 \<Rightarrow> ('q, 'l, 's, 'm, 'b) sched \<Rightarrow> ('q, 'l, 's, 'm, 'b) sched" where
  "wake_by_ref Q task_ptr s = s\<lparr>task_queue := seg_push Q task_ptr (task_queue s)\<rparr>"

definition waker_drop :: "u64 \<Rightarrow> ('q, 'l, 's, 'm, 'b) sched \<Rightarrow> ('q, 'l, 's, 'm, 'b) sched" where
  "waker_drop task_ptr s = s"

section \<open>Suspended tasks\<close>

text \<open>
  The context of a suspended task: whether it was interrupted, and the quadwords saved on its
  stack, from low to high addresses. \<open>saved\<close> says that a memory holds it, \<open>restore\<close> what the
  processor becomes when it is loaded.
\<close>

type_synonym saved_context = "bool \<times> u64 list"

definition context_length :: "saved_context \<Rightarrow> nat" where
  "context_length c = (if fst c then 21 else 11)"

definition saved :: "(u64 \<Rightarrow> u64) \<Rightarrow> u64 \<Rightarrow> saved_context \<Rightarrow> bool" where
  "saved M p c \<longleftrightarrow> bit (M (p + 16)) 0 = fst c \<and> frame_at (M p) (snd c) M \<and> length (snd c) = context_length c"

definition restore :: "saved_context \<Rightarrow> machine \<Rightarrow> machine" where
  "restore c n =
     (let vs = snd c; fr = drop (context_length c - 5) vs;
          g = loads standard_regs (take 6 vs) (gpr n);
          g' = (if fst c then loads scratch_regs (take 9 (drop 6 vs)) g else g) in
      n\<lparr>rip := fr ! 0, cs := fr ! 1, rflags := fr ! 2, ss := fr ! 4, gpr := g'(RSP := fr ! 3)\<rparr>)"

lemma list5: "length xs = 5 \<Longrightarrow> xs = [xs ! 0, xs ! 1, xs ! 2, xs ! 3, xs ! 4]"
  by (rule nth_equalityI) (auto simp: less_Suc_eq numeral_eq_Suc)

lemma resume_restores:
  assumes "saved (mem n) q c" "gpr n RDI = q" "q + 16 \<notin> {CURRENT_TASK_PTR L, STALE_TASK_PTR L}"
    and "{CURRENT_TASK_PTR L, STALE_TASK_PTR L, q + 16} \<inter> window (mem n q) (context_length c) = {}"
  shows "exec (resume_task L) n = Transferred ((restore c n)\<lparr>mem := resumed_mem L q (mem n)\<rparr>)"
proof -
  obtain b vs where c: "c = (b, vs)" by (cases c)
  let ?fr = "drop (context_length c - 5) vs"
  have len: "length vs = context_length c" and fr: "frame_at (mem n q) vs (mem n)"
    and b: "bit (mem n (q + 16)) 0 = b" using assms(1) by (simp_all add: saved_def c)
  have f5: "?fr = [?fr ! 0, ?fr ! 1, ?fr ! 2, ?fr ! 3, ?fr ! 4]"
    by (rule list5) (simp add: len context_length_def)
  show ?thesis
  proof (cases b)
    case True
    have n21: "context_length c = 21" by (simp add: context_length_def c True)
    have "drop 15 vs = vs ! 15 # drop 16 vs"
      using len n21 Cons_nth_drop_Suc [of 15 vs] by simp
    moreover have "drop 6 vs = take 9 (drop 6 vs) @ drop 15 vs"
      using append_take_drop_id [of 9 "drop 6 vs"] by simp
    ultimately have "vs = take 6 vs @ take 9 (drop 6 vs) @ vs ! 15 # ?fr"
      using append_take_drop_id [of 6 vs] n21 by simp
    then have "frame_at (mem n q) (take 6 vs @ take 9 (drop 6 vs) @ vs ! 15 #
        [?fr ! 0, ?fr ! 1, ?fr ! 2, ?fr ! 3, ?fr ! 4]) (mem n)"
      using fr f5 by simp
    then have "exec (resume_task L) n = Transferred (n\<lparr>rip := ?fr ! 0, cs := ?fr ! 1, rflags := ?fr ! 2,
        ss := ?fr ! 4, gpr := (loads scratch_regs (take 9 (drop 6 vs))
          (loads standard_regs (take 6 vs) (gpr n)))(RSP := ?fr ! 3), mem := resumed_mem L q (mem n)\<rparr>)"
      by (rule resume_interrupted [OF assms(2) refl])
        (use assms(3,4) len n21 b True in \<open>simp_all add: flags_offset_def resume_cells_def\<close>)
    then show ?thesis by (simp add: restore_def Let_def c True)
  next
    case False
    have n11: "context_length c = 11" by (simp add: context_length_def c False)
    have "vs = take 6 vs @ ?fr" using n11 by simp
    then have "frame_at (mem n q) (take 6 vs @ [?fr ! 0, ?fr ! 1, ?fr ! 2, ?fr ! 3, ?fr ! 4]) (mem n)"
      using fr f5 by simp
    then have "exec (resume_task L) n = Transferred (n\<lparr>rip := ?fr ! 0, cs := ?fr ! 1, rflags := ?fr ! 2,
        ss := ?fr ! 4, gpr := (loads standard_regs (take 6 vs) (gpr n))(RSP := ?fr ! 3),
        mem := resumed_mem L q (mem n)\<rparr>)"
      by (rule resume_standard [OF assms(2) refl])
        (use assms(3,4) len n11 b False in \<open>simp_all add: flags_offset_def resume_cells_def\<close>)
    then show ?thesis by (simp add: restore_def Let_def c False)
  qed
qed

section \<open>The invariant of the scheduler\<close>

text \<open>
  The memory each part owns: the structure of a task, its stack \<open>stk p\<close>, and the cells of the
  scheduler, among them the slot of its own stack into which the last call pushes.
\<close>

definition cells :: "u64 \<Rightarrow> u64 set" where
  "cells p = {p, p + 8, p + 16, p + 24}"

definition kernel_cells :: "symbols \<Rightarrow> u64 \<Rightarrow> u64 list" where
  "kernel_cells L ksp =
     [CURRENT_TASK_PTR L, STALE_TASK_PTR L, HHDM_TOP_ADDR_INNER L, SCHEDULER_TASK L,
      of_nat LAPIC_EOI_ADDR, ksp - 8]"

definition layout :: "symbols \<Rightarrow> (u64 \<Rightarrow> u64 set) \<Rightarrow> u64 \<Rightarrow> u64 set \<Rightarrow> bool" where
  "layout L stk ksp T \<longleftrightarrow>
     distinct (kernel_cells L ksp) \<and>
     (\<forall>p\<in>T. (cells p \<union> stk p) \<inter> set (kernel_cells L ksp) = {}) \<and>
     (\<forall>p\<in>T. \<forall>q\<in>T. stk p \<inter> cells q = {}) \<and>
     (\<forall>p\<in>T. \<forall>q\<in>T. p \<noteq> q \<longrightarrow> stk p \<inter> stk q = {} \<and> cells p \<inter> cells q = {})"

text \<open>A window as an interval, which tells windows at given addresses apart.\<close>

lemma window_range:
  assumes "b \<in> window a n" "unat a + 8 * n \<le> 2 ^ 64"
  shows "unat a \<le> unat b \<and> unat b < unat a + 8 * n"
proof -
  obtain i where i: "i < n" "b = a + 8 * of_nat i" using assms(1) by (auto simp: window_def)
  have "unat a + 8 * i < 2 ^ 64" using i(1) assms(2) by simp
  moreover have "b = of_nat (unat a + 8 * i)" using i(2) by simp
  ultimately have "unat b = unat a + 8 * i" by (simp add: unsigned_of_nat take_bit_nat_eq_self del: of_nat_add of_nat_mult)
  then show ?thesis using i(1) by simp
qed

definition suspended :: "(u64 \<Rightarrow> u64) \<Rightarrow> (u64 \<Rightarrow> u64 set) \<Rightarrow> u64 \<Rightarrow> saved_context \<Rightarrow> bool" where
  "suspended M stk q c \<longleftrightarrow> saved M q c \<and> window (M q) (context_length c) \<subseteq> stk q"

text \<open>The timer is calibrated, and a second fits its counter.\<close>

definition timer_ok :: "clock_state \<Rightarrow> bool" where
  "timer_ok c \<longleftrightarrow> 0 < TICKS_PER_MS c \<and> unat (TICKS_PER_MS c) div 1000 * 1000000 < 2 ^ 32"

text \<open>
  Task \<open>p\<close> runs, the tasks \<open>qs\<close> wait in this order with the contexts \<open>ctx\<close>.
\<close>

definition sched_inv ::
  "symbols \<Rightarrow> ('q \<Rightarrow> u64 list) \<Rightarrow> (u64 \<Rightarrow> u64 set) \<Rightarrow> u64 \<Rightarrow> u64 \<Rightarrow> u64 list \<Rightarrow> (u64 \<Rightarrow> saved_context) \<Rightarrow>
   ('q, 'l, 's, 'm, 'b) sched \<Rightarrow> bool" where
  "sched_inv L elems stk ksp p qs ctx s \<longleftrightarrow>
     (let M = mem (cpu s) in
      layout L stk ksp (set (p # qs)) \<and> distinct (p # qs) \<and> elems (task_queue s) = qs \<and>
      M (CURRENT_TASK_PTR L) = p \<and> M (STALE_TASK_PTR L) = p \<and> M (SCHEDULER_TASK L) = ksp \<and>
      M (HHDM_TOP_ADDR_INNER L) + of_nat SCHEDULER_SP_OFFSET = ksp \<and>
      \<not> bit (M (p + 16)) 0 \<and> (\<forall>q\<in>set (p # qs). M (q + 8) \<noteq> TASKID_SCHEDULER) \<and>
      (\<forall>q\<in>set qs. suspended M stk q (ctx q)) \<and> timer_ok (clock s))"

lemma suspended_cong:
  assumes "suspended M stk q c" "\<forall>b\<in>cells q \<union> stk q. N b = M b"
  shows "suspended N stk q c"
proof -
  have w: "window (M q) (context_length c) \<subseteq> stk q" and s: "saved M q c"
    using assms(1) by (simp_all add: suspended_def)
  have e: "N q = M q" "N (q + 16) = M (q + 16)" using assms(2) by (simp_all add: cells_def)
  have "frame_at (M q) (snd c) N \<longleftrightarrow> frame_at (M q) (snd c) M"
    using s w assms(2) by (intro frame_at_cong) (auto simp: saved_def)
  then show ?thesis using s w e by (simp add: suspended_def saved_def)
qed

lemma layout_subset: "layout L stk ksp T \<Longrightarrow> S \<subseteq> T \<Longrightarrow> layout L stk ksp S"
  unfolding layout_def by blast

lemma resume_kinds: "resume_kind 1 = Inr Yielded" "resume_kind 2 = Inr Preempted"
  "resume_kind 0 = Inr Blocked" "resume_kind 3 = Inr Complete"
proof -
  have "cenum_bit_range w 1 0 = Inr (ucast (drop_bit 0 w AND mask (1 - 0 + 1)) :: u8)" for w :: u64
    by (rule bit_range_ok) simp_all
  then show "resume_kind 1 = Inr Yielded" "resume_kind 2 = Inr Preempted"
    "resume_kind 0 = Inr Blocked" "resume_kind 3 = Inr Complete"
    by (simp_all add: resume_kind_def numeral_2_eq_2 [symmetric] mask_eq_exp_minus_1)
qed

lemma timer_starts:
  assumes "timer_ok c"
  shows "\<exists>c'. trigger_local_us 1000000 (halt_timer c) = Inr c' \<and> timer_ok c'"
proof -
  have t: "TICKS_PER_MS (halt_timer c) = TICKS_PER_MS c" by (simp add: halt_timer_def lapic_write_def)
  have "wmul (TICKS_PER_MS c div 1000) 1000000 = Inr (TICKS_PER_MS c div 1000 * 1000000)"
    using assms by (simp add: timer_ok_def wmul_def unat_div_distrib)
  then show ?thesis
    using assms by (simp add: trigger_local_us_def Let_def timer_ok_def lapic_write_def t)
qed

lemma resumed_mem_other:
  "b \<notin> {CURRENT_TASK_PTR L, STALE_TASK_PTR L, q + 16} \<Longrightarrow> resumed_mem L q M b = M b"
  by (simp add: resumed_mem_def flags_offset_def)

text \<open>What the layout says of one task and of two.\<close>

lemma layoutD:
  assumes "layout L stk ksp T" "p \<in> T"
  shows "cells p \<inter> set (kernel_cells L ksp) = {}" "stk p \<inter> set (kernel_cells L ksp) = {}"
    "q \<in> T \<Longrightarrow> stk p \<inter> cells q = {}" "q \<in> T \<Longrightarrow> p \<noteq> q \<Longrightarrow> stk p \<inter> stk q = {}"
    "q \<in> T \<Longrightarrow> p \<noteq> q \<Longrightarrow> cells p \<inter> cells q = {}" "distinct (kernel_cells L ksp)"
  using assms unfolding layout_def by blast+

lemma dispatch:
  assumes Q: "seg_queue Q elems" and q: "elems (task_queue s) = q # qr" "distinct (q # qr)"
    and lay: "layout L stk ksp (set (q # qr))"
    and ctx: "\<forall>r\<in>set (q # qr). suspended (mem (cpu s)) stk r (ctx r)"
    and kern: "mem (cpu s) (SCHEDULER_TASK L) = ksp"
      "mem (cpu s) (HHDM_TOP_ADDR_INNER L) + of_nat SCHEDULER_SP_OFFSET = ksp"
    and ids: "\<forall>r\<in>set (q # qr). mem (cpu s) (r + 8) \<noteq> TASKID_SCHEDULER"
    and timer: "trigger_local_us 1000000 (clock s) = Inr c'" "timer_ok c'"
  shows "\<exists>s' n. run_scheduler L Q s = Inr (Running s') \<and>
    cpu s' = (restore (ctx q) n)\<lparr>mem := mem (cpu s')\<rparr> \<and> sched_inv L elems stk ksp q qr ctx s'"
proof -
  let ?M = "mem (cpu s)" and ?n = "set_reg RDI q (cpu s)" and ?W = "{CURRENT_TASK_PTR L, STALE_TASK_PTR L, q + 16}"
  let ?M' = "resumed_mem L q ?M"
  obtain tq where tq: "seg_pop Q (task_queue s) = (Some q, tq)" "elems tq = qr"
    using seg_queue.pop_first [OF Q q(1)] by blast
  note lq = layoutD [OF lay, of q, simplified]
  have q16: "q + 16 \<notin> set (kernel_cells L ksp)" using lq(1) by (auto simp: cells_def)
  have sq: "suspended ?M stk q (ctx q)" using ctx by simp
  then have w: "window (?M q) (context_length (ctx q)) \<subseteq> stk q" by (simp add: suspended_def)
  have "?W \<inter> stk q = {}"
    using lq(2) layoutD(3) [OF lay, of q q] by (auto simp: kernel_cells_def cells_def)
  then have "exec (resume_task L) ?n = Transferred ((restore (ctx q) ?n)\<lparr>mem := resumed_mem L q (mem ?n)\<rparr>)"
    using sq w q16 by (intro resume_restores) (auto simp: suspended_def kernel_cells_def)
  then have run: "run_scheduler L Q s = Inr (Running (s\<lparr>task_queue := tq, clock := c',
      cpu := (restore (ctx q) ?n)\<lparr>mem := ?M'\<rparr>\<rparr>))"
    by (simp add: run_scheduler_def tq(1) timer(1))
  have ptrs: "?M' (CURRENT_TASK_PTR L) = q" "?M' (STALE_TASK_PTR L) = q" "\<not> bit (?M' (q + 16)) 0"
    using q16 by (auto simp: resumed_mem_def flags_offset_def kernel_cells_def)
  have kern': "?M' (SCHEDULER_TASK L) = ksp" "?M' (HHDM_TOP_ADDR_INNER L) + of_nat SCHEDULER_SP_OFFSET = ksp"
    using kern q16 layoutD(6) [OF lay, of q] by (auto simp: resumed_mem_other kernel_cells_def)
  have own: "?W \<inter> cells r = {}" "?W \<inter> stk r = {}" if "r \<in> set qr" for r
  proof -
    have r: "r \<in> set (q # qr)" "r \<noteq> q" using that q(2) by auto
    have "q + 16 \<in> cells q" by (simp add: cells_def)
    then show "?W \<inter> cells r = {}" "?W \<inter> stk r = {}"
      using layoutD(1,2) [OF lay r(1)] layoutD(3,5) [OF lay r(1), of q] r(2) by (auto simp: kernel_cells_def)
  qed
  have "suspended ?M' stk r (ctx r)" if "r \<in> set qr" for r
  proof (rule suspended_cong)
    show "suspended ?M stk r (ctx r)" using ctx that by simp
    show "\<forall>b\<in>cells r \<union> stk r. ?M' b = ?M b"
      using own [OF that] by (intro ballI resumed_mem_other) blast
  qed
  moreover have "?M' (r + 8) \<noteq> TASKID_SCHEDULER" if "r \<in> set (q # qr)" for r
  proof -
    have c: "r + 8 \<in> cells r" by (simp add: cells_def)
    have "r + 8 \<notin> ?W"
    proof (cases "r = q")
      case True
      then have "r + 8 \<notin> set (kernel_cells L ksp)" using c lq(1) by blast
      then show ?thesis using True by (simp add: kernel_cells_def)
    next
      case False
      then have "r \<in> set qr" using that by simp
      then show ?thesis using own(1) c by blast
    qed
    then have "?M' (r + 8) = ?M (r + 8)" by (rule resumed_mem_other)
    then show ?thesis using ids that by metis
  qed
  ultimately have inv: "sched_inv L elems stk ksp q qr ctx (s\<lparr>task_queue := tq, clock := c',
      cpu := (restore (ctx q) ?n)\<lparr>mem := ?M'\<rparr>\<rparr>)"
    using lay q(2) tq(2) ptrs kern' timer(2) by (simp add: sched_inv_def Let_def)
  show ?thesis
    by (rule exI, rule exI [of _ ?n], rule conjI [OF run], rule conjI [OF _ inv]) simp
qed

text \<open>
  The memory after the running task \<open>p\<close> was suspended with the saved words \<open>vs\<close> at \<open>rel\<close>: every
  task of the scheduler is suspended in it.
\<close>

lemma suspend_memory:
  fixes s :: "('q, 'l, 's, 'm, 'b) sched" and m :: machine
  defines "M2 \<equiv> \<lambda>p b rel. (if b then (mem m)(p + 16 := mem m (p + 16) OR 1) else mem m)(p := rel)"
  assumes inv: "sched_inv L elems stk ksp p qs ctx s"
    and agree: "\<forall>b. b \<notin> stk p \<union> {CURRENT_TASK_PTR L, of_nat LAPIC_EOI_ADDR, ksp - 8} \<longrightarrow> mem m b = mem (cpu s) b"
    and vs: "frame_at rel vs (mem m)" "length vs = context_length (b, vs)" "window rel (length vs) \<subseteq> stk p"
  shows "\<forall>r\<in>set (p # qs). suspended (M2 p b rel) stk r ((ctx(p := (b, vs))) r)"
    and "\<forall>r\<in>set (p # qs). M2 p b rel (r + 8) \<noteq> TASKID_SCHEDULER"
    and "M2 p b rel (SCHEDULER_TASK L) = ksp"
    and "M2 p b rel (HHDM_TOP_ADDR_INNER L) + of_nat SCHEDULER_SP_OFFSET = ksp"
    and "mem m (STALE_TASK_PTR L) = p"
proof -
  let ?M = "mem (cpu s)" and ?N = "M2 p b rel"
  note I = inv [unfolded sched_inv_def Let_def]
  have lay: "layout L stk ksp (set (p # qs))" and dist: "distinct (p # qs)" using I by simp_all
  note lp = layoutD [OF lay, of p, simplified]
  note dk = layoutD(6) [OF lay, of p, simplified]
  have pc: "p \<in> cells p" "p + 8 \<in> cells p" "p + 16 \<in> cells p" by (simp_all add: cells_def)
  have N: "?N a = mem m a" if "a \<noteq> p" "a \<noteq> p + 16" for a using that by (simp add: M2_def)
  have same: "?N a = ?M a" if "a \<notin> stk p" "a \<noteq> CURRENT_TASK_PTR L" "a \<noteq> of_nat LAPIC_EOI_ADDR"
    "a \<noteq> ksp - 8" "a \<noteq> p" "a \<noteq> p + 16" for a
    using that agree N by simp
  have pk: "a \<notin> stk p" "a \<noteq> CURRENT_TASK_PTR L" "a \<noteq> of_nat LAPIC_EOI_ADDR" "a \<noteq> ksp - 8"
    if "a \<in> cells p" for a
    using that lp(1) layoutD(3) [OF lay, of p p] by (auto simp: kernel_cells_def)
  have pm: "mem m a = ?M a" if "a \<in> cells p" for a using pk [OF that] agree by simp
  have kc: "a \<notin> stk p \<and> a \<noteq> p \<and> a \<noteq> p + 16" if "a \<in> set (kernel_cells L ksp)" for a
    using that lp(1,2) pc by blast
  show "?N (SCHEDULER_TASK L) = ksp" "?N (HHDM_TOP_ADDR_INNER L) + of_nat SCHEDULER_SP_OFFSET = ksp"
    "mem m (STALE_TASK_PTR L) = p"
    using dk kc agree I same by (auto simp: kernel_cells_def)
  have st: "?N a = mem m a" if "a \<in> stk p" for a
    using that pk(1) [OF pc(1)] pk(1) [OF pc(3)] by (intro N) auto
  have "frame_at rel vs ?N \<longleftrightarrow> frame_at rel vs (mem m)"
    using vs(3) by (intro frame_at_cong st) auto
  moreover have "bit (?N (p + 16)) 0 = b"
    using I pm [OF pc(3)] by (simp add: M2_def bit_simps)
  ultimately have sp: "suspended ?N stk p (b, vs)" using vs by (simp add: suspended_def saved_def M2_def)
  have own: "?N a = ?M a" if r: "r \<in> set qs" and a: "a \<in> cells r \<union> stk r" for r a
  proof (rule same)
    have r': "r \<in> set (p # qs)" "r \<noteq> p" using r dist by auto
    note l = layoutD [OF lay r'(1)]
    show "a \<notin> stk p" using a lp(3) [of r] l(4) [of p] r r' by auto
    show "a \<noteq> CURRENT_TASK_PTR L" "a \<noteq> of_nat LAPIC_EOI_ADDR" "a \<noteq> ksp - 8"
      using a l(1,2) by (auto simp: kernel_cells_def)
    show "a \<noteq> p" "a \<noteq> p + 16" using a l(3) [of p] l(5) [of p] r'(2) pc by auto
  qed
  show "\<forall>r\<in>set (p # qs). suspended ?N stk r ((ctx(p := (b, vs))) r)"
    using I sp own suspended_cong [of ?M stk _ _ ?N] dist by auto
  show "\<forall>r\<in>set (p # qs). ?N (r + 8) \<noteq> TASKID_SCHEDULER"
    using I pm [OF pc(2)] own by (auto simp: N cells_def)
qed

text \<open>
  Suspending the running task, preempted or having yielded: it goes to the end of the queue,
  and the first task of the queue is resumed.
\<close>

lemma suspend_dispatch:
  assumes Q: "seg_queue Q elems" and F: "bitflags_crate F INTERRUPTED"
    and inv: "sched_inv L elems stk ksp p qs ctx s"
    and agree: "\<forall>b. b \<notin> stk p \<union> {CURRENT_TASK_PTR L, of_nat LAPIC_EOI_ADDR, ksp - 8} \<longrightarrow> mem m b = mem (cpu s) b"
    and vs: "frame_at rel vs (mem m)" "length vs = context_length (b, vs)" "window rel (length vs) \<subseteq> stk p"
    and q: "qs @ [p] = q # qr"
  shows "\<exists>s' n. resume_scheduler L Q F rel (if b then 2 else 1) (s\<lparr>cpu := m\<rparr>) = Inr (Running s') \<and>
    cpu s' = (restore ((ctx(p := (b, vs))) q) n)\<lparr>mem := mem (cpu s')\<rparr> \<and>
    sched_inv L elems stk ksp q qr (ctx(p := (b, vs))) s'"
proof -
  let ?ctx = "ctx(p := (b, vs))"
  let ?N = "(if b then (mem m)(p + 16 := mem m (p + 16) OR 1) else mem m)(p := rel)"
  note I = inv [unfolded sched_inv_def Let_def]
  note mem2 = suspend_memory [OF inv agree vs]
  have set_q: "set (q # qr) = set (p # qs)" "distinct (q # qr)"
    using arg_cong [OF q, of set] arg_cong [OF q, of distinct] I by auto
  define s2 where "s2 = s\<lparr>clock := halt_timer (clock s),
    cpu := m\<lparr>rflags := put_bit 9 True (rflags m), mem := ?N\<rparr>, task_queue := seg_push Q p (task_queue s)\<rparr>"
  have run: "resume_scheduler L Q F rel (if b then 2 else 1) (s\<lparr>cpu := m\<rparr>) = run_scheduler L Q s2"
    using mem2(5) by (cases b) (simp_all add: resume_scheduler_def Let_def resume_kinds s2_def
        bitflags_crate.insert_flags [OF F] INTERRUPTED_def flags_offset_def sp_offset_def)
  obtain c' where c': "trigger_local_us 1000000 (clock s2) = Inr c'" "timer_ok c'"
    using timer_starts [of "clock s"] I by (auto simp: s2_def)
  have "\<exists>s' n. run_scheduler L Q s2 = Inr (Running s') \<and> cpu s' = (restore (?ctx q) n)\<lparr>mem := mem (cpu s')\<rparr> \<and>
    sched_inv L elems stk ksp q qr ?ctx s'"
  proof (rule dispatch [OF Q _ set_q(2) _ _ _ _ _ c'])
    show "elems (task_queue s2) = q # qr" using I by (simp add: s2_def seg_queue.elems_push [OF Q] q)
    show "layout L stk ksp (set (q # qr))" unfolding set_q using I by simp
    show "mem (cpu s2) (SCHEDULER_TASK L) = ksp"
      "mem (cpu s2) (HHDM_TOP_ADDR_INNER L) + of_nat SCHEDULER_SP_OFFSET = ksp"
      using mem2(3,4) by (simp_all add: s2_def)
    show "\<forall>r\<in>set (q # qr). suspended (mem (cpu s2)) stk r (?ctx r)"
      unfolding set_q using mem2(1) by (simp add: s2_def)
    show "\<forall>r\<in>set (q # qr). mem (cpu s2) (r + 8) \<noteq> TASKID_SCHEDULER"
      unfolding set_q using mem2(2) by (simp add: s2_def)
  qed
  then show ?thesis unfolding run .
qed

text \<open>The contexts that the two ways of giving up the processor leave.\<close>

definition preempted_context :: "machine \<Rightarrow> u64 \<Rightarrow> saved_context" where
  "preempted_context m p = (True, rev (preempted_values m (mem m (p + 8))) @ iret_frame m)"

definition yielded_context :: "symbols \<Rightarrow> machine \<Rightarrow> saved_context" where
  "yielded_context L m = (False, rev (released_values L m))"

definition preempt_room :: "machine \<Rightarrow> u64 set" where
  "preempt_room m = window ((gpr m RSP AND NOT 15) - 208) 26"

definition yield_room :: "machine \<Rightarrow> u64 set" where
  "yield_room m = window (gpr m RSP - 128) 16"

lemma frame_at_outside:
  "window a (length vs) \<subseteq> S \<Longrightarrow> b \<notin> S \<Longrightarrow> frame_at a vs (M(b := v)) \<longleftrightarrow> frame_at a vs M"
  by (rule frame_at_upd) blast

lemma timer_step_dispatches:
  assumes Q: "seg_queue Q elems" and F: "bitflags_crate F INTERRUPTED"
    and inv: "sched_inv L elems stk ksp p qs ctx s"
    and room: "preempt_room (cpu s) \<subseteq> stk p" and q: "qs @ [p] = q # qr"
  shows "\<exists>s' n. timer_step L Q F h s = Inr (Running s') \<and>
    cpu s' = (restore ((ctx(p := preempted_context (cpu s) p)) q) n)\<lparr>mem := mem (cpu s')\<rparr> \<and>
    sched_inv L elems stk ksp q qr (ctx(p := preempted_context (cpu s) p)) s'"
proof -
  let ?m = "cpu s" and ?eoi = "of_nat LAPIC_EOI_ADDR :: u64"
  define a where "a = gpr ?m RSP AND NOT 15"
  define vs where "vs = rev (preempted_values ?m (mem ?m (p + 8))) @ iret_frame ?m"
  note I = inv [unfolded sched_inv_def Let_def]
  have lay: "layout L stk ksp (set (p # qs))" and cur: "mem ?m (CURRENT_TASK_PTR L) = p" using I by simp_all
  note lp = layoutD [OF lay, of p, simplified]
  have st: "window (a - 208) 26 \<subseteq> stk p" using room by (simp add: preempt_room_def a_def)
  have kst: "set (kernel_cells L ksp) \<inter> stk p = {}" "p + 8 \<notin> stk p"
    using lp(2) layoutD(3) [OF lay, of p p] by (auto simp: cells_def)
  have h1: "mem ?m (mem ?m (CURRENT_TASK_PTR L) + taskid_offset) \<noteq> TASKID_SCHEDULER"
    using I by (simp add: taskid_offset_def)
  have h2: "{CURRENT_TASK_PTR L, HHDM_TOP_ADDR_INNER L, mem ?m (CURRENT_TASK_PTR L) + taskid_offset} \<inter>
      window (a - 208) 26 = {}"
    using st kst cur by (auto simp: kernel_cells_def taskid_offset_def)
  obtain m1 where m1: "exec (scheduler_preempt L) (interrupt True h ?m) = Transferred m1"
    "rip m1 = sym_preempt_jump_out L" "gpr m1 RDI = a - 168" "gpr m1 RSI = 2" "gpr m1 RSP = ksp"
    "frame_at (a - 168) vs (mem m1)" "\<forall>b. b \<notin> window (a - 208) 26 \<longrightarrow> mem m1 b = mem ?m b"
    using preempt_saves [of ?m L h, folded a_def, OF h1 h2] I by (auto simp: vs_def taskid_offset_def)
  define m2 where "m2 = (push (rip m1) (fold effect (butlast (preempt_jump_out L)) m1))\<lparr>rip := sym_resume_scheduler L\<rparr>"
  have j: "exec (preempt_jump_out L) m1 = Transferred m2" by (simp add: preempt_jump_out_def m2_def)
  have m2: "gpr m2 RDI = a - 168" "gpr m2 RSI = 2"
    "mem m2 = (mem m1)(CURRENT_TASK_PTR L := SCHEDULER_TASK L, ?eoi := 0, ksp - 8 := rip m1)"
    using m1 by (simp_all add: m2_def preempt_jump_out_def)
  have w: "window (a - 168) 21 \<subseteq> stk p"
    using st window_shift [of 5 21 26 "a - 208"] by auto
  have len: "length vs = 21" by (simp add: vs_def preempted_values_def)
  have fr: "frame_at (a - 168) vs (mem m2)"
    using m1(6) kst unfolding m2(3) by (auto simp: kernel_cells_def frame_at_outside [OF w [folded len]])
  have agree: "\<forall>b. b \<notin> stk p \<union> {CURRENT_TASK_PTR L, ?eoi, ksp - 8} \<longrightarrow> mem m2 b = mem ?m b"
    using m1(7) st unfolding m2(3) by auto
  have "timer_step L Q F h s = resume_scheduler L Q F (a - 168) (if True then 2 else 1) (s\<lparr>cpu := m2\<rparr>)"
    using m1(1,2) j m2(1,2) by (simp add: timer_step_def)
  moreover have "preempted_context ?m p = (True, vs)" by (simp add: preempted_context_def vs_def)
  ultimately show ?thesis
    using suspend_dispatch [OF Q F inv agree fr, of True q qr] w len q by (simp add: context_length_def)
qed

lemma yield_dispatches:
  assumes Q: "seg_queue Q elems" and F: "bitflags_crate F INTERRUPTED"
    and inv: "sched_inv L elems stk ksp p qs ctx s"
    and room: "yield_room (cpu s) \<subseteq> stk p" and q: "qs @ [p] = q # qr"
  shows "\<exists>s' n. yield_task L Q F s = Inr (Running s') \<and>
    cpu s' = (restore ((ctx(p := yielded_context L (cpu s))) q) n)\<lparr>mem := mem (cpu s')\<rparr> \<and>
    sched_inv L elems stk ksp q qr (ctx(p := yielded_context L (cpu s))) s'"
proof -
  let ?m = "set_reg RSI yielded (cpu s)" and ?eoi = "of_nat LAPIC_EOI_ADDR :: u64"
  define sp where "sp = gpr ?m RSP - 88"
  define vs where "vs = rev (released_values L ?m)"
  note I = inv [unfolded sched_inv_def Let_def]
  have lay: "layout L stk ksp (set (p # qs))" using I by simp
  have kst: "set (kernel_cells L ksp) \<inter> stk p = {}" using layoutD(2) [OF lay, of p] by auto
  have st: "window (sp - 40) 16 \<subseteq> stk p" using room by (simp add: yield_room_def sp_def)
  have h: "SCHEDULER_TASK L \<notin> window (sp - 40) 16" using st kst by (auto simp: kernel_cells_def)
  obtain m1 where m1: "exec (release_asm L) ?m = Transferred m1" "gpr m1 RDI = sp"
    "gpr m1 RSI = yielded" "gpr m1 RSP = ksp" "frame_at sp vs (mem m1)"
    "\<forall>b. b \<notin> window (sp - 40) 16 \<longrightarrow> mem m1 b = mem (cpu s) b"
    using release_run [of L ?m, folded sp_def, OF h] I by (auto simp: vs_def)
  define m2 where "m2 = (push (rip m1) (fold effect (butlast (release_jump_out L)) m1))\<lparr>rip := sym_resume_scheduler L\<rparr>"
  have j: "exec (release_jump_out L) m1 = Transferred m2" by (simp add: release_jump_out_def m2_def)
  have m2: "gpr m2 RDI = sp" "gpr m2 RSI = 1"
    "mem m2 = (mem m1)(CURRENT_TASK_PTR L := SCHEDULER_TASK L, ksp - 8 := rip m1)"
    using m1 by (simp_all add: m2_def release_jump_out_def yielded_def)
  have w: "window sp 11 \<subseteq> stk p"
    using st window_shift [of 5 11 16 "sp - 40"] by auto
  have len: "length vs = 11" by (simp add: vs_def released_values_def)
  have fr: "frame_at sp vs (mem m2)"
    using m1(5) kst unfolding m2(3) by (auto simp: kernel_cells_def frame_at_outside [OF w [folded len]])
  have agree: "\<forall>b. b \<notin> stk p \<union> {CURRENT_TASK_PTR L, ?eoi, ksp - 8} \<longrightarrow> mem m2 b = mem (cpu s) b"
    using m1(6) st unfolding m2(3) by auto
  have "yield_task L Q F s = resume_scheduler L Q F sp (if False then 2 else 1) (s\<lparr>cpu := m2\<rparr>)"
    using m1(1) j m2(1,2) by (simp add: yield_task_def release_task_def)
  moreover have "yielded_context L (cpu s) = (False, vs)"
    by (simp add: yielded_context_def vs_def released_values_def)
  ultimately show ?thesis
    using suspend_dispatch [OF Q F inv agree fr, of False q qr] w len q by (simp add: context_length_def)
qed

end
