(* ===== verification/Scheduler_Properties.thy ===== *)
theory Scheduler_Properties
  imports Scheduler
begin

text \<open>
  The properties of the scheduler: what a timer interrupt and a yield do to the tasks, that the
  tasks run in turn, and what spawning a task gives.
\<close>

section \<open>Switching tasks\<close>

text \<open>
  C5. A timer interrupt while task \<open>p\<close> runs and the tasks \<open>qs\<close> wait. Provided there is room on the
  stack of \<open>p\<close>, the handler, its jump-out, the scheduler and the resumption together do not
  panic: \<open>p\<close> goes to the end of the queue with its context saved on its stack, the first task
  of the queue continues exactly from the context it was suspended with, and the invariant,
  with the contexts of all other waiting tasks, is kept.
\<close>

theorem timer_switches_tasks:
  assumes "seg_queue Q elems" "bitflags_crate F INTERRUPTED"
    and "sched_inv L elems stk ksp p qs ctx s" "preempt_room (cpu s) \<subseteq> stk p" "qs @ [p] = q # qr"
    and "ctx' = ctx(p := preempted_context (cpu s) p)"
  shows "\<exists>s' n. timer_step L Q F h s = Inr (Running s') \<and>
    cpu s' = (restore (ctx' q) n)\<lparr>mem := mem (cpu s')\<rparr> \<and> sched_inv L elems stk ksp q qr ctx' s'"
  unfolding assms(6) by (rule timer_step_dispatches [OF assms(1-5)])

text \<open>
  C20. A task that yields: the same, with the shorter context of a task that gives up the
  processor by a call.
\<close>

theorem yield_switches_tasks:
  assumes "seg_queue Q elems" "bitflags_crate F INTERRUPTED"
    and "sched_inv L elems stk ksp p qs ctx s" "yield_room (cpu s) \<subseteq> stk p" "qs @ [p] = q # qr"
    and "ctx' = ctx(p := yielded_context L (cpu s))"
  shows "\<exists>s' n. yield_task L Q F s = Inr (Running s') \<and>
    cpu s' = (restore (ctx' q) n)\<lparr>mem := mem (cpu s')\<rparr> \<and> sched_inv L elems stk ksp q qr ctx' s'"
  unfolding assms(6) by (rule yield_dispatches [OF assms(1-5)])

lemma sched_invD:
  assumes "sched_inv L elems stk ksp p qs ctx s"
  shows "mem (cpu s) (CURRENT_TASK_PTR L) = p" "elems (task_queue s) = qs"
  using assms by (simp_all add: sched_inv_def Let_def)

text \<open>Two tasks, at \<open>0x4000\<close> (running) and \<open>0x5000\<close> (waiting).\<close>

definition sample_ksp :: u64 where
  "sample_ksp = of_nat SCHEDULER_SP_OFFSET"

definition two_tasks :: "(u64 list, nat set, nat set, unit, nat set) sched" where
  "two_tasks = \<lparr>
     cpu = \<lparr>gpr = (\<lambda>r. 7)(RSP := 0x9000), rip = 0x6000, cs = 8, ss = 16, rflags = 0x202,
       mem = (\<lambda>a. 0)(0x1000 := sample_ksp, 0x2000 := 0x4000, 0x2008 := 0x4000,
         0x4008 := 0x8000000000000100, 0x5000 := 0x7000, 0x5008 := 0x8000000000000101)\<rparr>,
     task_queue = [0x5000], NEXT_TASK_ID = 0x102,
     stacks = \<lparr>kernel_large_stacks = {}, kernel_small_stacks = {},
       MAPALL = \<lparr>mapper = (), allocator = level10_free\<rparr>, interrupts = True\<rparr>,
     clock = sample_clock, gates = None\<rparr>"

definition two_stacks :: "u64 \<Rightarrow> u64 set" where
  "two_stacks p = (if p = 0x4000 then window 0x8f30 26 else window 0x7000 11)"

abbreviation two_contexts :: "u64 \<Rightarrow> saved_context" where
  "two_contexts \<equiv> \<lambda>_. (False, replicate 11 0)"

lemma sample_ksp_eq: "sample_ksp = 0x15000"
  by (simp add: sample_ksp_def layout_defs)

lemma two_tasks_sel:
  "mem (cpu two_tasks) 0x1000 = sample_ksp" "mem (cpu two_tasks) 0x2000 = 0x4000"
  "mem (cpu two_tasks) 0x2008 = 0x4000" "mem (cpu two_tasks) 0x2010 + of_nat SCHEDULER_SP_OFFSET = sample_ksp"
  "mem (cpu two_tasks) 0x4008 = 0x8000000000000100" "mem (cpu two_tasks) 0x5008 = 0x8000000000000101"
  "mem (cpu two_tasks) 0x4010 = 0" "task_queue two_tasks = [0x5000]"
  by (simp_all add: two_tasks_def sample_ksp_def)

lemma two_tasks_inv: "sched_inv sample_symbols (\<lambda>q. q) two_stacks sample_ksp 0x4000 [0x5000] two_contexts two_tasks"
proof -
  have "layout sample_symbols two_stacks sample_ksp {0x4000, 0x5000}"
    unfolding layout_def kernel_cells_def cells_def two_stacks_def sample_ksp_eq
    by (auto simp: sample_sel LAPIC_EOI_ADDR_def LAPIC_ADDR_def EOI_OFFSET_def dest!: window_range)
  moreover have "\<forall>b\<in>window 0x7000 11. mem (cpu two_tasks) b = 0"
    by (simp add: two_tasks_def window_def lessThan_nat_numeral lessThan_Suc)
  then have "frame_at 0x7000 (replicate 11 0) (mem (cpu two_tasks))"
    by (simp add: frame_at_def window_def)
  then have "suspended (mem (cpu two_tasks)) two_stacks 0x5000 (False, replicate 11 0)"
    by (simp add: suspended_def saved_def context_length_def two_stacks_def) (simp add: two_tasks_def)
  moreover have "timer_ok (clock two_tasks)" by (simp add: two_tasks_def timer_ok_def sample_clock_def)
  ultimately show ?thesis
    unfolding sched_inv_def Let_def by (simp add: two_tasks_sel sample_sel TASKID_SCHEDULER_def)
qed

lemma two_tasks_room: "preempt_room (cpu two_tasks) \<subseteq> two_stacks 0x4000" "yield_room (cpu two_tasks) \<subseteq> two_stacks 0x4000"
proof -
  show "preempt_room (cpu two_tasks) \<subseteq> two_stacks 0x4000"
    by (simp add: preempt_room_def two_stacks_def two_tasks_def)
  show "yield_room (cpu two_tasks) \<subseteq> two_stacks 0x4000"
    using window_shift [of 10 16 26 "0x8f30"] by (simp add: yield_room_def two_stacks_def two_tasks_def)
qed

theorem timer_switches_tasks_witness:
  "\<exists>s'. timer_step sample_symbols list_queue (doc_bitflags INTERRUPTED) 0x3000 two_tasks = Inr (Running s') \<and>
    rip (cpu s') = 0 \<and> mem (cpu s') 0x2000 = 0x5000 \<and> task_queue s' = [0x4000]"
proof -
  let ?ctx = "two_contexts(0x4000 := preempted_context (cpu two_tasks) 0x4000)"
  have q: "[0x5000] @ [0x4000] = (0x5000 :: u64) # [0x4000]" by simp
  obtain s' n where s': "timer_step sample_symbols list_queue (doc_bitflags INTERRUPTED) 0x3000 two_tasks = Inr (Running s')"
    "cpu s' = (restore (?ctx 0x5000) n)\<lparr>mem := mem (cpu s')\<rparr>"
    "sched_inv sample_symbols (\<lambda>q. q) two_stacks sample_ksp 0x5000 [0x4000] ?ctx s'"
    using timer_switches_tasks [OF lq.seg_queue_axioms docfl.bitflags_crate_axioms two_tasks_inv
        two_tasks_room(1) q refl] by blast
  have "rip (cpu s') = 0" by (subst s'(2)) (simp add: restore_def Let_def context_length_def)
  moreover have "mem (cpu s') 0x2000 = 0x5000" "task_queue s' = [0x4000]"
    using sched_invD [OF s'(3)] by (simp_all add: sample_sel)
  ultimately show ?thesis using s'(1) by blast
qed

theorem yield_switches_tasks_witness:
  "\<exists>s'. yield_task sample_symbols list_queue (doc_bitflags INTERRUPTED) two_tasks = Inr (Running s') \<and>
    mem (cpu s') 0x2000 = 0x5000 \<and> task_queue s' = [0x4000]"
proof -
  let ?ctx = "two_contexts(0x4000 := yielded_context sample_symbols (cpu two_tasks))"
  have q: "[0x5000] @ [0x4000] = (0x5000 :: u64) # [0x4000]" by simp
  obtain s' where s': "yield_task sample_symbols list_queue (doc_bitflags INTERRUPTED) two_tasks = Inr (Running s')"
    "sched_inv sample_symbols (\<lambda>q. q) two_stacks sample_ksp 0x5000 [0x4000] ?ctx s'"
    using yield_switches_tasks [OF lq.seg_queue_axioms docfl.bitflags_crate_axioms two_tasks_inv
        two_tasks_room(2) q refl] by blast
  have "mem (cpu s') 0x2000 = 0x5000" "task_queue s' = [0x4000]"
    using sched_invD [OF s'(2)] by (simp_all add: sample_sel)
  then show ?thesis using s'(1) by blast
qed

section \<open>Taking turns\<close>

text \<open>
  The runs of the system: the current task computes, writing to its own stack and to memory
  that belongs neither to the scheduler nor to a task, is interrupted by the timer, or yields.
  The number counts the switches.
\<close>

definition task_computes ::
  "symbols \<Rightarrow> (u64 \<Rightarrow> u64 set) \<Rightarrow> u64 \<Rightarrow> u64 set \<Rightarrow> machine \<Rightarrow> machine \<Rightarrow> bool" where
  "task_computes L stk ksp T m m' \<longleftrightarrow>
     (\<forall>b\<in>set (kernel_cells L ksp) \<union> (\<Union>r\<in>T. cells r) \<union> (\<Union>r\<in>T - {mem m (CURRENT_TASK_PTR L)}. stk r).
        mem m' b = mem m b)"

inductive runs ::
  "symbols \<Rightarrow> 'q queue_ops \<Rightarrow> u64 bitflags_ops \<Rightarrow> u64 \<Rightarrow> (u64 \<Rightarrow> u64 set) \<Rightarrow> u64 \<Rightarrow> u64 set \<Rightarrow>
   ('q, 'l, 's, 'm, 'b) sched \<Rightarrow> nat \<Rightarrow> ('q, 'l, 's, 'm, 'b) sched \<Rightarrow> bool"
  for L Q F h stk ksp T s where
  start: "runs L Q F h stk ksp T s 0 s"
| computes: "runs L Q F h stk ksp T s n s1 \<Longrightarrow> task_computes L stk ksp T (cpu s1) m \<Longrightarrow>
    runs L Q F h stk ksp T s n (s1\<lparr>cpu := m\<rparr>)"
| preempted: "runs L Q F h stk ksp T s n s1 \<Longrightarrow>
    preempt_room (cpu s1) \<subseteq> stk (mem (cpu s1) (CURRENT_TASK_PTR L)) \<Longrightarrow>
    timer_step L Q F h s1 = Inr (Running s2) \<Longrightarrow> runs L Q F h stk ksp T s (Suc n) s2"
| yields: "runs L Q F h stk ksp T s n s1 \<Longrightarrow>
    yield_room (cpu s1) \<subseteq> stk (mem (cpu s1) (CURRENT_TASK_PTR L)) \<Longrightarrow>
    yield_task L Q F s1 = Inr (Running s2) \<Longrightarrow> runs L Q F h stk ksp T s (Suc n) s2"

lemma computes_inv:
  assumes "sched_inv L elems stk ksp p qs ctx s" "task_computes L stk ksp (set (p # qs)) (cpu s) m"
  shows "sched_inv L elems stk ksp p qs ctx (s\<lparr>cpu := m\<rparr>)"
proof -
  let ?M = "mem (cpu s)"
  note I = assms(1) [unfolded sched_inv_def Let_def]
  have k: "mem m b = ?M b" if "b \<in> set (kernel_cells L ksp)" for b
    using assms(2) that by (auto simp: task_computes_def)
  have c: "mem m b = ?M b" if "r \<in> set (p # qs)" "b \<in> cells r" for r b
    using assms(2) that unfolding task_computes_def by blast
  have t: "mem m b = ?M b" if "r \<in> set qs" "b \<in> stk r" for r b
  proof -
    have "r \<in> set (p # qs) - {?M (CURRENT_TASK_PTR L)}" using that(1) I by auto
    then show ?thesis using assms(2) that(2) unfolding task_computes_def by blast
  qed
  have "mem m (p + 16) = ?M (p + 16)" by (rule c [of p]) (simp_all add: cells_def)
  moreover have "mem m (r + 8) = ?M (r + 8)" if "r \<in> set (p # qs)" for r
    using that by (rule c) (simp add: cells_def)
  moreover have "suspended (mem m) stk r (ctx r)" if r: "r \<in> set qs" for r
  proof (rule suspended_cong)
    show "suspended ?M stk r (ctx r)" using I r by simp
    show "\<forall>b\<in>cells r \<union> stk r. mem m b = ?M b" using c [of r] t [OF r] r by auto
  qed
  ultimately show ?thesis using I k by (simp add: sched_inv_def Let_def kernel_cells_def)
qed

lemma rotate_next:
  assumes "xs \<noteq> []"
  shows "tl (rotate n xs) @ [hd (rotate n xs)] = hd (rotate (Suc n) xs) # tl (rotate (Suc n) xs)"
    "hd (rotate n xs) # tl (rotate n xs) = rotate n xs"
proof -
  have ne: "rotate n xs \<noteq> []" "rotate (Suc n) xs \<noteq> []" using assms by simp_all
  then show "hd (rotate n xs) # tl (rotate n xs) = rotate n xs" by (intro list.collapse)
  have "tl (rotate n xs) @ [hd (rotate n xs)] = rotate (Suc n) xs"
    unfolding rotate_Suc using rotate1_hd_tl [OF ne(1)] by (rule sym)
  also have "\<dots> = hd (rotate (Suc n) xs) # tl (rotate (Suc n) xs)" using ne(2) by (rule list.collapse [symmetric])
  finally show "tl (rotate n xs) @ [hd (rotate n xs)] = hd (rotate (Suc n) xs) # tl (rotate (Suc n) xs)" .
qed

lemma runs_inv:
  assumes "runs L Q F h stk ksp T s n s'" "seg_queue Q elems" "bitflags_crate F INTERRUPTED"
    and "sched_inv L elems stk ksp p qs ctx s" "T = set (p # qs)"
  shows "\<exists>ctx'. sched_inv L elems stk ksp (hd (rotate n (p # qs))) (tl (rotate n (p # qs))) ctx' s'"
  using assms(1)
proof (induction rule: runs.induct)
  case start
  then show ?case using assms(4) by auto
next
  case (computes n s1 m)
  let ?xs = "rotate n (p # qs)"
  obtain ctx' where inv: "sched_inv L elems stk ksp (hd ?xs) (tl ?xs) ctx' s1" using computes.IH by blast
  have "set (hd ?xs # tl ?xs) = T" unfolding rotate_next(2) [OF list.distinct(2)] set_rotate by (rule assms(5) [symmetric])
  then have "task_computes L stk ksp (set (hd ?xs # tl ?xs)) (cpu s1) m" using computes.hyps(2) by simp
  from computes_inv [OF inv this] show ?case by blast
next
  case (preempted n s1 s2)
  let ?xs = "rotate n (p # qs)"
  obtain ctx' where inv: "sched_inv L elems stk ksp (hd ?xs) (tl ?xs) ctx' s1" using preempted.IH by blast
  note q = rotate_next(1) [OF list.distinct(2), of n p qs]
  have "preempt_room (cpu s1) \<subseteq> stk (hd ?xs)"
    using preempted.hyps(2) sched_invD(1) [OF inv] by simp
  from timer_step_dispatches [OF assms(2,3) inv this q, of h] preempted.hyps(3) show ?case by fastforce
next
  case (yields n s1 s2)
  let ?xs = "rotate n (p # qs)"
  obtain ctx' where inv: "sched_inv L elems stk ksp (hd ?xs) (tl ?xs) ctx' s1" using yields.IH by blast
  note q = rotate_next(1) [OF list.distinct(2), of n p qs]
  have "yield_room (cpu s1) \<subseteq> stk (hd ?xs)"
    using yields.hyps(2) sched_invD(1) [OF inv] by simp
  from yield_dispatches [OF assms(2,3) inv this q] yields.hyps(3) show ?case by fastforce
qed

text \<open>
  C6. The tasks take turns: in every run, after \<open>n\<close> switches the task that runs is the one at
  position \<open>n\<close>, counted around, in the order of the start. So every task runs again after as
  many switches as there are tasks. And no run gets stuck: with room on its stack the current
  task can always be preempted or yield, and the scheduler neither panics nor idles.
\<close>

theorem round_robin:
  assumes "seg_queue Q elems" "bitflags_crate F INTERRUPTED"
    and "sched_inv L elems stk ksp p qs ctx s" "runs L Q F h stk ksp (set (p # qs)) s n s'"
    and "cur = mem (cpu s') (CURRENT_TASK_PTR L)"
  shows "cur = (p # qs) ! (n mod length (p # qs)) \<and>
    (preempt_room (cpu s') \<subseteq> stk cur \<longrightarrow> (\<exists>s''. timer_step L Q F h s' = Inr (Running s''))) \<and>
    (yield_room (cpu s') \<subseteq> stk cur \<longrightarrow> (\<exists>s''. yield_task L Q F s' = Inr (Running s'')))"
proof -
  let ?xs = "rotate n (p # qs)"
  obtain ctx' where inv: "sched_inv L elems stk ksp (hd ?xs) (tl ?xs) ctx' s'"
    using runs_inv [OF assms(4,1,2,3) refl] by blast
  then have cur: "cur = hd ?xs" unfolding assms(5) by (rule sched_invD(1))
  obtain q qr where q: "tl ?xs @ [hd ?xs] = q # qr" by (cases "tl ?xs @ [hd ?xs]") auto
  have "cur = (p # qs) ! (n mod length (p # qs))" unfolding cur by (rule hd_rotate_conv_nth) simp
  then show ?thesis
    using timer_step_dispatches [OF assms(1,2) inv _ q, of h] yield_dispatches [OF assms(1,2) inv _ q]
    unfolding cur by blast
qed

theorem round_robin_witness:
  "\<exists>s'. runs sample_symbols list_queue (doc_bitflags INTERRUPTED) 0x3000 two_stacks sample_ksp {0x4000, 0x5000}
      two_tasks 1 s' \<and> mem (cpu s') 0x2000 = 0x5000"
proof -
  have q: "[0x5000] @ [0x4000] = (0x5000 :: u64) # [0x4000]" by simp
  have cur: "mem (cpu two_tasks) (CURRENT_TASK_PTR sample_symbols) = 0x4000"
    by (simp add: two_tasks_def sample_sel)
  obtain s' where s': "timer_step sample_symbols list_queue (doc_bitflags INTERRUPTED) 0x3000 two_tasks = Inr (Running s')"
    using timer_step_dispatches [OF lq.seg_queue_axioms docfl.bitflags_crate_axioms two_tasks_inv
        two_tasks_room(1) q] by blast
  have r: "runs sample_symbols list_queue (doc_bitflags INTERRUPTED) 0x3000 two_stacks sample_ksp
      (set (0x4000 # [0x5000])) two_tasks (Suc 0) s'"
    by (rule runs.preempted [OF runs.start _ s']) (simp only: cur two_tasks_room)
  from round_robin [OF lq.seg_queue_axioms docfl.bitflags_crate_axioms two_tasks_inv r refl] r
  show ?thesis by (auto simp: sample_sel)
qed

end
