(* ===== verification/Spawn.thy ===== *)
theory Spawn
  imports Scheduler_Properties
begin

text \<open>
  The properties of \<open>spawn_task\<close>: the identifiers it makes, the context a new task starts with
  and the invariant of the scheduler; and what happens when no task is left to run.
\<close>

section \<open>Identifiers\<close>

text \<open>The named flags of \<^verbatim>\<open>TaskConfig\<close>.\<close>

definition task_config_flags :: u64 where
  "task_config_flags = KERNEL_TASK OR USES_FLOATS OR SMALL_STACK"

lemma bit_task_config_flags: "bit task_config_flags n \<longleftrightarrow> 61 \<le> n \<and> n < 64"
proof -
  have "bit task_config_flags n \<longleftrightarrow> n = 63 \<or> n = 62 \<or> n = 61"
    unfolding task_config_flags_def KERNEL_TASK_def USES_FLOATS_def SMALL_STACK_def
    by (simp only: bit_or_iff bit_push_bit_iff bit_1_iff) auto
  then show ?thesis by auto
qed

lemma bit_below:
  assumes "unat (w :: 'a::len word) < 2 ^ k" "bit w n"
  shows "n < k"
proof -
  have "take_bit k w = w" using assms(1) by (simp add: word_unat_eq_iff unsigned_take_bit_eq take_bit_nat_eq_self)
  then show ?thesis using assms(2) by (metis bit_take_bit_iff)
qed

text \<open>The word that \<open>spawn_task\<close> composes.\<close>

definition composed_id :: "u64 \<Rightarrow> u64 \<Rightarrow> u8 \<Rightarrow> u64" where
  "composed_id options raw priority =
     (options AND task_config_flags) OR raw OR push_bit 48 (ucast priority AND 0x7)"

lemma bit_composed_id:
  assumes "raw \<le> MAX_TASK_ID" "priority < 8"
  shows "bit (composed_id options raw priority) n \<longleftrightarrow>
    (if n < 48 then bit raw n else if n < 51 then bit priority (n - 48)
     else bit options n \<and> bit task_config_flags n)"
proof -
  have "unat raw < 2 ^ 48" using assms(1) by (simp add: MAX_TASK_ID_def word_le_nat_alt)
  then have r: "n < 48" if "bit raw n" for n using that by (rule bit_below)
  have "unat priority < 2 ^ 3" using assms(2) by (simp add: word_less_nat_alt)
  then have p: "n < 3" if "bit priority n" for n using that by (rule bit_below)
  have seven: "(7 :: u64) = mask 3" by (simp add: mask_eq_exp_minus_1)
  show ?thesis
    unfolding composed_id_def seven
    using r [of n] p [of "n - 48"]
    by (auto simp: bit_simps bit_task_config_flags dest: bit_imp_le_length)
qed

lemma composed_id_fields:
  assumes "bitfield_crate P" "bitflags_crate F task_config_flags" "raw \<le> MAX_TASK_ID" "priority < 8"
  shows "TaskId_task_id P (composed_id options raw priority) = raw"
    "TaskId_priority P (composed_id options raw priority) = priority"
    "TaskId_as_flags F (composed_id options raw priority) = Inr (options AND task_config_flags)"
    "composed_id options raw priority \<noteq> TASKID_SCHEDULER"
proof -
  let ?id = "composed_id options raw priority"
  note b = bit_composed_id [OF assms(3,4), of options]
  have "unat raw < 2 ^ 48" using assms(3) by (simp add: MAX_TASK_ID_def word_le_nat_alt)
  note r = bit_below [OF this]
  have "unat priority < 2 ^ 3" using assms(4) by (simp add: word_less_nat_alt)
  note p = bit_below [OF this]
  show t: "TaskId_task_id P ?id = raw"
    unfolding TaskId_task_id_def
    by (rule bit_word_eqI) (use r in \<open>auto simp: bitfield_crate.bit_get_bits [OF assms(1)] b\<close>)
  show "TaskId_priority P ?id = priority"
    unfolding TaskId_priority_def
    by (rule bit_word_eqI) (use p in \<open>auto simp: bit_simps bitfield_crate.bit_get_bits [OF assms(1)] b\<close>)
  have "?id AND push_bit 56 (mask (63 - 56 + 1)) AND task_config_flags = options AND task_config_flags"
    by (rule bit_word_eqI) (auto simp: bit_simps b bit_task_config_flags)
  then show "TaskId_as_flags F ?id = Inr (options AND task_config_flags)"
    unfolding TaskId_as_flags_def
    by (subst bit_range_ok) (simp_all add: bitflags_crate.from_bits_truncate [OF assms(2)] and.assoc)
  have sid: "TASKID_SCHEDULER = push_bit 63 1 OR mask 48" by (simp add: TASKID_SCHEDULER_def mask_eq_exp_minus_1)
  have "bit (push_bit 63 1 OR mask 48 :: u64) n \<longleftrightarrow> n = 63 \<or> n < 48" for n
    by (simp only: bit_or_iff bit_push_bit_iff bit_mask_iff bit_1_iff) auto
  then have "TaskId_task_id P TASKID_SCHEDULER = mask 48"
    unfolding TaskId_task_id_def sid
    by (intro bit_word_eqI) (auto simp: bitfield_crate.bit_get_bits [OF assms(1)] bit_mask_iff simp del: push_bit_of_1)
  moreover have "raw \<noteq> mask 48" using assms(3) by (auto simp: MAX_TASK_ID_def mask_eq_exp_minus_1)
  ultimately show "?id \<noteq> TASKID_SCHEDULER" using t by metis
qed

section \<open>The new task\<close>

context stack_env
begin

lemma make_kernel_stack_ok:
  assumes "hhdm_ok (HHDM_ADDR V)" "wf_of B (allocator (MAPALL self))"
    and "S = (if small then bits SB (kernel_small_stacks self) else bits LB (kernel_large_stacks self))" "S \<noteq> {}"
  shows "\<exists>self'. make_kernel_stack X B LB SB M V small self =
      Inr (Inr (stack_top_of (HHDM_ADDR V) (small, Min S)), self') \<and> interrupts self' \<and>
      wf_of B (allocator (MAPALL self')) \<and> stack_index_ok (small, Min S) \<and>
      bits SB (kernel_small_stacks self') = bits SB (kernel_small_stacks self) - (if small then {Min S} else {})"
proof (cases small)
  case True
  then show ?thesis
    using small_spec [OF assms(1,2)] S.bits_bound Min_in [OF S.finite_bits, of "kernel_small_stacks self"] assms(3,4)
    by (auto simp: make_kernel_stack_def stack_top_of_def stack_index_ok_def)
next
  case False
  then show ?thesis
    using large_spec [OF assms(1,2)] L.bits_bound Min_in [OF L.finite_bits, of "kernel_large_stacks self"] assms(3,4)
    by (auto simp: make_kernel_stack_def stack_top_of_def stack_index_ok_def)
qed

end

lemma stack_top_bounds:
  assumes "hhdm_ok h" "stack_index_ok k"
  shows "96 \<le> stack_top_of h k" "canonical (stack_top_of h k - 96)" "stack_top_of h k < 2 ^ 64"
proof -
  obtain n where n: "stack_top_of h k = h + n" "96 \<le> n" "n < 2 ^ 38"
    using assms(2) by (cases k)
      (auto simp: stack_index_ok_def stack_top_of_def small_top_eq large_top_eq N_SMALL_KERNEL_STACKS_def
        N_LARGE_KERNEL_STACKS_def split: if_splits)
  then show "96 \<le> stack_top_of h k" "stack_top_of h k < 2 ^ 64" using assms(1) by (simp_all add: hhdm_ok_def)
  show "canonical (stack_top_of h k - 96)" using hhdm_canonical [OF assms(1), of "n - 96"] n by simp
qed

text \<open>The context of a new task.\<close>

definition first_context :: "u64 \<Rightarrow> u64 \<Rightarrow> u64 \<Rightarrow> saved_context" where
  "first_context task_ptr st fl =
     (False, replicate 6 0 @ [task_ptr, KERNEL_CS, put_bit 9 True fl, st - 8, KERNEL_SS])"

lemmas task_offset_defs = sp_offset_def taskid_offset_def flags_offset_def wake_on_end_offset_def

lemma spawn_task_run:
  fixes s :: "('q, 'l, 's, 'm, 'b) sched"
  assumes "stack_env X B M LB SB" "bitflags_crate F task_config_flags"
    and h: "hhdm_ok (HHDM_ADDR V)" "wf_of B (allocator (MAPALL (stacks s)))"
    and opts: "options AND KERNEL_TASK = KERNEL_TASK" "priority < 8" "NEXT_TASK_ID s \<le> MAX_TASK_ID"
    and S: "small \<longleftrightarrow> options AND SMALL_STACK = SMALL_STACK"
      "S = (if small then bits SB (kernel_small_stacks (stacks s)) else bits LB (kernel_large_stacks (stacks s)))"
      "S \<noteq> {}"
    and st: "st = of_nat (stack_top_of (HHDM_ADDR V) (small, Min S))"
    and sep: "cells box \<inter> window (st - 96) 12 = {}"
  shows "\<exists>s'. spawn_task X B LB SB M V F Q L task_ptr options priority wake_on_end box s = Inr (box, s') \<and>
    task_queue s' = seg_push Q box (task_queue s) \<and> NEXT_TASK_ID s' = NEXT_TASK_ID s + 1 \<and> clock s' = clock s \<and>
    wf_of B (allocator (MAPALL (stacks s'))) \<and> gates s' = gates s \<and>
    bits SB (kernel_small_stacks (stacks s')) =
      bits SB (kernel_small_stacks (stacks s)) - (if small then {Min S} else {}) \<and>
    mem (cpu s') (box + 8) = composed_id options (NEXT_TASK_ID s) priority \<and>
    mem (cpu s') box = st - 96 \<and> saved (mem (cpu s')) box (first_context task_ptr st (rflags (cpu s))) \<and>
    (\<forall>b. b \<notin> cells box \<union> window (st - 96) 12 \<longrightarrow> mem (cpu s') b = mem (cpu s) b)"
proof -
  let ?top = "stack_top_of (HHDM_ADDR V) (small, Min S)"
  let ?st0 = "(stacks s)\<lparr>interrupts := bit (rflags (cpu s)) 9\<rparr>"
  have S0: "S = (if small then bits SB (kernel_small_stacks ?st0) else bits LB (kernel_large_stacks ?st0))"
    by (cases small) (simp_all add: S(2))
  obtain st' where mk: "make_kernel_stack X B LB SB M V small ?st0 = Inr (Inr ?top, st')"
    and st': "interrupts st'" "wf_of B (allocator (MAPALL st'))" and k: "stack_index_ok (small, Min S)"
    and sb: "bits SB (kernel_small_stacks st') = bits SB (kernel_small_stacks ?st0) - (if small then {Min S} else {})"
    using stack_env.make_kernel_stack_ok [OF assms(1) h(1) _ S0 S(3)] h(2) by auto
  note top = stack_top_bounds [OF h(1) k]
  let ?m1 = "(cpu s)\<lparr>mem := put_task_info box \<lparr>ti_sp = st,
      ti_task_id = composed_id options (NEXT_TASK_ID s) priority, ti_flags = 0,
      ti_wake_on_end = (case wake_on_end of None \<Rightarrow> 0 | Some w \<Rightarrow> w)\<rparr> (mem (cpu s)),
    rflags := put_bit 9 True (rflags (cpu s)), gpr := (gpr (cpu s))(RDI := task_ptr, RSI := st)\<rparr>"
  obtain m2 where m2: "exec (spawn_asm L) ?m1 = FellThrough m2" "gpr m2 RAX = st - 96"
    "frame_at (st - 96) (rev (spawned_values L ?m1)) (mem m2)"
    "\<And>b. b \<notin> window (st - 96) 12 \<Longrightarrow> mem m2 b = mem ?m1 b"
    using spawn_run [of L ?m1] by auto
  let ?s' = "s\<lparr>NEXT_TASK_ID := NEXT_TASK_ID s + 1, cpu := m2\<lparr>mem := (mem m2)(box := st - 96)\<rparr>, stacks := st',
      task_queue := seg_push Q box (task_queue s)\<rparr>"
  have u: "unat (st - 96) = ?top - 96" "of_nat (?top - 96) = st - 96"
    using top by (simp_all add: st of_nat_diff unat_sub_if' unat_of_nat take_bit_nat_eq_self word_le_nat_alt)
  have "va_new X (unat (gpr m2 RAX)) = Inr (?top - 96)"
    using top(2) assms(1) by (simp add: m2(2) u(1) x86_64.va_new stack_env_def region_env_def frame_env_def)
  then have r: "spawn_task X B LB SB M V F Q L task_ptr options priority wake_on_end box s = Inr (box, ?s')"
    using mk m2(1) opts S(1) st'(1) u(2)
    by (simp add: spawn_task_def bitflags_crate.contains_flags [OF assms(2)] bitflags_crate.known_bits [OF assms(2)]
        Let_def composed_id_def st sp_offset_def assertR_def)
  have away: "b \<notin> window (st - 96) 12" if "b \<in> cells box" for b using sep that by blast
  have in_cells: "box \<in> cells box" "box + 8 \<in> cells box" "box + 16 \<in> cells box" by (simp_all add: cells_def)
  let ?M = "(mem m2)(box := st - 96)"
  have M: "?M (box + 8) = composed_id options (NEXT_TASK_ID s) priority" "?M (box + 16) = 0"
    using m2(4) [OF away [OF in_cells(2)]] m2(4) [OF away [OF in_cells(3)]]
    by (simp_all add: put_task_info_def task_offset_defs)
  have "frame_at (st - 96) (snd (first_context task_ptr st (rflags (cpu s)))) (mem m2)"
    using m2(3) by (simp add: spawned_values_def first_context_def frame_at_Cons numeral_eq_Suc)
  moreover have "box \<notin> window (st - 96) 11" using away [OF in_cells(1)] window_mono [of 11 12 "st - 96"] by auto
  ultimately have sv: "saved ?M box (first_context task_ptr st (rflags (cpu s)))"
    using M(2) by (simp add: saved_def first_context_def context_length_def)
  have "?M b = mem (cpu s) b" if "b \<notin> cells box \<union> window (st - 96) 12" for b
    using that m2(4) [of b] by (simp add: cells_def put_task_info_def task_offset_defs)
  with r sv M(1) st'(2) sb show ?thesis by (intro exI [of _ ?s'] conjI [OF r]) simp
qed

lemma spawn_keeps_inv:
  assumes "seg_queue Q elems" "sched_inv L elems stk ksp p qs ctx s"
    and lay: "layout L stk ksp (set (p # qs @ [box]))" "box \<notin> set (p # qs)" "window (st - 96) 12 \<subseteq> stk box"
    and s': "task_queue s' = seg_push Q box (task_queue s)" "clock s' = clock s" "mem (cpu s') box = st - 96"
      "saved (mem (cpu s')) box c" "\<not> fst c" "mem (cpu s') (box + 8) \<noteq> TASKID_SCHEDULER"
      "\<forall>b. b \<notin> cells box \<union> window (st - 96) 12 \<longrightarrow> mem (cpu s') b = mem (cpu s) b"
  shows "sched_inv L elems stk ksp p (qs @ [box]) (ctx(box := c)) s'"
proof -
  note I = assms(2) [unfolded sched_inv_def Let_def]
  have keep: "mem (cpu s') b = mem (cpu s) b" if "b \<notin> cells box" "b \<notin> stk box" for b
    using that lay(3) s'(7) by blast
  have k: "mem (cpu s') b = mem (cpu s) b" if "b \<in> set (kernel_cells L ksp)" for b
    using that lay(1) by (intro keep) (auto simp: layout_def)
  have t: "mem (cpu s') b = mem (cpu s) b" if "r \<in> set (p # qs)" "b \<in> cells r \<union> stk r" for r b
  proof (rule keep)
    have rb: "r \<noteq> box" "r \<in> set (p # qs @ [box])" "box \<in> set (p # qs @ [box])" using that(1) lay(2) by auto
    show "b \<notin> cells box" "b \<notin> stk box"
      using lay(1) rb that(2) unfolding layout_def by blast+
  qed
  have "mem (cpu s') (p + 16) = mem (cpu s) (p + 16)" by (rule t [of p]) (simp_all add: cells_def)
  moreover have "mem (cpu s') (r + 8) = mem (cpu s) (r + 8)" if "r \<in> set (p # qs)" for r
    using that by (rule t) (simp add: cells_def)
  moreover have "suspended (mem (cpu s')) stk r (ctx r)" if r: "r \<in> set qs" for r
  proof (rule suspended_cong)
    show "suspended (mem (cpu s)) stk r (ctx r)" using I r by simp
    show "\<forall>b\<in>cells r \<union> stk r. mem (cpu s') b = mem (cpu s) b" using t [of r] r by simp
  qed
  moreover have "suspended (mem (cpu s')) stk box c"
    using s'(3-5) lay(3) window_mono [of 11 12 "st - 96"] by (auto simp: suspended_def context_length_def)
  ultimately show ?thesis
    using I k lay(1,2) s'(1,2,6) by (auto simp: sched_inv_def Let_def kernel_cells_def seg_queue.elems_push [OF assms(1)])
qed

text \<open>
  C9. Spawning a task with a kernel configuration and a priority below 8, while identifiers and a
  stack of the requested kind are left, does not panic. The task goes to the end of the queue;
  its identifier decodes to the next number, the priority and the configuration, and is not the
  scheduler's; its saved context starts it at the given function, on its own stack, with
  interrupts enabled; and of the memory only its structure and the top of its stack change, so
  that the invariant of the scheduler is kept with the new task at the end of the queue.
\<close>

theorem spawn_task_correct:
  fixes s :: "('q, 'l, 's, 'm, 'b) sched"
  assumes "x86_64 X" "bit_array B TOTAL_BUDDY_BITS" "page_mapper B M"
    "bit_array LB N_LARGE_KERNEL_STACKS" "bit_array SB N_SMALL_KERNEL_STACKS"
    and crates: "bitfield_crate P" "bitflags_crate F task_config_flags" "seg_queue Q elems"
    and h: "hhdm_ok (HHDM_ADDR V)" "wf_of B (allocator (MAPALL (stacks s)))"
    and opts: "options AND KERNEL_TASK = KERNEL_TASK" "priority < 8" "NEXT_TASK_ID s \<le> MAX_TASK_ID"
    and S: "small \<longleftrightarrow> options AND SMALL_STACK = SMALL_STACK"
      "S = (if small then bits SB (kernel_small_stacks (stacks s)) else bits LB (kernel_large_stacks (stacks s)))"
      "S \<noteq> {}"
    and st: "st = of_nat (stack_top_of (HHDM_ADDR V) (small, Min S))"
    and sep: "cells box \<inter> window (st - 96) 12 = {}"
    and c: "c = first_context task_ptr st (rflags (cpu s))"
  shows "\<exists>s'. spawn_task X B LB SB M V F Q L task_ptr options priority wake_on_end box s = Inr (box, s') \<and>
    elems (task_queue s') = elems (task_queue s) @ [box] \<and>
    TaskId_task_id P (mem (cpu s') (box + 8)) = NEXT_TASK_ID s \<and> NEXT_TASK_ID s' = NEXT_TASK_ID s + 1 \<and>
    TaskId_priority P (mem (cpu s') (box + 8)) = priority \<and>
    TaskId_as_flags F (mem (cpu s') (box + 8)) = Inr (options AND task_config_flags) \<and>
    saved (mem (cpu s')) box c \<and>
    (\<forall>b. b \<notin> cells box \<union> window (st - 96) 12 \<longrightarrow> mem (cpu s') b = mem (cpu s) b) \<and>
    (\<forall>stk ksp p qs ctx. sched_inv L elems stk ksp p qs ctx s \<longrightarrow>
       layout L stk ksp (set (p # qs @ [box])) \<longrightarrow> box \<notin> set (p # qs) \<longrightarrow> window (st - 96) 12 \<subseteq> stk box \<longrightarrow>
       sched_inv L elems stk ksp p (qs @ [box]) (ctx(box := c)) s')"
proof -
  note ids = composed_id_fields [OF crates(1,2) opts(3,2), of options]
  obtain s' where r: "spawn_task X B LB SB M V F Q L task_ptr options priority wake_on_end box s = Inr (box, s')"
    and q: "task_queue s' = seg_push Q box (task_queue s)" and n: "NEXT_TASK_ID s' = NEXT_TASK_ID s + 1"
    and clk: "clock s' = clock s" and id: "mem (cpu s') (box + 8) = composed_id options (NEXT_TASK_ID s) priority"
    and sp: "mem (cpu s') box = st - 96" and sv: "saved (mem (cpu s')) box c"
    and fr: "\<forall>b. b \<notin> cells box \<union> window (st - 96) 12 \<longrightarrow> mem (cpu s') b = mem (cpu s) b"
    unfolding c
    using spawn_task_run [OF stack_envI [OF assms(1-5)] crates(2) h opts S st sep, of Q L task_ptr wake_on_end]
    by blast
  have "\<not> fst c" by (simp add: c first_context_def)
  note inv = spawn_keeps_inv [OF crates(3) _ _ _ _ q clk sp sv this _ fr]
  show ?thesis
    by (rule exI [of _ s'], rule conjI [OF r], intro conjI allI impI)
      (simp_all add: q n id ids sv fr inv seg_queue.elems_push [OF crates(3)])
qed

text \<open>The first task of a kernel that has all its stacks.\<close>

definition sample_boot :: "(u64 list, nat set, nat set, doc_tables, nat set) sched" where
  "sample_boot = \<lparr>cpu = sample_machine, task_queue = [], NEXT_TASK_ID = 0x100, stacks = sample_stacks,
     clock = sample_clock, gates = None\<rparr>"

theorem spawn_task_correct_witness:
  "\<exists>s'. spawn_task x86_doc bitset (bitset_ops N_LARGE_KERNEL_STACKS) (bitset_ops N_SMALL_KERNEL_STACKS)
      (doc_mapper x86_doc bitset) sample_vmem (doc_bitflags task_config_flags) list_queue sample_symbols
      0x6000 small_kernel 3 None 0x4000 sample_boot = Inr (0x4000, s') \<and>
    task_queue s' = [0x4000] \<and> TaskId_task_id doc_bitfield (mem (cpu s') 0x4008) = 0x100 \<and>
    TaskId_priority doc_bitfield (mem (cpu s') 0x4008) = 3 \<and>
    saved (mem (cpu s')) 0x4000 (first_context 0x6000 0xffff800000162000 0x202)"
proof -
  let ?S = "bits (bitset_ops N_SMALL_KERNEL_STACKS) (kernel_small_stacks (stacks sample_boot))"
  have S: "?S = {0..<32}"
    by (auto simp: sample_boot_def sample_stacks_def bits_bitset N_SMALL_KERNEL_STACKS_def N_LARGE_KERNEL_STACKS_def)
  have "Min ?S = 0" unfolding S by (rule Min_eqI) simp_all
  then have st: "0xffff800000162000 = (of_nat (stack_top_of (HHDM_ADDR sample_vmem) (True, Min ?S)) :: u64)"
    by (simp add: stack_top_of_def small_top_eq sample_hhdm)
  have fl: "True \<longleftrightarrow> small_kernel AND SMALL_STACK = SMALL_STACK" "small_kernel AND KERNEL_TASK = KERNEL_TASK"
    by (simp_all add: small_kernel_def SMALL_STACK_def KERNEL_TASK_def)
  have sep: "cells 0x4000 \<inter> window (0xffff800000162000 - 96) 12 = {}"
    by (simp add: cells_def sample_simps)
  have h: "(3 :: u8) < 8" "NEXT_TASK_ID sample_boot \<le> MAX_TASK_ID"
    "wf_of bitset (allocator (MAPALL (stacks sample_boot)))" "{0..<32 :: nat} \<noteq> {}"
    "rflags (cpu sample_boot) = 0x202" "NEXT_TASK_ID sample_boot = 0x100" "task_queue sample_boot = []"
    by (simp_all add: sample_boot_def MAX_TASK_ID_def sample_stacks_wf sample_sel)
  have S': "{0..<32} = (if True then ?S else bits (bitset_ops N_LARGE_KERNEL_STACKS) (kernel_large_stacks (stacks sample_boot)))"
    using S by simp
  from spawn_task_correct [OF x86d.x86_64_axioms bset.bit_array_axioms docm.page_mapper_axioms bset.bit_array_axioms
      bset.bit_array_axioms docbf.bitfield_crate_axioms docfl.bitflags_crate_axioms lq.seg_queue_axioms
      sample_hhdm(1) h(3) fl(2) h(1,2) fl(1) S' h(4) st [unfolded S] sep refl,
      of sample_symbols "0x6000" None]
  show ?thesis by (auto simp: h(5-7))
qed

section \<open>Starting the scheduler\<close>

lemma run_scheduler_gates: "run_scheduler L Q s = Inr (Running s') \<Longrightarrow> gates s' = gates s"
  by (auto simp: run_scheduler_def Let_def bindR_def split: prod.splits option.splits sum.splits outcome.splits)

lemma load_task_ptrs_other: "b \<noteq> STALE_TASK_PTR L \<Longrightarrow> b \<noteq> CURRENT_TASK_PTR L \<Longrightarrow> load_task_ptrs L p M b = M b"
  by (simp add: load_task_ptrs_def)

lemma start_scheduler_run:
  assumes "seg_queue Q elems" and g: "gates s = Some t" "length t = 64" and q: "elems (task_queue s) = qs" "distinct qs"
    and lay: "layout L stk ksp (set qs)" and ctx: "\<forall>r\<in>set qs. suspended (mem (cpu s)) stk r (ctx r)"
    and kern: "mem (cpu s) (SCHEDULER_TASK L) = ksp"
      "mem (cpu s) (HHDM_TOP_ADDR_INNER L) + of_nat SCHEDULER_SP_OFFSET = ksp"
    and ids: "\<forall>r\<in>set qs. mem (cpu s) (r + 8) \<noteq> TASKID_SCHEDULER" and timer: "timer_ok (clock s)"
  shows "case qs of
      [] \<Rightarrow> \<exists>s'. start_scheduler L Q sel preempt s = Inr (Idle s') \<and> elems (task_queue s') = []
    | q # qr \<Rightarrow> \<exists>s' n e. start_scheduler L Q sel preempt s = Inr (Running s') \<and>
        cpu s' = (restore (ctx q) n)\<lparr>mem := mem (cpu s')\<rparr> \<and> sched_inv L elems stk ksp q qr ctx s' \<and>
        gates s' = Some (t[unat IRQ_LAPIC_CLK := e]) \<and> leads_to sel preempt True e"
proof -
  obtain e where e: "leads_to sel preempt True e"
    "load_handler sel IRQ_LAPIC_CLK preempt True \<lparr>IDT = gates s, idtr = None, int_flag = False\<rparr> =
       Inr \<lparr>IDT = Some (t[unat IRQ_LAPIC_CLK := e]), idtr = None, int_flag = False\<rparr>"
    using load_handler_result [of "\<lparr>IDT = gates s, idtr = None, int_flag = False\<rparr>" t IRQ_LAPIC_CLK sel preempt True] g
    by (auto simp: IRQ_LAPIC_CLK_def)
  let ?m = "(cpu s)\<lparr>mem := load_task_ptrs L (SCHEDULER_TASK L) (mem (cpu s)),
      rflags := put_bit 9 True (put_bit 9 False (rflags (cpu s)))\<rparr>"
  let ?s = "s\<lparr>cpu := ?m, clock := halt_timer (clock s), gates := Some (t[unat IRQ_LAPIC_CLK := e])\<rparr>"
  have run: "start_scheduler L Q sel preempt s = run_scheduler L Q ?s"
    by (simp add: start_scheduler_def Let_def e(2))
  show ?thesis
  proof (cases qs)
    case Nil
    then obtain tq where "seg_pop Q (task_queue s) = (None, tq)" "elems tq = []"
      using seg_queue.pop_empty [OF assms(1)] q(1) by blast
    then show ?thesis using Nil by (simp add: run run_scheduler_def)
  next
    case (Cons q qr)
    obtain c' where c': "trigger_local_us 1000000 (clock ?s) = Inr c'" "timer_ok c'"
      using timer_starts [OF timer] by auto
    have other: "mem ?m b = mem (cpu s) b" if "r \<in> set qs" "b \<in> cells r \<union> stk r" for r b
      using layoutD(1,2) [OF lay that(1)] that(2) by (auto simp: kernel_cells_def intro!: load_task_ptrs_other)
    have "\<forall>r\<in>set (q # qr). suspended (mem (cpu ?s)) stk r (ctx r)"
      using ctx other unfolding Cons by (auto intro: suspended_cong [of "mem (cpu s)"])
    moreover have "\<forall>r\<in>set (q # qr). mem (cpu ?s) (r + 8) \<noteq> TASKID_SCHEDULER"
      using ids other unfolding Cons by (simp add: cells_def)
    moreover have "mem (cpu ?s) (SCHEDULER_TASK L) = ksp"
      "mem (cpu ?s) (HHDM_TOP_ADDR_INNER L) + of_nat SCHEDULER_SP_OFFSET = ksp"
      using kern lay by (auto simp: layout_def kernel_cells_def load_task_ptrs_other)
    ultimately obtain s' n where "run_scheduler L Q ?s = Inr (Running s')"
      "cpu s' = (restore (ctx q) n)\<lparr>mem := mem (cpu s')\<rparr>" "sched_inv L elems stk ksp q qr ctx s'"
      using dispatch [OF assms(1) _ _ _ _ _ _ _ c', of q qr L stk ksp ctx] q lay Cons by auto
    then show ?thesis using Cons run run_scheduler_gates [of L Q ?s s'] e(1) by auto
  qed
qed

text \<open>
  C11. Starting the scheduler once the timer is calibrated and the descriptor table is loaded does not
  panic: the gate of the timer leads to the preemption handler, and the task spawned first runs
  from the context it was given, with the invariant of the scheduler; with no task spawned the
  processor idles.
\<close>

theorem start_scheduler_correct:
  assumes "seg_queue Q elems" and g: "gates s = Some t" "length t = 64" and q: "elems (task_queue s) = qs" "distinct qs"
    and lay: "layout L stk ksp (set qs)" and ctx: "\<forall>r\<in>set qs. suspended (mem (cpu s)) stk r (ctx r)"
    and kern: "mem (cpu s) (SCHEDULER_TASK L) = ksp"
      "mem (cpu s) (HHDM_TOP_ADDR_INNER L) + of_nat SCHEDULER_SP_OFFSET = ksp"
    and ids: "\<forall>r\<in>set qs. mem (cpu s) (r + 8) \<noteq> TASKID_SCHEDULER" and timer: "timer_ok (clock s)"
  shows "case qs of
      [] \<Rightarrow> \<exists>s'. start_scheduler L Q sel preempt s = Inr (Idle s') \<and> elems (task_queue s') = []
    | q # qr \<Rightarrow> \<exists>s' n e. start_scheduler L Q sel preempt s = Inr (Running s') \<and>
        cpu s' = (restore (ctx q) n)\<lparr>mem := mem (cpu s')\<rparr> \<and> sched_inv L elems stk ksp q qr ctx s' \<and>
        gates s' = Some (t[unat IRQ_LAPIC_CLK := e]) \<and> leads_to sel preempt True e"
  using start_scheduler_run [OF assms] .

theorem start_scheduler_correct_witness:
  "\<exists>s'. start_scheduler sample_symbols list_queue 8 0x3000
      (two_tasks\<lparr>gates := Some InterruptDescriptorTable_new\<rparr>) = Inr (Running s') \<and>
    rip (cpu s') = 0 \<and> mem (cpu s') 0x2000 = 0x5000 \<and> task_queue s' = []"
proof -
  let ?s = "two_tasks\<lparr>gates := Some InterruptDescriptorTable_new\<rparr>"
  note I = two_tasks_inv [unfolded sched_inv_def Let_def]
  have h: "gates ?s = Some InterruptDescriptorTable_new" "length InterruptDescriptorTable_new = 64"
    "task_queue ?s = [0x5000]" "distinct [0x5000 :: u64]"
    "layout sample_symbols two_stacks sample_ksp (set [0x5000])"
    "\<forall>r\<in>set [0x5000]. suspended (mem (cpu ?s)) two_stacks r (two_contexts r)"
    "mem (cpu ?s) (SCHEDULER_TASK sample_symbols) = sample_ksp"
    "mem (cpu ?s) (HHDM_TOP_ADDR_INNER sample_symbols) + of_nat SCHEDULER_SP_OFFSET = sample_ksp"
    "\<forall>r\<in>set [0x5000]. mem (cpu ?s) (r + 8) \<noteq> TASKID_SCHEDULER" "timer_ok (clock ?s)"
    using I layout_subset [of sample_symbols two_stacks sample_ksp _ "{0x5000}"]
    by (auto simp: InterruptDescriptorTable_new_def)
  obtain s' n where s': "start_scheduler sample_symbols list_queue 8 0x3000 ?s = Inr (Running s')"
    "cpu s' = (restore (two_contexts 0x5000) n)\<lparr>mem := mem (cpu s')\<rparr>"
    "sched_inv sample_symbols (\<lambda>q. q) two_stacks sample_ksp 0x5000 [] two_contexts s'"
    using start_scheduler_correct [OF lq.seg_queue_axioms h, of 8 "0x3000"] by auto
  have "rip (cpu s') = 0" by (subst s'(2)) (simp add: restore_def Let_def context_length_def)
  moreover have "mem (cpu s') 0x2000 = 0x5000" "task_queue s' = []"
    using sched_invD [OF s'(3)] by (simp_all add: sample_sel)
  ultimately show ?thesis using s'(1) by blast
qed

end
