(* ===== verification/Heap.thy ===== *)
theory Heap
  imports Vmem
begin

text \<open>
  The kernel heap: the fixed-size block allocator of \<^verbatim>\<open>heap.rs\<close>, in front of the first-fit heap
  of the \<^verbatim>\<open>linked_list_allocator\<close> crate, and the unused allocator of \<^verbatim>\<open>heap/ll.rs\<close>.

  A free block holds the pointer to the next free block of its size in its first quadword, so
  the memory is part of the state: \<open>hmem a\<close> is the quadword at address \<open>a\<close>, as a number. A
  missing reference is the null pointer. The crate keeps its own data in the memory it manages,
  so its operations take the memory and return it changed.
\<close>

section \<open>The crate\<close>

record Layout =
  lsize :: nat
  lalign :: nat

type_synonym memory = "nat \<Rightarrow> nat"

record 'h heap_ops =
  ll_init :: "nat \<Rightarrow> nat \<Rightarrow> 'h \<Rightarrow> memory \<Rightarrow> 'h \<times> memory"
  allocate_first_fit :: "Layout \<Rightarrow> 'h \<Rightarrow> memory \<Rightarrow> nat option \<times> 'h \<times> memory"
  ll_deallocate :: "nat \<Rightarrow> Layout \<Rightarrow> 'h \<Rightarrow> memory \<Rightarrow> 'h \<times> memory"

definition valid_layout :: "Layout \<Rightarrow> bool" where
  "valid_layout L \<longleftrightarrow> 0 < lsize L \<and> (\<exists>k. lalign L = 2 ^ k)"

text \<open>The quadwords inside the given regions (start and size) are the same.\<close>

definition keeps :: "(nat \<times> nat) set \<Rightarrow> memory \<Rightarrow> memory \<Rightarrow> bool" where
  "keeps U m m' \<longleftrightarrow> (\<forall>(q, n)\<in>U. \<forall>a. q \<le> a \<and> a + 8 \<le> q + n \<longrightarrow> m' a = m a)"

definition region :: "nat \<times> nat \<Rightarrow> nat set" where
  "region r = {fst r..<fst r + snd r}"

text \<open>
  \<open>used\<close> are the regions that are allocated, \<open>area\<close> the memory the heap was given. An allocation
  returns a new region of the requested size and alignment, disjoint from those in use.
\<close>

locale fallback_heap =
  fixes A :: "'h heap_ops" and ok :: "'h \<Rightarrow> bool" and used :: "'h \<Rightarrow> (nat \<times> nat) set" and area :: "'h \<Rightarrow> nat set"
  assumes used_sound: "ok h \<Longrightarrow> r \<in> used h \<Longrightarrow> fst r \<noteq> 0 \<and> region r \<subseteq> area h"
    and used_disjoint: "ok h \<Longrightarrow> r \<in> used h \<Longrightarrow> r' \<in> used h \<Longrightarrow> r \<noteq> r' \<Longrightarrow> region r \<inter> region r' = {}"
    and init_ok: "0 < start \<Longrightarrow> 0 < len \<Longrightarrow> ll_init A start len h m = (h', m') \<Longrightarrow>
      ok h' \<and> used h' = {} \<and> area h' = {start..<start + len}"
    and allocate_some: "ok h \<Longrightarrow> valid_layout L \<Longrightarrow> allocate_first_fit A L h m = (Some p, h', m') \<Longrightarrow>
      ok h' \<and> area h' = area h \<and> (p, lsize L) \<notin> used h \<and> used h' = insert (p, lsize L) (used h) \<and>
      p mod lalign L = 0 \<and> keeps (used h) m m'"
    and allocate_none: "ok h \<Longrightarrow> valid_layout L \<Longrightarrow> allocate_first_fit A L h m = (None, h', m') \<Longrightarrow>
      ok h' \<and> area h' = area h \<and> used h' = used h \<and> keeps (used h) m m'"
    and deallocate: "ok h \<Longrightarrow> (p, lsize L) \<in> used h \<Longrightarrow> ll_deallocate A p L h m = (h', m') \<Longrightarrow>
      ok h' \<and> area h' = area h \<and> used h' = used h - {(p, lsize L)} \<and> keeps (used h') m m'"

section \<open>The code\<close>

definition BLOCK_SIZES :: "nat list" where
  "BLOCK_SIZES = [8, 16, 32, 64, 128, 256, 512, 1024, 2048]"

text \<open>\<open>Layout::from_size_align\<close>.\<close>

definition from_size_align :: "nat \<Rightarrow> nat \<Rightarrow> Layout option" where
  "from_size_align sz align =
     (if align \<noteq> 0 \<and> 2 ^ top_bit align = align \<and> sz + (align - 1) < 2 ^ 63
      then Some \<lparr>lsize = sz, lalign = align\<rparr> else None)"

record 'h FixedSizeBlockAllocator =
  list_heads :: "nat list"
  fallback :: 'h
  hmem :: memory

definition FixedSizeBlockAllocator_new :: "'h \<Rightarrow> memory \<Rightarrow> 'h FixedSizeBlockAllocator" where
  "FixedSizeBlockAllocator_new empty_heap m =
     \<lparr>list_heads = replicate (length BLOCK_SIZES) 0, fallback = empty_heap, hmem = m\<rparr>"

definition heap_alloc_init :: "'h heap_ops \<Rightarrow> nat \<Rightarrow> nat \<Rightarrow> 'h FixedSizeBlockAllocator \<Rightarrow> 'h FixedSizeBlockAllocator" where
  "heap_alloc_init A heap_start heap_size self =
     (let (h, m) = ll_init A heap_start heap_size (fallback self) (hmem self) in
      self\<lparr>fallback := h, hmem := m\<rparr>)"

fun position :: "(nat \<Rightarrow> bool) \<Rightarrow> nat list \<Rightarrow> nat option" where
  "position P [] = None"
| "position P (x # xs) = (if P x then Some 0 else map_option Suc (position P xs))"

definition list_index :: "Layout \<Rightarrow> nat option" where
  "list_index layout =
     (let req_block_size = max (lsize layout) (lalign layout) in
      position (\<lambda>s. req_block_size \<le> s) BLOCK_SIZES)"

definition fallback_alloc ::
  "'h heap_ops \<Rightarrow> Layout \<Rightarrow> 'h FixedSizeBlockAllocator \<Rightarrow> nat \<times> 'h FixedSizeBlockAllocator" where
  "fallback_alloc A layout self =
     (case allocate_first_fit A layout (fallback self) (hmem self) of
        (Some ptr, h, m) \<Rightarrow> (ptr, self\<lparr>fallback := h, hmem := m\<rparr>)
      | (None, h, m) \<Rightarrow> (0, self\<lparr>fallback := h, hmem := m\<rparr>))"

definition heap_alloc ::
  "'h heap_ops \<Rightarrow> Layout \<Rightarrow> 'h FixedSizeBlockAllocator \<Rightarrow> (nat \<times> 'h FixedSizeBlockAllocator) res" where
  "heap_alloc A layout self =
     (case list_index layout of
        Some index \<Rightarrow>
          if index < length (list_heads self) then
            let node = list_heads self ! index in
            if node \<noteq> 0 then
              let rest = hmem self node in
              Inr (node, self\<lparr>list_heads := (list_heads self)[index := rest], hmem := (hmem self)(node := 0)\<rparr>)
            else
              let block_size = BLOCK_SIZES ! index; block_align = block_size in
              bindR (expectR (from_size_align block_size block_align)) (\<lambda>layout'.
              Inr (fallback_alloc A layout' self))
          else Inl IndexOutOfBounds
      | None \<Rightarrow> Inr (fallback_alloc A layout self))"

definition heap_dealloc ::
  "'h heap_ops \<Rightarrow> nat \<Rightarrow> Layout \<Rightarrow> 'h FixedSizeBlockAllocator \<Rightarrow> 'h FixedSizeBlockAllocator res" where
  "heap_dealloc A ptr layout self =
     (case list_index layout of
        Some index \<Rightarrow>
          if index < length (list_heads self) then
            let next_node = list_heads self ! index in
            bindR (assertR (8 \<le> BLOCK_SIZES ! index)) (\<lambda>_.
            bindR (assertR (8 \<le> BLOCK_SIZES ! index)) (\<lambda>_.
            Inr (self\<lparr>list_heads := (list_heads self)[index := ptr], hmem := (hmem self)(ptr := next_node)\<rparr>)))
          else Inl IndexOutOfBounds
      | None \<Rightarrow>
          if ptr = 0 then Inl UnwrapFailed
          else let (h, m) = ll_deallocate A ptr layout (fallback self) (hmem self) in
               Inr (self\<lparr>fallback := h, hmem := m\<rparr>))"

definition HEAP_FLAGS :: u64 where
  "HEAP_FLAGS = PRESENT OR WRITABLE OR PAGE_FLAG_HEAP"

definition heap_init ::
  "x86_ops \<Rightarrow> 'b bit_ops \<Rightarrow> ('m, 'b) mapper_ops \<Rightarrow> 'h heap_ops \<Rightarrow> ('m, 'b) MapperAllocator \<Rightarrow>
   'h FixedSizeBlockAllocator \<Rightarrow> (('m, 'b) MapperAllocator \<times> 'h FixedSizeBlockAllocator) res" where
  "heap_init X B M A mapall self =
     bindR (va_add X HEAP_START HEAP_SIZE) (\<lambda>heap_end.
     bindR (page_region X B M Size2MiB mapall HEAP_START heap_end HEAP_FLAGS) (\<lambda>(r, mapall1).
     case r of
       Inl _ \<Rightarrow> Inl UnwrapFailed
     | Inr _ \<Rightarrow> Inr (mapall1, heap_alloc_init A HEAP_START HEAP_SIZE self)))"

section \<open>Sizes\<close>

lemma position_Some:
  "position P xs = Some i \<longleftrightarrow> i < length xs \<and> P (xs ! i) \<and> (\<forall>j<i. \<not> P (xs ! j))"
  by (induction xs arbitrary: i) (auto simp: nth_Cons less_Suc_eq_0_disj split: nat.splits)

lemma position_None: "position P xs = None \<longleftrightarrow> (\<forall>x\<in>set xs. \<not> P x)"
  by (induction xs) auto

lemma length_BLOCK_SIZES: "length BLOCK_SIZES = 9"
  by (simp add: BLOCK_SIZES_def)

lemma BLOCK_SIZES_nth: "i < 9 \<Longrightarrow> BLOCK_SIZES ! i = 2 ^ (i + 3)"
  by (simp add: BLOCK_SIZES_def less_Suc_eq numeral_eq_Suc) auto

lemma list_indexD:
  assumes "list_index L = Some i"
  shows "i < 9" "lsize L \<le> BLOCK_SIZES ! i" "lalign L \<le> BLOCK_SIZES ! i"
  using assms by (auto simp: list_index_def Let_def position_Some length_BLOCK_SIZES)

lemma block_layout:
  assumes "i < 9"
  shows "from_size_align (BLOCK_SIZES ! i) (BLOCK_SIZES ! i) =
      Some \<lparr>lsize = BLOCK_SIZES ! i, lalign = BLOCK_SIZES ! i\<rparr>"
    and "valid_layout \<lparr>lsize = BLOCK_SIZES ! i, lalign = BLOCK_SIZES ! i\<rparr>" and "8 \<le> BLOCK_SIZES ! i"
proof -
  have "(2::nat) ^ (i + 3) \<le> 2 ^ 11" using assms by (intro power_increasing) simp_all
  then show "from_size_align (BLOCK_SIZES ! i) (BLOCK_SIZES ! i) =
      Some \<lparr>lsize = BLOCK_SIZES ! i, lalign = BLOCK_SIZES ! i\<rparr>"
    using assms by (simp add: from_size_align_def BLOCK_SIZES_nth top_bit_power del: power_add)
  show "valid_layout \<lparr>lsize = BLOCK_SIZES ! i, lalign = BLOCK_SIZES ! i\<rparr>"
    using assms by (auto simp: valid_layout_def BLOCK_SIZES_nth)
  have "(2::nat) ^ 3 \<le> 2 ^ (i + 3)" by (intro power_increasing) simp_all
  then show "8 \<le> BLOCK_SIZES ! i" using assms by (simp add: BLOCK_SIZES_nth)
qed

section \<open>The free lists\<close>

fun chain :: "memory \<Rightarrow> nat \<Rightarrow> nat list \<Rightarrow> bool" where
  "chain m p [] \<longleftrightarrow> p = 0"
| "chain m p (x # xs) \<longleftrightarrow> p = x \<and> x \<noteq> 0 \<and> chain m (m x) xs"

lemma chain_cong: "(\<And>x. x \<in> set xs \<Longrightarrow> m' x = m x) \<Longrightarrow> chain m' p xs \<longleftrightarrow> chain m p xs"
  by (induction xs arbitrary: p) auto

lemma chain_upd [simp]: "x \<notin> set xs \<Longrightarrow> chain (m(x := v)) p xs \<longleftrightarrow> chain m p xs"
  by (rule chain_cong) auto

lemma chain_null: "chain m 0 xs \<longleftrightarrow> xs = []"
  by (cases xs) auto

text \<open>The region that an allocation of a layout takes.\<close>

definition taken :: "nat \<times> Layout \<Rightarrow> nat \<times> nat" where
  "taken = (\<lambda>(p, L). (p, case list_index L of Some i \<Rightarrow> BLOCK_SIZES ! i | None \<Rightarrow> lsize L))"

definition free_blocks :: "(nat \<Rightarrow> nat list) \<Rightarrow> (nat \<times> nat) set" where
  "free_blocks fs = (\<Union>i<9. (\<lambda>p. (p, BLOCK_SIZES ! i)) ` set (fs i))"

definition aligned_alloc :: "nat \<times> Layout \<Rightarrow> bool" where
  "aligned_alloc = (\<lambda>(p, L). valid_layout L \<and> p mod lalign L = 0 \<and>
     (\<forall>i. list_index L = Some i \<longrightarrow> p mod BLOCK_SIZES ! i = 0))"

text \<open>
  The clients hold \<open>live\<close>; every region in use of the crate's heap is held by a client or lies in
  exactly one free list.
\<close>

definition heap_inv ::
  "('h \<Rightarrow> bool) \<Rightarrow> ('h \<Rightarrow> (nat \<times> nat) set) \<Rightarrow> (nat \<times> Layout) list \<Rightarrow> (nat \<Rightarrow> nat list) \<Rightarrow>
   'h FixedSizeBlockAllocator \<Rightarrow> bool" where
  "heap_inv ok used live fs s \<longleftrightarrow>
     ok (fallback s) \<and> length (list_heads s) = 9 \<and>
     (\<forall>i<9. chain (hmem s) (list_heads s ! i) (fs i) \<and> distinct (fs i)) \<and>
     distinct (map taken live) \<and> set (map taken live) \<inter> free_blocks fs = {} \<and>
     used (fallback s) = set (map taken live) \<union> free_blocks fs \<and>
     (\<forall>i<9. \<forall>p\<in>set (fs i). p mod BLOCK_SIZES ! i = 0) \<and>
     (\<forall>a\<in>set live. aligned_alloc a)"

text \<open>The blocks of a size are aligned for every layout that is served with them.\<close>

lemma block_aligned:
  assumes "list_index L = Some i" "valid_layout L" "p mod BLOCK_SIZES ! i = 0"
  shows "p mod lalign L = 0"
proof -
  obtain k where k: "lalign L = 2 ^ k" using assms(2) by (auto simp: valid_layout_def)
  have "(2::nat) ^ k \<le> 2 ^ (i + 3)" using list_indexD [OF assms(1)] k by (simp add: BLOCK_SIZES_nth)
  then have "lalign L dvd BLOCK_SIZES ! i"
    using list_indexD(1) [OF assms(1)] k by (simp only: BLOCK_SIZES_nth power_increasing_iff le_imp_power_dvd)
  then show ?thesis using assms(3) by (meson dvd_trans mod_0_imp_dvd dvd_imp_mod_0)
qed

lemma taken_covers: "region (p, lsize L) \<subseteq> region (taken (p, L))"
  using list_indexD(2) [of L] by (force simp: taken_def region_def split: option.splits)

lemma taken_pos: "valid_layout L \<Longrightarrow> 0 < snd (taken (p, L))"
  using list_indexD(1) [of L] block_layout(3) by (fastforce simp: taken_def valid_layout_def split: option.splits)

lemma free_blocks_upd:
  assumes "i < 9"
  shows "free_blocks (fs(i := xs)) =
    (free_blocks fs - (\<lambda>p. (p, BLOCK_SIZES ! i)) ` set (fs i)) \<union> (\<lambda>p. (p, BLOCK_SIZES ! i)) ` set xs"
proof -
  have "BLOCK_SIZES ! j \<noteq> BLOCK_SIZES ! i" if "j < 9" "j \<noteq> i" for j
    using that assms by (simp add: BLOCK_SIZES_nth power_inject_exp)
  then show ?thesis using assms unfolding free_blocks_def by (auto simp: image_iff split: if_splits)
qed

lemma taken_remove1:
  assumes "distinct (map taken live)" "x \<in> set live"
  shows "distinct (map taken (remove1 x live))" "set (map taken (remove1 x live)) = set (map taken live) - {taken x}"
proof -
  have d: "distinct live" "inj_on taken (set live)" using assms(1) by (simp_all add: distinct_map)
  then have e: "set (remove1 x live) = set live - {x}" by (simp add: set_remove1_eq)
  show "distinct (map taken (remove1 x live))"
    using d by (simp add: distinct_map e inj_on_diff)
  show "set (map taken (remove1 x live)) = set (map taken live) - {taken x}"
    using inj_on_image_set_diff [OF d(2), of "set live" "{x}"] assms(2) by (simp add: e)
qed

text \<open>An operation of the crate leaves the free lists alone.\<close>

lemma keeps_chain:
  assumes "keeps (free_blocks fs) m m'" "i < 9"
  shows "chain m' p (fs i) \<longleftrightarrow> chain m p (fs i)"
proof (rule chain_cong)
  fix x assume "x \<in> set (fs i)"
  then have "(x, BLOCK_SIZES ! i) \<in> free_blocks fs" using assms(2) by (auto simp: free_blocks_def)
  then show "m' x = m x" using assms(1) block_layout(3) [OF assms(2)] by (fastforce simp: keeps_def)
qed

lemma keeps_mono: "keeps U m m' \<Longrightarrow> V \<subseteq> U \<Longrightarrow> keeps V m m'"
  by (auto simp: keeps_def)

lemma keeps_upd:
  assumes "\<And>r. r \<in> U \<Longrightarrow> x \<notin> region r"
  shows "keeps U m (m(x := v))"
  using assms by (fastforce simp: keeps_def region_def)

context fallback_heap
begin

lemma unique_ptr:
  assumes "ok h" "(p, n) \<in> used h" "(p, k) \<in> used h" "0 < n" "0 < k"
  shows "n = k"
  using used_disjoint [OF assms(1-3)] assms(4,5) by (auto simp: region_def disjoint_iff)

lemma free_used:
  assumes "heap_inv ok used live fs s" "i < 9" "x \<in> set (fs i)"
  shows "(x, BLOCK_SIZES ! i) \<in> used (fallback s)" "(x, BLOCK_SIZES ! i) \<in> free_blocks fs" "x \<noteq> 0"
    "j < 9 \<Longrightarrow> j \<noteq> i \<Longrightarrow> x \<notin> set (fs j)"
proof -
  show f: "(x, BLOCK_SIZES ! i) \<in> free_blocks fs" using assms(2,3) by (auto simp: free_blocks_def)
  then show u: "(x, BLOCK_SIZES ! i) \<in> used (fallback s)" using assms(1) by (simp add: heap_inv_def)
  have ok: "ok (fallback s)" using assms(1) by (simp add: heap_inv_def)
  from used_sound [OF ok u] show "x \<noteq> 0" by simp
  show "x \<notin> set (fs j)" if "j < 9" "j \<noteq> i"
  proof
    assume "x \<in> set (fs j)"
    then have "(x, BLOCK_SIZES ! j) \<in> used (fallback s)"
      using that(1) assms(1) by (auto simp: heap_inv_def free_blocks_def)
    from unique_ptr [OF ok u this] show False
      using that assms(2) block_layout(3) [OF assms(2)] block_layout(3) [OF that(1)]
      by (simp add: BLOCK_SIZES_nth power_inject_exp)
  qed
qed

lemma live_used:
  assumes "heap_inv ok used live fs s" "(p, L) \<in> set live"
  shows "taken (p, L) \<in> used (fallback s)" "taken (p, L) \<notin> free_blocks fs" "p \<noteq> 0"
    "region (taken (p, L)) \<subseteq> area (fallback s)"
proof -
  have m: "taken (p, L) \<in> set (map taken live)" using assms(2) by simp
  show u: "taken (p, L) \<in> used (fallback s)" using m assms(1) unfolding heap_inv_def by blast
  show "taken (p, L) \<notin> free_blocks fs" using m assms(1) unfolding heap_inv_def by blast
  have ok: "ok (fallback s)" using assms(1) by (simp add: heap_inv_def)
  from used_sound [OF ok u] show "p \<noteq> 0" "region (taken (p, L)) \<subseteq> area (fallback s)" by (simp_all add: taken_def)
qed

text \<open>Different allocations do not overlap.\<close>

lemma live_disjoint:
  assumes "heap_inv ok used live fs s" "i < length live" "j < i" "live ! i = (p, L)" "live ! j = (q, K)"
  shows "region (p, lsize L) \<inter> region (q, lsize K) = {}"
proof -
  have d: "taken (p, L) \<noteq> taken (q, K)"
    using assms nth_eq_iff_index_eq [of "map taken live" i j] by (auto simp: heap_inv_def)
  have "(p, L) \<in> set live" "(q, K) \<in> set live" using assms(2-5) nth_mem [of i live] nth_mem [of j live] by auto
  then have "region (taken (p, L)) \<inter> region (taken (q, K)) = {}"
    using live_used(1) [OF assms(1)] assms(1) by (intro used_disjoint [OF _ _ _ d]) (auto simp: heap_inv_def)
  then show ?thesis using taken_covers [of p L] taken_covers [of q K] by blast
qed

lemma pop_block:
  assumes inv: "heap_inv ok used live fs s" and i: "list_index L = Some i" "valid_layout L" and x: "fs i = x # xs"
  shows "heap_inv ok used ((x, L) # live) (fs(i := xs))
      (s\<lparr>list_heads := (list_heads s)[i := hmem s x], hmem := (hmem s)(x := 0)\<rparr>)"
    "keeps (set (map taken live)) (hmem s) ((hmem s)(x := 0))" "list_heads s ! i = x" "x \<noteq> 0"
proof -
  note I = inv [unfolded heap_inv_def]
  have i9: "i < 9" using list_indexD(1) [OF i(1)] .
  have c: "chain (hmem s) (list_heads s ! i) (x # xs)" "distinct (x # xs)" using I i9 x by metis+
  then show "list_heads s ! i = x" "x \<noteq> 0" by simp_all
  note fu = free_used [OF inv i9, of x, unfolded x, simplified]
  have t: "taken (x, L) = (x, BLOCK_SIZES ! i)" by (simp add: taken_def i(1))
  have sub: "(\<lambda>p. (p, BLOCK_SIZES ! i)) ` set (fs i) \<subseteq> free_blocks fs" using i9 by (auto simp: free_blocks_def)
  have fb: "free_blocks (fs(i := xs)) = free_blocks fs - {(x, BLOCK_SIZES ! i)}"
    using c(2) sub unfolding free_blocks_upd [OF i9] x by auto
  have "chain ((hmem s)(x := 0)) (list_heads s ! j) (fs j)" if "j < 9" "j \<noteq> i" for j
    using I that fu(4) by simp
  moreover have "chain ((hmem s)(x := 0)) (hmem s x) xs" using c by simp
  moreover have "(x, BLOCK_SIZES ! i) \<notin> set (map taken live)" using I fu(2) by blast
  moreover have "x mod BLOCK_SIZES ! i = 0" using I i9 x by simp
  then have "aligned_alloc (x, L)" using i block_aligned [OF i] by (simp add: aligned_alloc_def)
  ultimately show "heap_inv ok used ((x, L) # live) (fs(i := xs))
      (s\<lparr>list_heads := (list_heads s)[i := hmem s x], hmem := (hmem s)(x := 0)\<rparr>)"
    using I i c(2) i9 x fu(2) unfolding heap_inv_def fb by (auto simp: t nth_list_update)
  show "keeps (set (map taken live)) (hmem s) ((hmem s)(x := 0))"
  proof (rule keeps_upd)
    fix r assume "r \<in> set (map taken live)"
    then have "r \<in> used (fallback s)" "r \<noteq> (x, BLOCK_SIZES ! i)" using I fu(2) by blast+
    then have "region r \<inter> region (x, BLOCK_SIZES ! i) = {}" using I fu(1) by (intro used_disjoint) auto
    then show "x \<notin> region r" using block_layout(3) [OF i9] by (auto simp: region_def)
  qed
qed

text \<open>A client gives a small block back.\<close>

lemma push_block:
  assumes inv: "heap_inv ok used live fs s" and p: "(p, L) \<in> set live" and i: "list_index L = Some i"
  shows "heap_inv ok used (remove1 (p, L) live) (fs(i := p # fs i))
      (s\<lparr>list_heads := (list_heads s)[i := p], hmem := (hmem s)(p := list_heads s ! i)\<rparr>)"
    "keeps (set (map taken (remove1 (p, L) live))) (hmem s) ((hmem s)(p := list_heads s ! i))"
proof -
  note I = inv [unfolded heap_inv_def]
  have i9: "i < 9" using list_indexD(1) [OF i] .
  have t: "taken (p, L) = (p, BLOCK_SIZES ! i)" by (simp add: taken_def i)
  note lu = live_used [OF inv p, unfolded t]
  note rm = taken_remove1 [OF _ p, unfolded t]
  have d: "distinct (map taken live)" "ok (fallback s)" using I by simp_all
  have off: "p \<notin> set (fs j)" if j: "j < 9" for j
  proof
    assume pj: "p \<in> set (fs j)"
    from unique_ptr [OF d(2) free_used(1) [OF inv j pj] lu(1)] have "BLOCK_SIZES ! j = BLOCK_SIZES ! i"
      using block_layout(3) [OF i9] block_layout(3) [OF j] by simp
    then show False using free_used(2) [OF inv j pj] lu(2) by simp
  qed
  have sub: "(\<lambda>p. (p, BLOCK_SIZES ! i)) ` set (fs i) \<subseteq> free_blocks fs" using i9 by (auto simp: free_blocks_def)
  have fb: "free_blocks (fs(i := p # fs i)) = insert (p, BLOCK_SIZES ! i) (free_blocks fs)"
    using sub unfolding free_blocks_upd [OF i9] by auto
  have live': "taken ` set (remove1 (p, L) live) = taken ` set live - {(p, BLOCK_SIZES ! i)}"
    "distinct (map taken (remove1 (p, L) live))" using rm [OF d(1)] by simp_all
  let ?s = "s\<lparr>list_heads := (list_heads s)[i := p], hmem := (hmem s)(p := list_heads s ! i)\<rparr>"
  let ?fs = "fs(i := p # fs i)"
  have len: "length (list_heads s) = 9" using I by simp
  have c: "chain ((hmem s)(p := v)) (list_heads s ! j) (fs j)" if "j < 9" for j v
    using I that off [OF that] by simp
  have chains: "\<forall>j<9. chain (hmem ?s) (list_heads ?s ! j) (?fs j) \<and> distinct (?fs j)"
  proof (intro allI impI)
    fix j :: nat assume j: "j < 9"
    show "chain (hmem ?s) (list_heads ?s ! j) (?fs j) \<and> distinct (?fs j)"
      using c [OF j] off [OF j] I j lu(3) len by (cases "j = i") simp_all
  qed
  have "p mod BLOCK_SIZES ! i = 0" using I p i by (auto simp: aligned_alloc_def)
  then have al: "\<forall>j<9. \<forall>q\<in>set (?fs j). q mod BLOCK_SIZES ! j = 0" using I by simp
  have "set (remove1 (p, L) live) \<subseteq> set live" by (rule set_remove1_subset)
  then have vl: "\<forall>a\<in>set (remove1 (p, L) live). aligned_alloc a" using I by blast
  have "taken ` set live = insert (p, BLOCK_SIZES ! i) (taken ` set live)" using p t by force
  then have u: "used (fallback s) = (taken ` set live - {(p, BLOCK_SIZES ! i)}) \<union> insert (p, BLOCK_SIZES ! i) (free_blocks fs)"
    using I by auto
  have dj: "taken ` set live \<inter> free_blocks fs = {}" using I by simp
  show "heap_inv ok used (remove1 (p, L) live) ?fs ?s"
    unfolding heap_inv_def fb set_map live'(1)
    using d len chains al vl live'(2) u dj by simp blast
  show "keeps (set (map taken (remove1 (p, L) live))) (hmem s) ((hmem s)(p := list_heads s ! i))"
  proof (rule keeps_upd)
    fix r assume "r \<in> set (map taken (remove1 (p, L) live))"
    then have "r \<in> used (fallback s)" "r \<noteq> (p, BLOCK_SIZES ! i)" using I rm(2) [OF d(1)] by auto
    then have "region r \<inter> region (p, BLOCK_SIZES ! i) = {}" using lu(1) by (intro used_disjoint [OF d(2)])
    then show "p \<notin> region r" using block_layout(3) [OF i9] by (auto simp: region_def)
  qed
qed

text \<open>The crate changes its state and the memory outside the regions in use.\<close>

lemma crate_step:
  assumes inv: "heap_inv ok used live fs s"
    and h: "ok h" "used h = set (map taken live') \<union> free_blocks fs" "set (map taken live') \<inter> free_blocks fs = {}"
      "distinct (map taken live')" "keeps (free_blocks fs) (hmem s) m"
    and live': "\<forall>a\<in>set live'. aligned_alloc a"
  shows "heap_inv ok used live' fs (s\<lparr>fallback := h, hmem := m\<rparr>)"
  using assms by (simp add: heap_inv_def keeps_chain)

text \<open>\<open>L'\<close> is the layout asked for, or that of the block it is served with.\<close>

lemma fallback_alloc_ok:
  assumes inv: "heap_inv ok used live fs s" and L: "valid_layout L" "valid_layout L'"
    and t: "\<And>p. taken (p, L) = (p, lsize L')" "\<And>i. list_index L = Some i \<Longrightarrow> lalign L' = BLOCK_SIZES ! i"
      "list_index L = None \<Longrightarrow> L' = L"
  shows "\<exists>p s'. fallback_alloc A L' s = (p, s') \<and> area (fallback s') = area (fallback s) \<and>
    keeps (set (map taken live)) (hmem s) (hmem s') \<and>
    heap_inv ok used (if p = 0 then live else (p, L) # live) fs s'"
proof -
  note I = inv [unfolded heap_inv_def]
  have ok: "ok (fallback s)" and u: "used (fallback s) = set (map taken live) \<union> free_blocks fs" using I by simp_all
  obtain r h m where a: "allocate_first_fit A L' (fallback s) (hmem s) = (r, h, m)" by (metis prod_cases3)
  have kp: "keeps V (hmem s) m" if "keeps (used (fallback s)) (hmem s) m" "V \<subseteq> used (fallback s)" for V
    using keeps_mono [OF that] .
  show ?thesis
  proof (cases r)
    case None
    note n = allocate_none [OF ok L(2) a [unfolded None]]
    have "heap_inv ok used live fs (s\<lparr>fallback := h, hmem := m\<rparr>)"
      using n I u by (intro crate_step [OF inv]) (auto intro: kp)
    then show ?thesis using a None n u by (auto simp: fallback_alloc_def intro: kp)
  next
    case (Some p)
    note n = allocate_some [OF ok L(2) a [unfolded Some]]
    have p0: "p \<noteq> 0" using n used_sound [of h "(p, lsize L')"] by auto
    have "p mod lalign L = 0"
      using n t(2,3) block_aligned [OF _ L(1), of _ p] by (cases "list_index L") auto
    then have "aligned_alloc (p, L)" using n t(2) L(1) by (auto simp: aligned_alloc_def)
    then have "heap_inv ok used ((p, L) # live) fs (s\<lparr>fallback := h, hmem := m\<rparr>)"
      using n I u by (intro crate_step [OF inv]) (auto simp: t(1) intro: kp)
    then show ?thesis using a Some n u p0 by (auto simp: fallback_alloc_def intro: kp)
  qed
qed

lemma heap_alloc_ok:
  assumes inv: "heap_inv ok used live fs s" and L: "valid_layout L"
  shows "\<exists>p s' fs'. heap_alloc A L s = Inr (p, s') \<and> area (fallback s') = area (fallback s) \<and>
    keeps (set (map taken live)) (hmem s) (hmem s') \<and>
    heap_inv ok used (if p = 0 then live else (p, L) # live) fs' s'"
proof (cases "list_index L")
  case None
  then have t: "taken (p, L) = (p, lsize L)" for p by (simp add: taken_def)
  have "fallback_alloc A L s = (p, s') \<Longrightarrow> heap_alloc A L s = Inr (p, s')" for p s'
    using None by (simp add: heap_alloc_def)
  moreover note fallback_alloc_ok [OF inv L L t]
  ultimately show ?thesis using None by (metis option.distinct(1))
next
  case (Some i)
  have i9: "i < 9" using list_indexD(1) [OF Some] .
  have len: "length (list_heads s) = 9" and c: "chain (hmem s) (list_heads s ! i) (fs i)"
    using inv i9 by (simp_all add: heap_inv_def)
  show ?thesis
  proof (cases "fs i")
    case Nil
    let ?L = "\<lparr>lsize = BLOCK_SIZES ! i, lalign = BLOCK_SIZES ! i\<rparr>"
    have t: "taken (p, L) = (p, lsize ?L)" for p by (simp add: taken_def Some)
    have "fallback_alloc A ?L s = (p, s') \<Longrightarrow> heap_alloc A L s = Inr (p, s')" for p s'
      using Some c Nil i9 len by (simp add: heap_alloc_def Let_def block_layout)
    moreover have "lalign ?L = BLOCK_SIZES ! j" if "list_index L = Some j" for j using that Some by simp
    moreover note fallback_alloc_ok [OF inv L block_layout(2) [OF i9] t]
    ultimately show ?thesis using Some by (metis option.distinct(1))
  next
    case (Cons x xs)
    note pop = pop_block [OF inv Some L Cons]
    let ?s = "s\<lparr>list_heads := (list_heads s)[i := hmem s x], hmem := (hmem s)(x := 0)\<rparr>"
    have "heap_alloc A L s = Inr (x, ?s)"
      using Some i9 len pop(3,4) by (simp add: heap_alloc_def Let_def)
    then show ?thesis
      using pop(1,2,4) by (intro exI [of _ x] exI [of _ ?s] exI [of _ "fs(i := xs)"] conjI) simp_all
  qed
qed

lemma heap_dealloc_ok:
  assumes inv: "heap_inv ok used live fs s" and p: "(p, L) \<in> set live"
  shows "\<exists>s' fs'. heap_dealloc A p L s = Inr s' \<and> area (fallback s') = area (fallback s) \<and>
    keeps (set (map taken (remove1 (p, L) live))) (hmem s) (hmem s') \<and>
    heap_inv ok used (remove1 (p, L) live) fs' s'"
proof (cases "list_index L")
  case None
  note I = inv [unfolded heap_inv_def]
  note lu = live_used [OF inv p]
  have t: "taken (p, L) = (p, lsize L)" using None by (simp add: taken_def)
  have d: "ok (fallback s)" "distinct (map taken live)" using I by simp_all
  obtain h m where dl: "ll_deallocate A p L (fallback s) (hmem s) = (h, m)" by force
  note n = deallocate [OF d(1) lu(1) [unfolded t] dl]
  note rm = taken_remove1 [OF d(2) p]
  have u: "used h = set (map taken (remove1 (p, L) live)) \<union> free_blocks fs"
    using n I lu(2) rm(2) t by auto
  have "heap_inv ok used (remove1 (p, L) live) fs (s\<lparr>fallback := h, hmem := m\<rparr>)"
  proof (rule crate_step [OF inv _ u _ rm(1)])
    show "keeps (free_blocks fs) (hmem s) m" using n u by (blast intro: keeps_mono)
    show "set (map taken (remove1 (p, L) live)) \<inter> free_blocks fs = {}" using I rm(2) by auto
    show "\<forall>a\<in>set (remove1 (p, L) live). aligned_alloc a"
      using I set_remove1_subset [of "(p, L)" live] by blast
  qed (use n in blast)
  moreover have "keeps (set (map taken (remove1 (p, L) live))) (hmem s) m" using n u by (blast intro: keeps_mono)
  ultimately show ?thesis using None lu(3) dl n by (auto simp: heap_dealloc_def)
next
  case (Some i)
  have i9: "i < 9" using list_indexD(1) [OF Some] .
  have len: "length (list_heads s) = 9" using inv by (simp add: heap_inv_def)
  let ?s = "s\<lparr>list_heads := (list_heads s)[i := p], hmem := (hmem s)(p := list_heads s ! i)\<rparr>"
  have "heap_dealloc A p L s = Inr ?s"
    using Some i9 len block_layout(3) [OF i9] by (simp add: heap_dealloc_def Let_def)
  then show ?thesis
    using push_block [OF inv p Some] by (intro exI [of _ ?s] exI [of _ "fs(i := p # fs i)"] conjI) simp_all
qed

end

end
