(* ===== verification/Heap_Properties.thy ===== *)
theory Heap_Properties
  imports Heap
begin

text \<open>
  The properties of the kernel heap: what a client gets and keeps in every sequence of
  allocations, deallocations and writes to its own blocks; and a heap with the crate's contract,
  the first-fit search over the regions in use.
\<close>

section \<open>A heap with the contract\<close>

record first_fit =
  ff_start :: nat
  ff_len :: nat
  ff_used :: "(nat \<times> nat) list"

definition apart :: "nat \<times> nat \<Rightarrow> nat \<times> nat \<Rightarrow> bool" where
  "apart r r' \<longleftrightarrow> fst r + snd r \<le> fst r' \<or> fst r' + snd r' \<le> fst r"

definition ff_fits :: "first_fit \<Rightarrow> Layout \<Rightarrow> nat \<Rightarrow> bool" where
  "ff_fits h L p \<longleftrightarrow> p mod lalign L = 0 \<and> ff_start h \<le> p \<and> p + lsize L \<le> ff_start h + ff_len h \<and>
     (\<forall>r\<in>set (ff_used h). apart r (p, lsize L))"

definition ff_candidates :: "first_fit \<Rightarrow> Layout \<Rightarrow> nat list" where
  "ff_candidates h L =
     sort (map (\<lambda>a. (a + lalign L - 1) div lalign L * lalign L) (ff_start h # map (\<lambda>r. fst r + snd r) (ff_used h)))"

definition first_fit_ops :: "first_fit heap_ops" where
  "first_fit_ops = \<lparr>
     ll_init = (\<lambda>start len h m. (\<lparr>ff_start = start, ff_len = len, ff_used = []\<rparr>, m)),
     allocate_first_fit = (\<lambda>L h m. case find (ff_fits h L) (ff_candidates h L) of
         None \<Rightarrow> (None, h, m)
       | Some p \<Rightarrow> (Some p, h\<lparr>ff_used := (p, lsize L) # ff_used h\<rparr>, m)),
     ll_deallocate = (\<lambda>p L h m. (h\<lparr>ff_used := removeAll (p, lsize L) (ff_used h)\<rparr>, m))\<rparr>"

definition ff_ok :: "first_fit \<Rightarrow> bool" where
  "ff_ok h \<longleftrightarrow> 0 < ff_start h \<and>
     (\<forall>r\<in>set (ff_used h). 0 < snd r \<and> ff_start h \<le> fst r \<and> fst r + snd r \<le> ff_start h + ff_len h) \<and>
     (\<forall>r\<in>set (ff_used h). \<forall>r'\<in>set (ff_used h). r = r' \<or> apart r r')"

lemma apart_region: "apart r r' \<Longrightarrow> region r \<inter> region r' = {}"
  by (auto simp: apart_def region_def)

lemma apart_sym: "apart r r' \<longleftrightarrow> apart r' r"
  by (auto simp: apart_def)

lemma ff_okD:
  assumes "ff_ok h"
  shows "0 < ff_start h" "r \<in> set (ff_used h) \<Longrightarrow> 0 < snd r \<and> ff_start h \<le> fst r \<and> fst r + snd r \<le> ff_start h + ff_len h"
    "r \<in> set (ff_used h) \<Longrightarrow> r' \<in> set (ff_used h) \<Longrightarrow> r \<noteq> r' \<Longrightarrow> apart r r'"
  using assms unfolding ff_ok_def by blast+

lemma ff_allocate:
  assumes ok: "ff_ok h" and L: "valid_layout L" and fit: "ff_fits h L p"
  shows "ff_ok (h\<lparr>ff_used := (p, lsize L) # ff_used h\<rparr>)" "(p, lsize L) \<notin> set (ff_used h)"
proof -
  have ap: "apart r (p, lsize L)" if "r \<in> set (ff_used h)" for r using fit that by (simp add: ff_fits_def)
  show "(p, lsize L) \<notin> set (ff_used h)" using ap [of "(p, lsize L)"] L by (auto simp: apart_def valid_layout_def)
  show "ff_ok (h\<lparr>ff_used := (p, lsize L) # ff_used h\<rparr>)"
    unfolding ff_ok_def
  proof (intro conjI ballI)
    fix r assume "r \<in> set (ff_used (h\<lparr>ff_used := (p, lsize L) # ff_used h\<rparr>))"
    then have r: "r = (p, lsize L) \<or> r \<in> set (ff_used h)" by simp
    then show "0 < snd r" "ff_start (h\<lparr>ff_used := (p, lsize L) # ff_used h\<rparr>) \<le> fst r"
      "fst r + snd r \<le> ff_start (h\<lparr>ff_used := (p, lsize L) # ff_used h\<rparr>) + ff_len (h\<lparr>ff_used := (p, lsize L) # ff_used h\<rparr>)"
      using ff_okD(2) [OF ok, of r] fit L by (auto simp: ff_fits_def valid_layout_def)
    fix r' assume "r' \<in> set (ff_used (h\<lparr>ff_used := (p, lsize L) # ff_used h\<rparr>))"
    then have "r' = (p, lsize L) \<or> r' \<in> set (ff_used h)" by simp
    then show "r = r' \<or> apart r r'" using r ap apart_sym ff_okD(3) [OF ok] by metis
  qed (use ff_okD(1) [OF ok] in simp)
qed

interpretation ff: fallback_heap first_fit_ops ff_ok "\<lambda>h. set (ff_used h)" "\<lambda>h. {ff_start h..<ff_start h + ff_len h}"
proof (unfold_locales, goal_cases)
  case (1 h r)
  then show ?case using ff_okD(1) [of h] ff_okD(2) [of h r] by (auto simp: region_def)
next
  case (2 h r r')
  then show ?case using ff_okD(3) [of h r r'] by (intro apart_region) simp
next
  case (3 start len h m h' m')
  then show ?case by (auto simp: first_fit_ops_def ff_ok_def)
next
  case (4 h L m p h' m')
  then have "ff_fits h L p" and h': "h' = h\<lparr>ff_used := (p, lsize L) # ff_used h\<rparr>" "m' = m"
    by (auto simp: first_fit_ops_def find_Some_iff split: option.splits)
  moreover from this have "p mod lalign L = 0" by (simp add: ff_fits_def)
  ultimately show ?case using ff_allocate [OF 4(1,2)] by (simp add: keeps_def)
next
  case (5 h L m h' m')
  then show ?case by (auto simp: first_fit_ops_def keeps_def split: option.splits)
next
  case (6 h p L m h' m')
  then have h': "h' = h\<lparr>ff_used := removeAll (p, lsize L) (ff_used h)\<rparr>" "m' = m" by (auto simp: first_fit_ops_def)
  have "ff_ok h'" using 6(1) unfolding h' ff_ok_def by simp
  then show ?case by (auto simp: h' keeps_def)
qed

section \<open>Runs\<close>

text \<open>
  A client of the heap allocates, frees what it holds, and writes to its own blocks: a quadword
  changes only if one of its bytes lies in a block that is held.
\<close>

inductive heap_run ::
  "'h heap_ops \<Rightarrow> 'h FixedSizeBlockAllocator \<Rightarrow> (nat \<times> Layout) list \<Rightarrow> 'h FixedSizeBlockAllocator \<Rightarrow> bool"
  for A s0 where
  start: "heap_run A s0 [] s0"
| alloc: "heap_run A s0 live s \<Longrightarrow> valid_layout L \<Longrightarrow> heap_alloc A L s = Inr (p, s') \<Longrightarrow> p \<noteq> 0 \<Longrightarrow>
    heap_run A s0 ((p, L) # live) s'"
| exhausted: "heap_run A s0 live s \<Longrightarrow> valid_layout L \<Longrightarrow> heap_alloc A L s = Inr (0, s') \<Longrightarrow> heap_run A s0 live s'"
| free: "heap_run A s0 live s \<Longrightarrow> (p, L) \<in> set live \<Longrightarrow> heap_dealloc A p L s = Inr s' \<Longrightarrow>
    heap_run A s0 (remove1 (p, L) live) s'"
| writes: "heap_run A s0 live s \<Longrightarrow>
    \<forall>a. (\<forall>(p, L)\<in>set live. {a..<a + 8} \<inter> region (p, lsize L) = {}) \<longrightarrow> m a = hmem s a \<Longrightarrow>
    heap_run A s0 live (s\<lparr>hmem := m\<rparr>)"

context fallback_heap
begin

lemma write_keeps:
  assumes inv: "heap_inv ok used live fs s"
    and w: "\<forall>a. (\<forall>(p, L)\<in>set live. {a..<a + 8} \<inter> region (p, lsize L) = {}) \<longrightarrow> m a = hmem s a"
  shows "heap_inv ok used live fs (s\<lparr>hmem := m\<rparr>)"
proof -
  have "m x = hmem s x" if "i < 9" "x \<in> set (fs i)" for i x
  proof -
    have "{x..<x + 8} \<inter> region (p, lsize L) = {}" if p: "(p, L) \<in> set live" for p L
    proof -
      have "region (x, BLOCK_SIZES ! i) \<inter> region (taken (p, L)) = {}"
        using free_used(1,2) [OF inv \<open>i < 9\<close> \<open>x \<in> set (fs i)\<close>] live_used(1,2) [OF inv p] inv
        by (intro used_disjoint) (auto simp: heap_inv_def)
      then show ?thesis using taken_covers [of p L] block_layout(3) [OF \<open>i < 9\<close>] by (auto simp: region_def)
    qed
    then show ?thesis using w by blast
  qed
  then have "chain m (list_heads s ! i) (fs i)" if "i < 9" for i
    using inv that chain_cong [of "fs i" m "hmem s"] by (simp add: heap_inv_def)
  then show ?thesis using inv by (simp add: heap_inv_def)
qed

lemma heap_run_inv:
  assumes "heap_run A s0 live s" "heap_inv ok used [] fs0 s0"
  shows "\<exists>fs. heap_inv ok used live fs s \<and> area (fallback s) = area (fallback s0)"
  using assms(1)
proof (induction rule: heap_run.induct)
  case start
  then show ?case using assms(2) by blast
next
  case (alloc live s L p s')
  then obtain fs where "heap_inv ok used live fs s" "area (fallback s) = area (fallback s0)" by blast
  from heap_alloc_ok [OF this(1) alloc.hyps(2)] this(2) alloc.hyps(3,4) show ?case by auto
next
  case (exhausted live s L s')
  then obtain fs where "heap_inv ok used live fs s" "area (fallback s) = area (fallback s0)" by blast
  from heap_alloc_ok [OF this(1) exhausted.hyps(2)] this(2) exhausted.hyps(3) show ?case by auto
next
  case (free live s p L s')
  then obtain fs where "heap_inv ok used live fs s" "area (fallback s) = area (fallback s0)" by blast
  from heap_dealloc_ok [OF this(1) free.hyps(2)] this(2) free.hyps(3) show ?case by auto
next
  case (writes live s m)
  then obtain fs where "heap_inv ok used live fs s" "area (fallback s) = area (fallback s0)" by blast
  with write_keeps [OF this(1) writes.hyps(2)] show ?case by auto
qed

lemma initial_inv:
  assumes "0 < start" "0 < len"
  shows "heap_inv ok used [] (\<lambda>_. []) (heap_alloc_init A start len (FixedSizeBlockAllocator_new h m))"
    "area (fallback (heap_alloc_init A start len (FixedSizeBlockAllocator_new h m))) = {start..<start + len}"
proof -
  obtain h' m' where "ll_init A start len h m = (h', m')" by force
  then show "heap_inv ok used [] (\<lambda>_. []) (heap_alloc_init A start len (FixedSizeBlockAllocator_new h m))"
    "area (fallback (heap_alloc_init A start len (FixedSizeBlockAllocator_new h m))) = {start..<start + len}"
    using init_ok [OF assms]
    by (auto simp: heap_inv_def heap_alloc_init_def FixedSizeBlockAllocator_new_def free_blocks_def length_BLOCK_SIZES)
qed

end

lemma keeps_held:
  assumes "keeps (set (map taken xs)) m m'"
  shows "keeps ((\<lambda>(p, L). (p, lsize L)) ` set xs) m m'"
  unfolding keeps_def
proof clarsimp
  fix p L a assume x: "(p, L) \<in> set xs" and a: "p \<le> a" "a + 8 \<le> p + lsize L"
  have "lsize L \<le> snd (taken (p, L))" "fst (taken (p, L)) = p"
    using list_indexD(2) [of L] by (auto simp: taken_def split: option.splits)
  then show "m' a = m a" using assms x a unfolding keeps_def by (cases "taken (p, L)") force
qed

text \<open>
  C14. The heap is safe in every run from its initialisation: the blocks that clients hold are
  aligned as asked, lie in the heap and do not overlap, whatever was freed and reused before;
  the next allocation of any valid layout and the return of any held block do not panic, and
  neither changes the contents of the other held blocks.
\<close>

theorem heap_run_safe:
  assumes "fallback_heap A ok used area" "0 < start" "0 < len"
    and "s0 = heap_alloc_init A start len (FixedSizeBlockAllocator_new h m)" "heap_run A s0 live s"
  shows "(\<forall>i<length live. \<forall>j<i. region (fst (live ! i), lsize (snd (live ! i))) \<inter>
        region (fst (live ! j), lsize (snd (live ! j))) = {}) \<and>
    (\<forall>(p, L)\<in>set live. p mod lalign L = 0 \<and> region (p, lsize L) \<subseteq> {start..<start + len}) \<and>
    (\<forall>L. valid_layout L \<longrightarrow> (\<exists>p s'. heap_alloc A L s = Inr (p, s') \<and>
       keeps ((\<lambda>(p, L). (p, lsize L)) ` set live) (hmem s) (hmem s'))) \<and>
    (\<forall>(p, L)\<in>set live. \<exists>s'. heap_dealloc A p L s = Inr s' \<and>
       keeps ((\<lambda>(p, L). (p, lsize L)) ` set (remove1 (p, L) live)) (hmem s) (hmem s'))"
proof -
  note fh = assms(1)
  note init = fallback_heap.initial_inv [OF fh assms(2,3), of h m, folded assms(4)]
  obtain fs where inv: "heap_inv ok used live fs s" and ar: "area (fallback s) = {start..<start + len}"
    using fallback_heap.heap_run_inv [OF fh assms(5) init(1)] init(2) by auto
  have dis: "region (fst (live ! i), lsize (snd (live ! i))) \<inter> region (fst (live ! j), lsize (snd (live ! j))) = {}"
    if "i < length live" "j < i" for i j
    using fallback_heap.live_disjoint [OF fh inv that] by simp
  have al: "p mod lalign L = 0 \<and> region (p, lsize L) \<subseteq> {start..<start + len}" if p: "(p, L) \<in> set live" for p L
    using fallback_heap.live_used(4) [OF fh inv p] ar taken_covers [of p L] inv p
    by (auto simp: heap_inv_def aligned_alloc_def)
  have "\<exists>p s'. heap_alloc A L s = Inr (p, s') \<and> keeps ((\<lambda>(p, L). (p, lsize L)) ` set live) (hmem s) (hmem s')"
    if "valid_layout L" for L
    using fallback_heap.heap_alloc_ok [OF fh inv that] keeps_held by metis
  moreover have "\<exists>s'. heap_dealloc A p L s = Inr s' \<and>
      keeps ((\<lambda>(p, L). (p, lsize L)) ` set (remove1 (p, L) live)) (hmem s) (hmem s')" if "(p, L) \<in> set live" for p L
    using fallback_heap.heap_dealloc_ok [OF fh inv that] keeps_held by metis
  ultimately show ?thesis using dis al by blast
qed

definition sample_heap :: "first_fit FixedSizeBlockAllocator" where
  "sample_heap = heap_alloc_init first_fit_ops HEAP_START HEAP_SIZE
     (FixedSizeBlockAllocator_new \<lparr>ff_start = 1, ff_len = 0, ff_used = []\<rparr> (\<lambda>a. 0))"

lemma sample_heap_alloc:
  "heap_alloc first_fit_ops \<lparr>lsize = 24, lalign = 8\<rparr> sample_heap =
    Inr (HEAP_START, sample_heap\<lparr>fallback := \<lparr>ff_start = HEAP_START, ff_len = HEAP_SIZE, ff_used = [(HEAP_START, 32)]\<rparr>\<rparr>)"
proof -
  have i: "list_index \<lparr>lsize = 24, lalign = 8\<rparr> = Some 2"
    by (simp add: list_index_def BLOCK_SIZES_def numeral_2_eq_2)
  have "BLOCK_SIZES ! 2 = 32" by (simp add: BLOCK_SIZES_def)
  then show ?thesis
    using block_layout(1) [of 2] unfolding heap_alloc_def i
    by (simp add: sample_heap_def heap_alloc_init_def FixedSizeBlockAllocator_new_def length_BLOCK_SIZES first_fit_ops_def
        fallback_alloc_def ff_candidates_def ff_fits_def HEAP_START_def HEAP_SIZE_def)
qed

theorem heap_run_safe_witness:
  "\<exists>s. heap_run first_fit_ops sample_heap [(HEAP_START, \<lparr>lsize = 24, lalign = 8\<rparr>)] s \<and> HEAP_START mod 8 = 0 \<and>
    (\<exists>s'. heap_dealloc first_fit_ops HEAP_START \<lparr>lsize = 24, lalign = 8\<rparr> s = Inr s')"
proof -
  let ?L = "\<lparr>lsize = 24, lalign = 8\<rparr>"
  let ?s = "sample_heap\<lparr>fallback := \<lparr>ff_start = HEAP_START, ff_len = HEAP_SIZE, ff_used = [(HEAP_START, 32)]\<rparr>\<rparr>"
  have "valid_layout ?L" by (auto simp: valid_layout_def intro!: exI [of _ 3])
  moreover have "HEAP_START \<noteq> 0" by (simp add: HEAP_START_def)
  ultimately have r: "heap_run first_fit_ops sample_heap [(HEAP_START, ?L)] ?s"
    using heap_run.alloc [OF heap_run.start _ sample_heap_alloc] by blast
  have h: "0 < HEAP_START" "0 < HEAP_SIZE" by (simp_all add: HEAP_START_def HEAP_SIZE_def)
  show ?thesis
    using r heap_run_safe [OF ff.fallback_heap_axioms h sample_heap_def r] by auto
qed

text \<open>
  A small block that is freed is the next one to be handed out for any layout of its size
  class, without a call of the crate's heap, and the lists are as before.
\<close>

theorem dealloc_alloc_reuses:
  assumes "list_index L = Some i" "list_index K = Some i" "p \<noteq> 0" "length (list_heads s) = 9"
  shows "\<exists>s1 s2. heap_dealloc A p L s = Inr s1 \<and> heap_alloc A K s1 = Inr (p, s2) \<and>
    list_heads s2 = list_heads s \<and> fallback s2 = fallback s \<and> (\<forall>a. a \<noteq> p \<longrightarrow> hmem s2 a = hmem s a)"
  using assms list_indexD(1) [OF assms(1)] block_layout(3) [of i]
  by (simp add: heap_dealloc_def heap_alloc_def Let_def)

theorem dealloc_alloc_reuses_witness:
  "\<exists>s1 s2. heap_dealloc first_fit_ops 0x2000 \<lparr>lsize = 24, lalign = 8\<rparr> sample_heap = Inr s1 \<and>
    heap_alloc first_fit_ops \<lparr>lsize = 20, lalign = 4\<rparr> s1 = Inr (0x2000, s2)"
  using dealloc_alloc_reuses [of "\<lparr>lsize = 24, lalign = 8\<rparr>" 2 "\<lparr>lsize = 20, lalign = 4\<rparr>" "0x2000" sample_heap first_fit_ops]
  by (auto simp: list_index_def BLOCK_SIZES_def numeral_2_eq_2 sample_heap_def heap_alloc_init_def
      FixedSizeBlockAllocator_new_def first_fit_ops_def)

section \<open>Initialisation\<close>

lemma heap_region:
  "hull Size2MiB HEAP_START (HEAP_START + HEAP_SIZE) = (HEAP_START, HEAP_START + HEAP_SIZE)"
  "region_ok Size2MiB HEAP_START (HEAP_START + HEAP_SIZE)"
proof -
  show h: "hull Size2MiB HEAP_START (HEAP_START + HEAP_SIZE) = (HEAP_START, HEAP_START + HEAP_SIZE)"
    by (simp add: hull_def HEAP_START_def HEAP_SIZE_def)
  show "region_ok Size2MiB HEAP_START (HEAP_START + HEAP_SIZE)"
    unfolding region_ok_def h by (simp add: canonical_def HEAP_START_def HEAP_SIZE_def)
qed

lemma heap_init_run:
  assumes "x86_64 X" "bit_array B TOTAL_BUDDY_BITS" "page_mapper B M" "wf_of B (allocator mapall)"
  shows "if has_chunk (bits B (buddy_bytes (allocator mapall))) 12
    then \<exists>f ma. heap_init X B M A mapall self = Inr (ma, heap_alloc_init A HEAP_START HEAP_SIZE self) \<and>
      wf_of B (allocator ma) \<and> {f..<f + 4096} \<subseteq> free_of B (allocator mapall) \<and> 512 dvd f \<and>
      free_of B (allocator ma) \<subseteq> free_of B (allocator mapall) - {f..<f + 4096} \<and>
      mapped_run 0x200000 HEAP_FLAGS HEAP_START (f * PAGE_SIZE) {0..<8} (page_of M (mapper mapall)) (page_of M (mapper ma))
    else heap_init X B M A mapall self = Inl UnwrapFailed"
proof -
  have n: "4096 = (HEAP_START + HEAP_SIZE - HEAP_START) div PAGE_SIZE" by (simp add: HEAP_SIZE_def PAGE_SIZE_def)
  have k: "(HEAP_START + HEAP_SIZE - HEAP_START) div size_of Size2MiB = 8" by (simp add: HEAP_SIZE_def)
  have e: "va_add X HEAP_START HEAP_SIZE = Inr (HEAP_START + HEAP_SIZE)"
    by (rule x86_64.va_add [OF assms(1)]) (simp_all add: canonical_def HEAP_START_def HEAP_SIZE_def)
  obtain t r ma where r: "page_region X B M Size2MiB mapall HEAP_START (HEAP_START + HEAP_SIZE) HEAP_FLAGS = Inr (r, ma)"
    "wf_of B (allocator ma)" "(4096::nat) \<le> 2 ^ t" "2 ^ t < 2 * (4096::nat)"
    "r = Inr () \<longleftrightarrow> has_chunk (bits B (buddy_bytes (allocator mapall))) t"
    and m: "case r of Inl _ \<Rightarrow> ma = mapall
     | Inr _ \<Rightarrow> \<exists>f. {f..<f + 4096} \<subseteq> free_of B (allocator mapall) \<and> size_of Size2MiB dvd f * PAGE_SIZE \<and>
         free_of B (allocator ma) \<subseteq> free_of B (allocator mapall) - {f..<f + 4096} \<and>
         mapped_run (size_of Size2MiB) HEAP_FLAGS HEAP_START (f * PAGE_SIZE) {0..<8} (page_of M (mapper mapall)) (page_of M (mapper ma))"
    using region_env.page_region_result [OF region_envI [OF assms(1-3)] assms(4) heap_region(2,1) n, of HEAP_FLAGS]
    unfolding k by blast
  have "(2::nat) ^ 12 \<le> 2 ^ t" "2 ^ t < (2::nat) ^ 13" using r(3,4) by simp_all
  then have t: "t = 12" by (simp only: power_increasing_iff power_strict_increasing_iff)
  show ?thesis
  proof (cases r)
    case (Inl u)
    then show ?thesis using r(1,5) e by (simp add: heap_init_def t)
  next
    case (Inr u)
    have dv: "512 dvd f" if "size_of Size2MiB dvd f * PAGE_SIZE" for f
      using that dvd_times_right_cancel_iff [of 4096 512 f] by (simp add: PAGE_SIZE_def)
    show ?thesis using r(1,2,5) e m Inr dv by (auto simp: heap_init_def t)
  qed
qed

text \<open>
  The heap comes up exactly when 16 MiB of physical memory are free as one aligned run:
  then its pages are mapped to that run and its allocator manages the whole range. Otherwise
  the kernel panics, however much memory is free in smaller runs.
\<close>

theorem heap_init_correct:
  assumes "x86_64 X" "bit_array B TOTAL_BUDDY_BITS" "page_mapper B M" "wf_of B (allocator mapall)"
  shows "if has_chunk (bits B (buddy_bytes (allocator mapall))) 12
    then \<exists>f ma. heap_init X B M A mapall self = Inr (ma, heap_alloc_init A HEAP_START HEAP_SIZE self) \<and>
      wf_of B (allocator ma) \<and> {f..<f + 4096} \<subseteq> free_of B (allocator mapall) \<and> 512 dvd f \<and>
      free_of B (allocator ma) \<subseteq> free_of B (allocator mapall) - {f..<f + 4096} \<and>
      mapped_run 0x200000 HEAP_FLAGS HEAP_START (f * PAGE_SIZE) {0..<8} (page_of M (mapper mapall)) (page_of M (mapper ma))
    else heap_init X B M A mapall self = Inl UnwrapFailed"
  using heap_init_run [OF assms] .

text \<open>The array with the one free chunk of frames 0 to 4095.\<close>

definition level12_free :: "nat set RuneFrameAllocator" where
  "level12_free = \<lparr>buddy_bytes = {level_start 12 + 0}\<rparr>"

lemma level12_free_facts:
  "has_chunk (bits bitset (buddy_bytes level12_free)) 12" "wf_of bitset level12_free"
  "free_of bitset level12_free = {0..<4096}"
proof -
  have b: "bits bitset (buddy_bytes level12_free) = {level_start 12}"
    using level_bit_total [of 12 0] by (simp add: level12_free_def bits_bitset) auto
  show "wf_of bitset level12_free" "free_of bitset level12_free = {0..<4096}"
    using buddy_wf_chunk [of 12 0] free_frames_chunk [of 12 0] unfolding b
    by (simp_all add: chunk_interval)
  show "has_chunk (bits bitset (buddy_bytes level12_free)) 12"
    unfolding has_chunk_def b by (rule exI [of _ 12], rule exI [of _ 0]) simp
qed

theorem heap_init_correct_witness:
  "\<exists>ma. heap_init x86_doc bitset (doc_mapper x86_doc bitset) first_fit_ops
      \<lparr>mapper = no_pages, allocator = level12_free\<rparr> sample_heap =
    Inr (ma, heap_alloc_init first_fit_ops HEAP_START HEAP_SIZE sample_heap)"
proof -
  let ?ma = "\<lparr>mapper = no_pages, allocator = level12_free\<rparr>"
  have "wf_of bitset (allocator ?ma)" "has_chunk (bits bitset (buddy_bytes (allocator ?ma))) 12"
    using level12_free_facts by simp_all
  then show ?thesis
    using heap_init_correct [OF x86d.x86_64_axioms bset.bit_array_axioms docm.page_mapper_axioms, of ?ma first_fit_ops sample_heap]
    by auto
qed

end
