(* ===== verification/Heap_List.thy ===== *)
theory Heap_List
  imports Heap
begin

text \<open>
  The linked-list allocator of \<^verbatim>\<open>heap/ll.rs\<close>, which the kernel does not use yet: a list of free
  regions, each with its size and the next region in its first two quadwords. \<open>find_region\<close> walks
  the list; on a list with a cycle it does not end, so it is a partial function.
\<close>

section \<open>The code\<close>

definition size_of_ListNode :: nat where "size_of_ListNode = 16"
definition align_of_ListNode :: nat where "align_of_ListNode = 8"

record LinkedListAllocator =
  head_next :: nat
  lmem :: memory

definition LinkedListAllocator_new :: "memory \<Rightarrow> LinkedListAllocator" where
  "LinkedListAllocator_new m = \<lparr>head_next = 0, lmem = m\<rparr>"

text \<open>The size and the next region of a node; the node is its start address.\<close>

definition node_size :: "memory \<Rightarrow> nat \<Rightarrow> nat" where "node_size m r = m r"
definition node_next :: "memory \<Rightarrow> nat \<Rightarrow> nat" where "node_next m r = m (r + 8)"

definition start_addr :: "x86_ops \<Rightarrow> nat \<Rightarrow> nat res" where
  "start_addr X r = va_new X r"

definition end_addr :: "x86_ops \<Rightarrow> memory \<Rightarrow> nat \<Rightarrow> nat res" where
  "end_addr X m r = bindR (start_addr X r) (\<lambda>a. va_add X a (node_size m r))"

definition add_free_region :: "x86_ops \<Rightarrow> nat \<Rightarrow> nat \<Rightarrow> LinkedListAllocator \<Rightarrow> LinkedListAllocator res" where
  "add_free_region X addr sz self =
     bindR (align_up_u64 X addr align_of_ListNode) (\<lambda>aligned.
     bindR (assertR (aligned = addr)) (\<lambda>_.
     bindR (assertR (size_of_ListNode \<le> sz)) (\<lambda>_.
     Inr (self\<lparr>head_next := addr, lmem := (lmem self)(addr := sz, addr + 8 := head_next self)\<rparr>))))"

definition ll_heap_init :: "x86_ops \<Rightarrow> nat \<Rightarrow> nat \<Rightarrow> LinkedListAllocator \<Rightarrow> LinkedListAllocator res" where
  "ll_heap_init X heap_start heap_size self = add_free_region X heap_start heap_size self"

definition alloc_from_region :: "x86_ops \<Rightarrow> memory \<Rightarrow> nat \<Rightarrow> nat \<Rightarrow> nat \<Rightarrow> nat option res" where
  "alloc_from_region X m r sz align =
     bindR (start_addr X r) (\<lambda>start.
     bindR (align_up_u64 X start align) (\<lambda>alloc_start.
     if 2 ^ 64 \<le> alloc_start + sz then Inr None
     else
       let alloc_end = alloc_start + sz in
       bindR (end_addr X m r) (\<lambda>region_end.
       if region_end < alloc_end then Inr None
       else
         bindR (usub region_end alloc_end) (\<lambda>excess.
         if 0 < excess \<and> excess < size_of_ListNode then Inr None
         else bindR (va_new X alloc_start) (\<lambda>a. Inr (Some a))))))"

text \<open>
  The loop of \<open>find_region\<close>: \<open>prev\<close> is the node whose \<open>next\<close> is looked at, 0 for the head. A region
  that fits is unlinked, and its own \<open>next\<close> is cleared.
\<close>

definition next_of :: "LinkedListAllocator \<Rightarrow> nat \<Rightarrow> nat" where
  "next_of self prev = (if prev = 0 then head_next self else node_next (lmem self) prev)"

definition unlink :: "LinkedListAllocator \<Rightarrow> nat \<Rightarrow> nat \<Rightarrow> LinkedListAllocator" where
  "unlink self prev r =
     (let nxt = node_next (lmem self) r; m = (lmem self)(r + 8 := 0) in
      if prev = 0 then self\<lparr>head_next := nxt, lmem := m\<rparr>
      else self\<lparr>lmem := m(prev + 8 := nxt)\<rparr>)"

partial_function (option) find_from ::
  "x86_ops \<Rightarrow> nat \<Rightarrow> nat \<Rightarrow> LinkedListAllocator \<Rightarrow> nat \<Rightarrow> ((nat \<times> nat) option \<times> LinkedListAllocator) res option" where
  "find_from X sz align self prev =
     (let r = next_of self prev in
      if r = 0 then Some (Inr (None, self))
      else case alloc_from_region X (lmem self) r sz align of
          Inl e \<Rightarrow> Some (Inl e)
        | Inr (Some alloc_start) \<Rightarrow> Some (Inr (Some (r, alloc_start), unlink self prev r))
        | Inr None \<Rightarrow> find_from X sz align self r)"

definition find_region ::
  "x86_ops \<Rightarrow> nat \<Rightarrow> nat \<Rightarrow> LinkedListAllocator \<Rightarrow> ((nat \<times> nat) option \<times> LinkedListAllocator) res option" where
  "find_region X sz align self = find_from X sz align self 0"

section \<open>The search\<close>

lemma align_up_bounds:
  fixes a b :: nat
  assumes "0 < b"
  shows "a \<le> (a + b - 1) div b * b" "(a + b - 1) div b * b < a + b" "(a + b - 1) div b * b mod b = 0"
proof -
  have "(a + b - 1) div b * b + (a + b - 1) mod b = a + b - 1" by simp
  moreover have "(a + b - 1) mod b < b" using assms by simp
  ultimately show "a \<le> (a + b - 1) div b * b" "(a + b - 1) div b * b < a + b" using assms by linarith+
qed simp

text \<open>Where a request would be placed in a region, and whether it fits.\<close>

definition placed :: "nat \<Rightarrow> nat \<Rightarrow> nat" where
  "placed r align = (r + align - 1) div align * align"

definition fits_region :: "memory \<Rightarrow> nat \<Rightarrow> nat \<Rightarrow> nat \<Rightarrow> bool" where
  "fits_region m sz align r \<longleftrightarrow> placed r align + sz \<le> r + node_size m r \<and>
     (placed r align + sz = r + node_size m r \<or> placed r align + sz + size_of_ListNode \<le> r + node_size m r)"

lemma alloc_from_region_spec:
  assumes "x86_64 X" "r + node_size m r < 2 ^ 47" "k < 47"
  shows "alloc_from_region X m r sz (2 ^ k) =
    Inr (if fits_region m sz (2 ^ k) r then Some (placed r (2 ^ k)) else None)"
proof -
  have r: "canonical r" "canonical (r + node_size m r)" "start_addr X r = Inr r"
    using assms(2) by (simp_all add: canonical_def start_addr_def x86_64.va_new [OF assms(1)])
  then have e: "end_addr X m r = Inr (r + node_size m r)"
    by (simp add: end_addr_def x86_64.va_add [OF assms(1)])
  have "(2::nat) ^ k \<le> 2 ^ 47" using assms(3) by (intro power_increasing) simp_all
  then have p: "placed r (2 ^ k) < 2 ^ 48" using align_up_bounds(2) [of "2 ^ k" r] assms(2) by (simp add: placed_def)
  have a: "align_up_u64 X r (2 ^ k) = Inr (placed r (2 ^ k))"
    using p by (simp add: x86_64.align_up_u64 [OF assms(1)] placed_def)
  have "canonical (placed r (2 ^ k))" if "placed r (2 ^ k) + sz \<le> r + node_size m r"
    using that assms(2) by (intro canonical_low) simp
  then show ?thesis
    using r e a assms(2)
    by (auto simp: alloc_from_region_def fits_region_def Let_def x86_64.va_new [OF assms(1)] size_of_ListNode_def)
qed

text \<open>The nodes \<open>xs\<close> lead from \<open>p\<close> to \<open>q\<close>.\<close>

fun node_path :: "memory \<Rightarrow> nat \<Rightarrow> nat list \<Rightarrow> nat \<Rightarrow> bool" where
  "node_path m p [] q \<longleftrightarrow> p = q"
| "node_path m p (x # xs) q \<longleftrightarrow> p = x \<and> x \<noteq> 0 \<and> node_path m (node_next m x) xs q"

lemma node_path_append: "node_path m p (xs @ ys) q \<longleftrightarrow> (\<exists>r. node_path m p xs r \<and> node_path m r ys q)"
  by (induction xs arbitrary: p) auto

lemma node_path_upd [simp]: "a \<notin> set xs \<Longrightarrow> node_path (m(a + 8 := v)) p xs q \<longleftrightarrow> node_path m p xs q"
  by (induction xs arbitrary: p) (auto simp: node_next_def)

lemma unlink_path:
  assumes "node_path (lmem self) (head_next self) (ys @ r # zs) 0" "distinct (ys @ r # zs)"
    and "prev = (if ys = [] then 0 else last ys)"
  shows "node_path (lmem (unlink self prev r)) (head_next (unlink self prev r)) (ys @ zs) 0"
proof (cases ys rule: rev_cases)
  case Nil
  then show ?thesis using assms by (simp add: unlink_def Let_def)
next
  case (snoc ws w)
  have "node_path (lmem self) (head_next self) ws w" "node_path (lmem self) (node_next (lmem self) r) zs 0" "w \<noteq> 0"
    using assms(1) unfolding snoc by (auto simp: node_path_append)
  moreover have "w \<notin> set ws" "r \<notin> set ws" "w \<notin> set zs" "r \<notin> set zs" "w \<noteq> r" using assms(2) unfolding snoc by auto
  moreover have "unlink self prev r = self\<lparr>lmem := (lmem self)(r + 8 := 0, w + 8 := node_next (lmem self) r)\<rparr>"
    using assms(3) \<open>w \<noteq> 0\<close> by (simp add: unlink_def Let_def snoc)
  ultimately show ?thesis unfolding snoc by (auto simp: node_path_append node_next_def)
qed

lemma find_from_spec:
  assumes "x86_64 X" "k < 47" "\<forall>r\<in>set zs. r + node_size (lmem self) r < 2 ^ 47"
    and "node_path (lmem self) (next_of self prev) zs 0"
  shows "case find (fits_region (lmem self) sz (2 ^ k)) zs of
      None \<Rightarrow> find_from X sz (2 ^ k) self prev = Some (Inr (None, self))
    | Some r \<Rightarrow> \<exists>us vs. zs = us @ r # vs \<and>
        find_from X sz (2 ^ k) self prev =
          Some (Inr (Some (r, placed r (2 ^ k)), unlink self (if us = [] then prev else last us) r))"
  using assms(3,4)
proof (induction zs arbitrary: prev)
  case Nil
  then show ?case by (simp add: find_from.simps)
next
  case (Cons z zs)
  then have z: "next_of self prev = z" "z \<noteq> 0" "z + node_size (lmem self) z < 2 ^ 47"
    and path: "node_path (lmem self) (next_of self z) zs 0" by (simp_all add: next_of_def)
  note a = alloc_from_region_spec [OF assms(1) z(3) assms(2), of sz]
  show ?case
  proof (cases "fits_region (lmem self) sz (2 ^ k) z")
    case True
    then show ?thesis using z a by (subst find_from.simps) (auto simp: Let_def intro!: exI [of _ "[]"])
  next
    case False
    then have step: "find_from X sz (2 ^ k) self prev = find_from X sz (2 ^ k) self z"
      using z a by (subst find_from.simps) (simp add: Let_def)
    show ?thesis
    proof (cases "find (fits_region (lmem self) sz (2 ^ k)) zs")
      case None
      then show ?thesis using Cons.IH [OF _ path] Cons.prems(1) False step by simp
    next
      case (Some r)
      then obtain us vs where "zs = us @ r # vs" "find_from X sz (2 ^ k) self z =
          Some (Inr (Some (r, placed r (2 ^ k)), unlink self (if us = [] then z else last us) r))"
        using Cons.IH [OF _ path] Cons.prems(1) by auto
      then have "z # zs = (z # us) @ r # vs \<and> find_from X sz (2 ^ k) self prev =
          Some (Inr (Some (r, placed r (2 ^ k)), unlink self (if z # us = [] then prev else last (z # us)) r))"
        using step by simp
      moreover have "find (fits_region (lmem self) sz (2 ^ k)) (z # zs) = Some r" using Some False by simp
      ultimately show ?thesis by (simp only: option.case) blast
    qed
  qed
qed

text \<open>
  The search for a free region ends on every list without a cycle and is first fit: it
  returns the first region in which the request fits, with the lowest aligned address in it and
  either nothing or room for another node left behind it, and takes exactly this region off the
  list; when no region fits it returns nothing and changes nothing.
\<close>

theorem find_region_first_fit:
  assumes "x86_64 X" "k < 47" "\<forall>r\<in>set xs. r + node_size (lmem self) r < 2 ^ 47"
    and "node_path (lmem self) (head_next self) xs 0" "distinct xs"
  shows "case find (fits_region (lmem self) sz (2 ^ k)) xs of
      None \<Rightarrow> find_region X sz (2 ^ k) self = Some (Inr (None, self))
    | Some r \<Rightarrow> \<exists>a self'. find_region X sz (2 ^ k) self = Some (Inr (Some (r, a), self')) \<and>
        a mod 2 ^ k = 0 \<and> r \<le> a \<and> a < r + 2 ^ k \<and>
        (a + sz = r + node_size (lmem self) r \<or> a + sz + size_of_ListNode \<le> r + node_size (lmem self) r) \<and>
        node_path (lmem self') (head_next self') (remove1 r xs) 0"
proof -
  have n0: "next_of self 0 = head_next self" by (simp add: next_of_def)
  note spec = find_from_spec [OF assms(1-3), of 0 sz, unfolded n0, OF assms(4), folded find_region_def]
  show ?thesis
  proof (cases "find (fits_region (lmem self) sz (2 ^ k)) xs")
    case None
    then show ?thesis using spec by simp
  next
    case (Some r)
    then obtain us vs where xs: "xs = us @ r # vs" and f: "find_region X sz (2 ^ k) self =
        Some (Inr (Some (r, placed r (2 ^ k)), unlink self (if us = [] then 0 else last us) r))"
      using spec by auto
    have "fits_region (lmem self) sz (2 ^ k) r" using Some by (auto simp: find_Some_iff)
    moreover have "remove1 r xs = us @ vs" using assms(5) by (simp add: xs remove1_append)
    moreover note unlink_path [OF assms(4) [unfolded xs] assms(5) [unfolded xs] refl]
    ultimately show ?thesis
      using Some f align_up_bounds [of "2 ^ k" r] by (simp add: fits_region_def placed_def)
  qed
qed

definition sample_regions :: LinkedListAllocator where
  "sample_regions = \<lparr>head_next = 0x1000,
     lmem = (\<lambda>a. 0)(0x1000 := 32, 0x1008 := 0x2000, 0x2000 := 256, 0x2008 := 0x3000, 0x3000 := 64)\<rparr>"

theorem find_region_first_fit_witness:
  "\<exists>self'. find_region x86_doc 100 64 sample_regions = Some (Inr (Some (0x2000, 0x2000), self')) \<and>
    node_path (lmem self') (head_next self') [0x1000, 0x3000] 0"
proof -
  have ev: "find (fits_region (lmem sample_regions) 100 (2 ^ 6)) [0x1000, 0x2000, 0x3000] = Some 0x2000"
    by (simp add: fits_region_def placed_def node_size_def sample_regions_def size_of_ListNode_def)
  have "\<forall>r\<in>set [0x1000, 0x2000, 0x3000]. r + node_size (lmem sample_regions) r < 2 ^ 47"
    "node_path (lmem sample_regions) (head_next sample_regions) [0x1000, 0x2000, 0x3000] 0"
    by (simp_all add: node_size_def node_next_def sample_regions_def)
  from find_region_first_fit [OF x86d.x86_64_axioms _ this, of 6 100] ev
  obtain a self' where r: "find_region x86_doc 100 64 sample_regions = Some (Inr (Some (0x2000, a), self'))"
    "a mod 64 = 0" "0x2000 \<le> a" "a < 0x2000 + 64" "node_path (lmem self') (head_next self') [0x1000, 0x3000] 0"
    by auto
  then have "a = 0x2000" by presburger
  with r show ?thesis by auto
qed

end
