(* ===== verification/Uacpi.thy ===== *)
theory Uacpi
  imports Heap_Properties Timers
begin

text \<open>
  The callbacks that the kernel gives to the uACPI library (\<^verbatim>\<open>uacpi.rs\<close>), with the functions of
  \<^verbatim>\<open>sys.rs\<close> they call. A value that a callback writes through a pointer argument is returned,
  \<open>None\<close> where the callback returns without writing it. A write through a null pointer is
  \<open>NullDeref\<close>, the check of a build with debug assertions. The
  library itself is not part of the repository.

  A mutex, a spinlock and an event are atomic cells behind a handle, the address of a box of the
  kernel heap; a handle that was freed has no value, and its use is \<open>UninitUse\<close>.
\<close>

section \<open>The code\<close>

datatype uacpi_status = UACPI_STATUS_OK | UACPI_STATUS_INVALID_ARGUMENT

datatype port_write = Out8 u16 u8 | Out16 u16 u16 | Out32 u16 u32

text \<open>What a read of a port returns.\<close>

record io_ports =
  in8 :: "u16 \<Rightarrow> u8"
  in16 :: "u16 \<Rightarrow> u16"
  in32 :: "u16 \<Rightarrow> u32"

record 'h host =
  global_alloc :: "'h FixedSizeBlockAllocator"
  bools :: "nat \<Rightarrow> bool option"
  counts :: "nat \<Rightarrow> u16 option"
  host_rflags :: u64
  io_writes :: "port_write list"

definition sys_sleep_local_us ::
  "irq list \<Rightarrow> (irq list \<times> irq) list \<Rightarrow> u32 \<Rightarrow> clock_state \<Rightarrow> clock_state option res" where
  "sys_sleep_local_us late turns us s = sleep_local_us late turns us s"

definition sys_get_ns :: "u64 bitfield_ops \<Rightarrow> hpet_regs \<Rightarrow> u64 res" where
  "sys_get_ns P h = get_ns P h"

text \<open>\<open>Box::new\<close>, which ends in the allocation error handler when the heap is exhausted, and dropping a box.\<close>

definition box_new :: "'h heap_ops \<Rightarrow> Layout \<Rightarrow> 'h host \<Rightarrow> (nat \<times> 'h host) res" where
  "box_new A L s =
     bindR (heap_alloc A L (global_alloc s)) (\<lambda>(p, h).
     if p = 0 then Inl ExplicitPanic else Inr (p, s\<lparr>global_alloc := h\<rparr>))"

definition box_drop :: "'h heap_ops \<Rightarrow> nat \<Rightarrow> Layout \<Rightarrow> 'h host \<Rightarrow> 'h host res" where
  "box_drop A p L s =
     bindR (heap_dealloc A p L (global_alloc s)) (\<lambda>h. Inr (s\<lparr>global_alloc := h\<rparr>))"

definition deref :: "(nat \<Rightarrow> 'a option) \<Rightarrow> nat \<Rightarrow> 'a res" where
  "deref m h = (case m h of None \<Rightarrow> Inl UninitUse | Some v \<Rightarrow> Inr v)"

definition uacpi_kernel_get_rsdp :: "vmem_addrs \<Rightarrow> (uacpi_status \<times> nat) res" where
  "uacpi_kernel_get_rsdp V = Inr (UACPI_STATUS_OK, RSDP_ADDR V)"

definition uacpi_kernel_map :: "nat \<Rightarrow> nat \<Rightarrow> nat \<Rightarrow> nat res" where
  "uacpi_kernel_map hhdm_offset addr len = uadd addr hhdm_offset"

definition uacpi_kernel_unmap :: "nat \<Rightarrow> nat \<Rightarrow> 'h host \<Rightarrow> 'h host" where
  "uacpi_kernel_unmap addr len s = s"

datatype uacpi_log_level = UACPI_LOG_DEBUG | UACPI_LOG_ERROR | UACPI_LOG_INFO | UACPI_LOG_TRACE
  | UACPI_LOG_WARN | Unknown_level

text \<open>The line that is printed.\<close>

definition uacpi_kernel_log :: "uacpi_log_level \<Rightarrow> string \<Rightarrow> string" where
  "uacpi_kernel_log arg1 arg2 =
     ''['' @ (case arg1 of UACPI_LOG_DEBUG \<Rightarrow> ''DEBUG'' | UACPI_LOG_ERROR \<Rightarrow> ''ERROR'' | UACPI_LOG_INFO \<Rightarrow> ''INFO''
       | UACPI_LOG_TRACE \<Rightarrow> ''TRACE'' | UACPI_LOG_WARN \<Rightarrow> ''WARN'' | Unknown_level \<Rightarrow> ''???'') @ ''] '' @ arg2"

definition uacpi_kernel_pci_device_open :: "nat \<Rightarrow> (uacpi_status \<times> nat) res" where
  "uacpi_kernel_pci_device_open address = Inl Unimplemented"

definition uacpi_kernel_pci_device_close :: "nat \<Rightarrow> unit res" where
  "uacpi_kernel_pci_device_close arg1 = Inl Unimplemented"

definition uacpi_kernel_pci_read8 :: "nat \<Rightarrow> nat \<Rightarrow> (uacpi_status \<times> u8) res" where
  "uacpi_kernel_pci_read8 device offset = Inl Unimplemented"

definition uacpi_kernel_pci_read16 :: "nat \<Rightarrow> nat \<Rightarrow> (uacpi_status \<times> u16) res" where
  "uacpi_kernel_pci_read16 device offset = Inl Unimplemented"

definition uacpi_kernel_pci_read32 :: "nat \<Rightarrow> nat \<Rightarrow> (uacpi_status \<times> u32) res" where
  "uacpi_kernel_pci_read32 device offset = Inl Unimplemented"

definition uacpi_kernel_pci_write8 :: "nat \<Rightarrow> nat \<Rightarrow> u8 \<Rightarrow> uacpi_status res" where
  "uacpi_kernel_pci_write8 device offset v = Inl Unimplemented"

definition uacpi_kernel_pci_write16 :: "nat \<Rightarrow> nat \<Rightarrow> u16 \<Rightarrow> uacpi_status res" where
  "uacpi_kernel_pci_write16 device offset v = Inl Unimplemented"

definition uacpi_kernel_pci_write32 :: "nat \<Rightarrow> nat \<Rightarrow> u32 \<Rightarrow> uacpi_status res" where
  "uacpi_kernel_pci_write32 device offset v = Inl Unimplemented"

definition uacpi_kernel_io_map :: "nat \<Rightarrow> nat \<Rightarrow> (uacpi_status \<times> nat) res" where
  "uacpi_kernel_io_map base len = Inr (UACPI_STATUS_OK, base)"

definition uacpi_kernel_io_unmap :: "nat \<Rightarrow> 'h host \<Rightarrow> 'h host" where
  "uacpi_kernel_io_unmap handle s = s"

definition uacpi_kernel_io_read8 :: "io_ports \<Rightarrow> nat \<Rightarrow> nat \<Rightarrow> (uacpi_status \<times> u8 option) res" where
  "uacpi_kernel_io_read8 io arg1 offset =
     bindR (uadd arg1 offset) (\<lambda>port_num.
     if port_num > 0xffff then Inr (UACPI_STATUS_INVALID_ARGUMENT, None)
     else Inr (UACPI_STATUS_OK, Some (in8 io (of_nat port_num))))"

definition uacpi_kernel_io_read16 :: "io_ports \<Rightarrow> nat \<Rightarrow> nat \<Rightarrow> (uacpi_status \<times> u16 option) res" where
  "uacpi_kernel_io_read16 io arg1 offset =
     bindR (uadd arg1 offset) (\<lambda>port_num.
     if port_num > 0xffff then Inr (UACPI_STATUS_INVALID_ARGUMENT, None)
     else Inr (UACPI_STATUS_OK, Some (in16 io (of_nat port_num))))"

definition uacpi_kernel_io_read32 :: "io_ports \<Rightarrow> nat \<Rightarrow> nat \<Rightarrow> (uacpi_status \<times> u32 option) res" where
  "uacpi_kernel_io_read32 io arg1 offset =
     bindR (uadd arg1 offset) (\<lambda>port_num.
     if port_num > 0xffff then Inr (UACPI_STATUS_INVALID_ARGUMENT, None)
     else Inr (UACPI_STATUS_OK, Some (in32 io (of_nat port_num))))"

definition uacpi_kernel_io_write8 :: "nat \<Rightarrow> nat \<Rightarrow> u8 \<Rightarrow> 'h host \<Rightarrow> (uacpi_status \<times> 'h host) res" where
  "uacpi_kernel_io_write8 arg1 offset in_value s =
     bindR (uadd arg1 offset) (\<lambda>port_num.
     if port_num > 0xffff then Inr (UACPI_STATUS_INVALID_ARGUMENT, s)
     else Inr (UACPI_STATUS_OK, s\<lparr>io_writes := io_writes s @ [Out8 (of_nat port_num) in_value]\<rparr>))"

definition uacpi_kernel_io_write16 :: "nat \<Rightarrow> nat \<Rightarrow> u16 \<Rightarrow> 'h host \<Rightarrow> (uacpi_status \<times> 'h host) res" where
  "uacpi_kernel_io_write16 arg1 offset in_value s =
     bindR (uadd arg1 offset) (\<lambda>port_num.
     if port_num > 0xffff then Inr (UACPI_STATUS_INVALID_ARGUMENT, s)
     else Inr (UACPI_STATUS_OK, s\<lparr>io_writes := io_writes s @ [Out16 (of_nat port_num) in_value]\<rparr>))"

definition uacpi_kernel_io_write32 :: "nat \<Rightarrow> nat \<Rightarrow> u32 \<Rightarrow> 'h host \<Rightarrow> (uacpi_status \<times> 'h host) res" where
  "uacpi_kernel_io_write32 arg1 offset in_value s =
     bindR (uadd arg1 offset) (\<lambda>port_num.
     if port_num > 0xffff then Inr (UACPI_STATUS_INVALID_ARGUMENT, s)
     else Inr (UACPI_STATUS_OK, s\<lparr>io_writes := io_writes s @ [Out32 (of_nat port_num) in_value]\<rparr>))"

text \<open>\<open>Layout::from_size_align_unchecked\<close>, whose precondition a build with debug assertions checks.\<close>

definition from_size_align_unchecked :: "nat \<Rightarrow> nat \<Rightarrow> Layout res" where
  "from_size_align_unchecked sz align =
     (case from_size_align sz align of None \<Rightarrow> Inl LibPanic | Some L \<Rightarrow> Inr L)"

definition uacpi_kernel_alloc :: "'h heap_ops \<Rightarrow> nat \<Rightarrow> 'h host \<Rightarrow> (nat \<times> 'h host) res" where
  "uacpi_kernel_alloc A sz s =
     bindR (uadd sz 8) (\<lambda>total.
     bindR (from_size_align_unchecked total 8) (\<lambda>L.
     bindR (heap_alloc A L (global_alloc s)) (\<lambda>(ptr, h).
     if ptr = 0 then Inl NullDeref
     else Inr (ptr + 8, s\<lparr>global_alloc := h\<lparr>hmem := (hmem h)(ptr := sz)\<rparr>\<rparr>))))"

definition uacpi_kernel_free :: "'h heap_ops \<Rightarrow> nat \<Rightarrow> 'h host \<Rightarrow> 'h host res" where
  "uacpi_kernel_free A p s =
     bindR (usub p 8) (\<lambda>ptr.
     let sz = hmem (global_alloc s) ptr in
     bindR (uadd sz 8) (\<lambda>total.
     bindR (from_size_align_unchecked total 8) (\<lambda>L.
     bindR (heap_dealloc A ptr L (global_alloc s)) (\<lambda>h.
     Inr (s\<lparr>global_alloc := h\<rparr>)))))"

definition uacpi_kernel_get_nanoseconds_since_boot :: "u64 bitfield_ops \<Rightarrow> hpet_regs \<Rightarrow> u64 res" where
  "uacpi_kernel_get_nanoseconds_since_boot P h = sys_get_ns P h"

definition uacpi_kernel_stall ::
  "irq list \<Rightarrow> (irq list \<times> irq) list \<Rightarrow> u8 \<Rightarrow> clock_state \<Rightarrow> clock_state option res" where
  "uacpi_kernel_stall late turns usec s = sys_sleep_local_us late turns (ucast usec) s"

definition uacpi_kernel_sleep :: "u64 \<Rightarrow> unit res" where
  "uacpi_kernel_sleep msec = Inl Unimplemented"

definition bool_layout :: Layout where "bool_layout = \<lparr>lsize = 1, lalign = 1\<rparr>"
definition u16_layout :: Layout where "u16_layout = \<lparr>lsize = 2, lalign = 2\<rparr>"

definition uacpi_kernel_create_mutex :: "'h heap_ops \<Rightarrow> 'h host \<Rightarrow> (nat \<times> 'h host) res" where
  "uacpi_kernel_create_mutex A s =
     bindR (box_new A bool_layout s) (\<lambda>(p, s1). Inr (p, s1\<lparr>bools := (bools s1)(p \<mapsto> False)\<rparr>))"

definition uacpi_kernel_free_mutex :: "'h heap_ops \<Rightarrow> nat \<Rightarrow> 'h host \<Rightarrow> 'h host res" where
  "uacpi_kernel_free_mutex A arg1 s =
     bindR (box_drop A arg1 bool_layout s) (\<lambda>s1. Inr (s1\<lparr>bools := (bools s1)(arg1 := None)\<rparr>))"

definition uacpi_kernel_create_event :: "'h heap_ops \<Rightarrow> 'h host \<Rightarrow> (nat \<times> 'h host) res" where
  "uacpi_kernel_create_event A s =
     bindR (box_new A u16_layout s) (\<lambda>(p, s1). Inr (p, s1\<lparr>counts := (counts s1)(p \<mapsto> 0)\<rparr>))"

definition uacpi_kernel_free_event :: "'h heap_ops \<Rightarrow> nat \<Rightarrow> 'h host \<Rightarrow> 'h host res" where
  "uacpi_kernel_free_event A arg1 s =
     bindR (box_drop A arg1 u16_layout s) (\<lambda>s1. Inr (s1\<lparr>counts := (counts s1)(arg1 := None)\<rparr>))"

definition uacpi_kernel_get_thread_id :: nat where
  "uacpi_kernel_get_thread_id = 0"

definition INTERRUPT_FLAG :: u64 where "INTERRUPT_FLAG = push_bit 9 1"

definition host_interrupts :: "bool \<Rightarrow> 'h host \<Rightarrow> 'h host" where
  "host_interrupts b s = s\<lparr>host_rflags := put_bit 9 b (host_rflags s)\<rparr>"

definition uacpi_kernel_disable_interrupts :: "u64 bitflags_ops \<Rightarrow> 'h host \<Rightarrow> u64 \<times> 'h host" where
  "uacpi_kernel_disable_interrupts F s =
     (let state = from_bits_truncate F (host_rflags s) in (state, host_interrupts False s))"

definition uacpi_kernel_restore_interrupts :: "u64 bitflags_ops \<Rightarrow> u64 \<Rightarrow> 'h host \<Rightarrow> 'h host res" where
  "uacpi_kernel_restore_interrupts F state s =
     bindR (expectR (from_bits F state)) (\<lambda>fl.
     Inr (if contains_flags F fl INTERRUPT_FLAG then host_interrupts True s else s))"

definition uacpi_kernel_acquire_mutex :: "nat \<Rightarrow> u16 \<Rightarrow> 'h host \<Rightarrow> (uacpi_status \<times> 'h host) res" where
  "uacpi_kernel_acquire_mutex arg1 arg2 s =
     bindR (deref (bools s) arg1) (\<lambda>locked.
     if \<not> locked then Inr (UACPI_STATUS_OK, s\<lparr>bools := (bools s)(arg1 \<mapsto> True)\<rparr>) else Inl ExplicitPanic)"

definition uacpi_kernel_release_mutex :: "nat \<Rightarrow> 'h host \<Rightarrow> 'h host res" where
  "uacpi_kernel_release_mutex arg1 s =
     bindR (deref (bools s) arg1) (\<lambda>_. Inr (s\<lparr>bools := (bools s)(arg1 \<mapsto> False)\<rparr>))"

definition uacpi_kernel_wait_for_event :: "nat \<Rightarrow> u16 \<Rightarrow> 'h host \<Rightarrow> (bool \<times> 'h host) res" where
  "uacpi_kernel_wait_for_event arg1 arg2 s =
     bindR (deref (counts s) arg1) (\<lambda>v.
     if v > 0 then Inr (True, s\<lparr>counts := (counts s)(arg1 \<mapsto> v - 1)\<rparr>) else Inl ExplicitPanic)"

definition uacpi_kernel_signal_event :: "nat \<Rightarrow> 'h host \<Rightarrow> 'h host res" where
  "uacpi_kernel_signal_event arg1 s =
     bindR (deref (counts s) arg1) (\<lambda>v. Inr (s\<lparr>counts := (counts s)(arg1 \<mapsto> v + 1)\<rparr>))"

definition uacpi_kernel_reset_event :: "nat \<Rightarrow> 'h host \<Rightarrow> 'h host res" where
  "uacpi_kernel_reset_event arg1 s =
     bindR (deref (counts s) arg1) (\<lambda>_. Inr (s\<lparr>counts := (counts s)(arg1 \<mapsto> 0)\<rparr>))"

datatype firmware_request = Request_breakpoint | Request_fatal | Request_other

text \<open>The breakpoint exception returns to the caller.\<close>

definition uacpi_kernel_handle_firmware_request :: "firmware_request \<Rightarrow> uacpi_status res" where
  "uacpi_kernel_handle_firmware_request req =
     (case req of Request_breakpoint \<Rightarrow> Inr UACPI_STATUS_OK | Request_fatal \<Rightarrow> Inl ExplicitPanic
      | Request_other \<Rightarrow> Inl Unimplemented)"

definition uacpi_kernel_install_interrupt_handler :: "u32 \<Rightarrow> nat \<Rightarrow> nat \<Rightarrow> (uacpi_status \<times> nat) res" where
  "uacpi_kernel_install_interrupt_handler irq arg1 ctx = Inl Unimplemented"

definition uacpi_kernel_uninstall_interrupt_handler :: "nat \<Rightarrow> nat \<Rightarrow> uacpi_status res" where
  "uacpi_kernel_uninstall_interrupt_handler arg1 irq_handle = Inl Unimplemented"

definition uacpi_kernel_create_spinlock :: "'h heap_ops \<Rightarrow> 'h host \<Rightarrow> (nat \<times> 'h host) res" where
  "uacpi_kernel_create_spinlock A s =
     bindR (box_new A bool_layout s) (\<lambda>(p, s1). Inr (p, s1\<lparr>bools := (bools s1)(p \<mapsto> False)\<rparr>))"

definition uacpi_kernel_free_spinlock :: "'h heap_ops \<Rightarrow> nat \<Rightarrow> 'h host \<Rightarrow> 'h host res" where
  "uacpi_kernel_free_spinlock A arg1 s =
     bindR (box_drop A arg1 bool_layout s) (\<lambda>s1. Inr (s1\<lparr>bools := (bools s1)(arg1 := None)\<rparr>))"

definition uacpi_kernel_lock_spinlock :: "u64 bitflags_ops \<Rightarrow> nat \<Rightarrow> 'h host \<Rightarrow> (u64 \<times> 'h host) res" where
  "uacpi_kernel_lock_spinlock F arg1 s =
     (let flags = from_bits_truncate F (host_rflags s) in
      bindR (deref (bools s) arg1) (\<lambda>locked.
      let s1 = host_interrupts False s in
      if \<not> locked then Inr (flags, s1\<lparr>bools := (bools s1)(arg1 \<mapsto> True)\<rparr>) else Inl ExplicitPanic))"

definition uacpi_kernel_unlock_spinlock :: "u64 bitflags_ops \<Rightarrow> nat \<Rightarrow> u64 \<Rightarrow> 'h host \<Rightarrow> 'h host res" where
  "uacpi_kernel_unlock_spinlock F arg1 arg2 s =
     bindR (expectR (from_bits F arg2)) (\<lambda>flags.
     bindR (deref (bools s) arg1) (\<lambda>_.
     let s1 = s\<lparr>bools := (bools s)(arg1 \<mapsto> False)\<rparr> in
     Inr (if contains_flags F flags INTERRUPT_FLAG then host_interrupts True s1 else s1)))"

definition uacpi_kernel_schedule_work :: "nat \<Rightarrow> nat \<Rightarrow> nat \<Rightarrow> uacpi_status res" where
  "uacpi_kernel_schedule_work arg1 arg2 ctx = Inl Unimplemented"

definition uacpi_kernel_wait_for_work_completion :: "uacpi_status res" where
  "uacpi_kernel_wait_for_work_completion = Inl Unimplemented"

section \<open>Memory\<close>

lemma from_size_align_8:
  "from_size_align_unchecked n 8 = (if n + 7 < 2 ^ 63 then Inr \<lparr>lsize = n, lalign = 8\<rparr> else Inl LibPanic)"
  using top_bit_power [of 3] by (simp add: from_size_align_unchecked_def from_size_align_def)

text \<open>
  C17. Memory for the library, on any state of the kernel heap. A request panics if its size
  overflows with the header or exceeds what a layout allows, and on a null pointer if the heap is exhausted. Otherwise the
  address is aligned to 8 bytes, the block overlaps no block that is held and the held blocks
  keep their contents; and whatever the library writes in its block, returning it frees exactly that block, header included.
\<close>

theorem uacpi_alloc_free:
  assumes "fallback_heap A ok used area" "heap_inv ok used live fs (global_alloc s)"
  shows "if 2 ^ 64 \<le> sz + 8 then uacpi_kernel_alloc A sz s = Inl ArithOverflow
    else if 2 ^ 63 \<le> sz + 15 then uacpi_kernel_alloc A sz s = Inl LibPanic
    else case heap_alloc A \<lparr>lsize = sz + 8, lalign = 8\<rparr> (global_alloc s) of
      Inl e \<Rightarrow> False
    | Inr (p, _) \<Rightarrow> if p = 0 then uacpi_kernel_alloc A sz s = Inl NullDeref
      else \<exists>s1. uacpi_kernel_alloc A sz s = Inr (p + 8, s1) \<and> (p + 8) mod 8 = 0 \<and>
        (\<forall>(q, K)\<in>set live. region (p + 8, sz) \<inter> region (q, lsize K) = {}) \<and>
        keeps ((\<lambda>(q, K). (q, lsize K)) ` set live) (hmem (global_alloc s)) (hmem (global_alloc s1)) \<and>
        (\<forall>m. (\<forall>a. {a..<a + 8} \<inter> region (p + 8, sz) = {} \<longrightarrow> m a = hmem (global_alloc s1) a) \<longrightarrow>
          (\<exists>s2 fs2. uacpi_kernel_free A (p + 8) (s1\<lparr>global_alloc := global_alloc s1\<lparr>hmem := m\<rparr>\<rparr>) = Inr s2 \<and>
             heap_inv ok used live fs2 (global_alloc s2)))"
proof (cases "2 ^ 63 \<le> sz + 15")
  case True
  then show ?thesis by (simp add: uacpi_kernel_alloc_def uadd_def from_size_align_8)
next
  case False
  let ?L = "\<lparr>lsize = sz + 8, lalign = 8\<rparr>"
  note fh = assms(1)
  have u: "uadd sz 8 = Inr (sz + 8)" using False by (simp add: uadd_def)
  have v: "from_size_align_unchecked (sz + 8) 8 = Inr ?L" using False by (simp add: from_size_align_8)
  have L: "valid_layout ?L" by (auto simp: valid_layout_def intro!: exI [of _ 3])
  obtain p h fs1 where al: "heap_alloc A ?L (global_alloc s) = Inr (p, h)"
    and kp: "keeps (set (map taken live)) (hmem (global_alloc s)) (hmem h)"
    and inv: "heap_inv ok used (if p = 0 then live else (p, ?L) # live) fs1 h"
    using fallback_heap.heap_alloc_ok [OF fh assms(2) L] by blast
  show ?thesis
  proof (cases "p = 0")
    case True
    then show ?thesis using al u v False by (simp add: uacpi_kernel_alloc_def)
  next
    case p: False
    let ?m = "(hmem h)(p := sz)"
    let ?s = "s\<lparr>global_alloc := h\<lparr>hmem := ?m\<rparr>\<rparr>"
    have i1: "heap_inv ok used ((p, ?L) # live) fs1 h" using inv p by simp
    have r: "uacpi_kernel_alloc A sz s = Inr (p + 8, ?s)" using al u v p by (simp add: uacpi_kernel_alloc_def)
    have dis: "region (p, sz + 8) \<inter> region (q, lsize K) = {}" if q: "(q, K) \<in> set live" for q K
    proof -
      obtain j where "j < length live" "live ! j = (q, K)" using q by (metis in_set_conv_nth)
      then show ?thesis using fallback_heap.live_disjoint [OF fh i1, of "Suc j" 0 q K p ?L] by auto
    qed
    have k: "keeps ((\<lambda>(q, K). (q, lsize K)) ` set live) (hmem (global_alloc s)) ?m"
      using keeps_held [OF kp] dis unfolding keeps_def region_def by fastforce
    have al8: "p mod 8 = 0" using i1 by (simp add: heap_inv_def aligned_alloc_def)
    have "\<exists>s2 fs2. uacpi_kernel_free A (p + 8) (?s\<lparr>global_alloc := global_alloc ?s\<lparr>hmem := m\<rparr>\<rparr>) = Inr s2 \<and>
        heap_inv ok used live fs2 (global_alloc s2)"
      if w: "\<forall>a. {a..<a + 8} \<inter> region (p + 8, sz) = {} \<longrightarrow> m a = ?m a" for m
    proof -
      have hd: "m p = sz" using w [rule_format, of p] by (auto simp: region_def)
      have "m a = hmem h a" if "{a..<a + 8} \<inter> region (p, sz + 8) = {}" for a
      proof -
        have "a \<noteq> p" using that by (auto simp: region_def)
        moreover have "{a..<a + 8} \<inter> region (p + 8, sz) = {}" using that by (auto simp: region_def)
        ultimately show ?thesis using w by simp
      qed
      then have i2: "heap_inv ok used ((p, ?L) # live) fs1 (h\<lparr>hmem := m\<rparr>)"
        by (intro fallback_heap.write_keeps [OF fh i1]) auto
      show ?thesis
        using fallback_heap.heap_dealloc_ok [OF fh i2, of p ?L] u v hd
        by (auto simp: uacpi_kernel_free_def usub_def)
    qed
    note fr = this
    have "region (p + 8, sz) \<inter> region (q, lsize K) = {}" if "(q, K) \<in> set live" for q K
      using dis [OF that] by (auto simp: region_def)
    then have d8: "\<forall>(q, K)\<in>set live. region (p + 8, sz) \<inter> region (q, lsize K) = {}" by blast
    have "\<exists>s1. uacpi_kernel_alloc A sz s = Inr (p + 8, s1) \<and> (p + 8) mod 8 = 0 \<and>
        (\<forall>(q, K)\<in>set live. region (p + 8, sz) \<inter> region (q, lsize K) = {}) \<and>
        keeps ((\<lambda>(q, K). (q, lsize K)) ` set live) (hmem (global_alloc s)) (hmem (global_alloc s1)) \<and>
        (\<forall>m. (\<forall>a. {a..<a + 8} \<inter> region (p + 8, sz) = {} \<longrightarrow> m a = hmem (global_alloc s1) a) \<longrightarrow>
          (\<exists>s2 fs2. uacpi_kernel_free A (p + 8) (s1\<lparr>global_alloc := global_alloc s1\<lparr>hmem := m\<rparr>\<rparr>) = Inr s2 \<and>
             heap_inv ok used live fs2 (global_alloc s2)))"
      by (intro exI [of _ ?s] conjI allI impI fr d8 r) (use k al8 in simp_all)
    then show ?thesis using p al False by simp
  qed
qed

definition sample_host :: "first_fit host" where
  "sample_host = \<lparr>global_alloc = sample_heap, bools = (\<lambda>_. None)(0x40 \<mapsto> False), counts = (\<lambda>_. None)(0x80 \<mapsto> 1),
     host_rflags = 0x202, io_writes = []\<rparr>"

lemma sample_heap_inv: "heap_inv ff_ok (\<lambda>h. set (ff_used h)) [] (\<lambda>_. []) sample_heap"
  unfolding sample_heap_def
  by (rule fallback_heap.initial_inv(1) [OF ff.fallback_heap_axioms]) (simp_all add: HEAP_START_def HEAP_SIZE_def)

theorem uacpi_alloc_free_witness:
  "\<exists>s1 s2. uacpi_kernel_alloc first_fit_ops 16 sample_host = Inr (HEAP_START + 8, s1) \<and>
     uacpi_kernel_free first_fit_ops (HEAP_START + 8) s1 = Inr s2"
proof -
  have h: "heap_inv ff_ok (\<lambda>h. set (ff_used h)) [] (\<lambda>_. []) (global_alloc sample_host)"
    using sample_heap_inv by (simp add: sample_host_def)
  have g: "global_alloc sample_host = sample_heap" "HEAP_START \<noteq> 0" by (simp_all add: sample_host_def HEAP_START_def)
  obtain s1 where s1: "uacpi_kernel_alloc first_fit_ops 16 sample_host = Inr (HEAP_START + 8, s1)"
    and f: "\<forall>m. (\<forall>a. {a..<a + 8} \<inter> region (HEAP_START + 8, 16) = {} \<longrightarrow> m a = hmem (global_alloc s1) a) \<longrightarrow>
      (\<exists>s2 fs2. uacpi_kernel_free first_fit_ops (HEAP_START + 8) (s1\<lparr>global_alloc := global_alloc s1\<lparr>hmem := m\<rparr>\<rparr>) = Inr s2 \<and>
        heap_inv ff_ok (\<lambda>h. set (ff_used h)) [] fs2 (global_alloc s2))"
    using uacpi_alloc_free [OF ff.fallback_heap_axioms h, where sz = 16] g sample_heap_alloc by auto
  from f [rule_format, of "hmem (global_alloc s1)"] s1 show ?thesis by auto
qed

section \<open>Locks and events\<close>

lemma flags_roundtrip:
  assumes "bitflags_crate F all_flags" "bit all_flags 9"
  shows "from_bits F (from_bits_truncate F w) = Some (from_bits_truncate F w)"
    "contains_flags F (from_bits_truncate F w) INTERRUPT_FLAG \<longleftrightarrow> bit w 9"
proof -
  show "from_bits F (from_bits_truncate F w) = Some (from_bits_truncate F w)"
    by (simp add: bitflags_crate.from_bits [OF assms(1)] bitflags_crate.from_bits_truncate [OF assms(1)] and.assoc)
  have b: "bit INTERRUPT_FLAG n \<longleftrightarrow> n = 9" for n
    unfolding INTERRUPT_FLAG_def bit_push_bit_iff bit_1_iff by auto
  have "v AND INTERRUPT_FLAG = INTERRUPT_FLAG \<longleftrightarrow> bit v 9" for v :: u64
    unfolding bit_eq_iff [where 'a = "64 word"] bit_and_iff b by (auto dest: spec [of _ 9])
  then show "contains_flags F (from_bits_truncate F w) INTERRUPT_FLAG \<longleftrightarrow> bit w 9"
    using assms(2) by (simp add: bitflags_crate.contains_flags [OF assms(1)]
        bitflags_crate.from_bits_truncate [OF assms(1)] bit_and_iff)
qed

text \<open>
  A spinlock that is free is taken with the interrupts off; a second attempt panics. Whatever
  the critical section does to the rest of the state, unlocking with the flags that locking
  returned frees the lock, and turns the interrupts on exactly if they were on before, provided
  the critical section left them off. The other locks are untouched.
\<close>

theorem spinlock_roundtrip:
  fixes s :: "'h host"
  assumes "bitflags_crate F all_flags" "bit all_flags 9" "bools s l = Some False"
  shows "\<exists>flags s1. uacpi_kernel_lock_spinlock F l s = Inr (flags, s1) \<and>
    \<not> bit (host_rflags s1) 9 \<and> bools s1 = (bools s)(l \<mapsto> True) \<and>
    uacpi_kernel_lock_spinlock F l s1 = Inl ExplicitPanic \<and>
    (\<forall>s2 :: 'h host. bools s2 l = Some True \<and> \<not> bit (host_rflags s2) 9 \<longrightarrow>
      (\<exists>s3. uacpi_kernel_unlock_spinlock F l flags s2 = Inr s3 \<and> bools s3 = (bools s2)(l \<mapsto> False) \<and>
        (bit (host_rflags s3) 9 \<longleftrightarrow> bit (host_rflags s) 9) \<and> global_alloc s3 = global_alloc s2))"
  using assms(3) flags_roundtrip [OF assms(1,2), of "host_rflags s"]
  by (auto simp: uacpi_kernel_lock_spinlock_def uacpi_kernel_unlock_spinlock_def deref_def host_interrupts_def
      expectR_def Let_def)

theorem spinlock_roundtrip_witness:
  "\<exists>flags s1 s3. uacpi_kernel_lock_spinlock (doc_bitflags 0x3f7fd5) 0x40 sample_host = Inr (flags, s1) \<and>
     \<not> bit (host_rflags s1) 9 \<and> uacpi_kernel_unlock_spinlock (doc_bitflags 0x3f7fd5) 0x40 flags s1 = Inr s3 \<and>
     bit (host_rflags s3) 9"
proof -
  have h: "bit (0x3f7fd5 :: u64) 9" "bools sample_host 0x40 = Some False" "bit (host_rflags sample_host) 9"
    by (simp_all add: sample_host_def bit_numeral_rec)
  obtain flags s1 where s1: "uacpi_kernel_lock_spinlock (doc_bitflags 0x3f7fd5) 0x40 sample_host = Inr (flags, s1)"
    "\<not> bit (host_rflags s1) 9" "bools s1 = (bools sample_host)(0x40 \<mapsto> True)"
    and s3: "\<forall>s2 :: first_fit host. bools s2 0x40 = Some True \<and> \<not> bit (host_rflags s2) 9 \<longrightarrow>
      (\<exists>s3. uacpi_kernel_unlock_spinlock (doc_bitflags 0x3f7fd5) 0x40 flags s2 = Inr s3 \<and>
        bools s3 = (bools s2)(0x40 \<mapsto> False) \<and> (bit (host_rflags s3) 9 \<longleftrightarrow> bit (host_rflags sample_host) 9) \<and>
        global_alloc s3 = global_alloc s2)"
    using spinlock_roundtrip [OF docfl.bitflags_crate_axioms h(1,2)] by metis
  from s3 [rule_format, of s1] s1 h(3) show ?thesis by auto
qed

text \<open>The event as uACPI documents it: a counter.\<close>

datatype event_op = Signal | Wait | Reset

fun event_spec :: "event_op list \<Rightarrow> nat \<Rightarrow> nat option" where
  "event_spec [] n = Some n"
| "event_spec (Signal # xs) n = event_spec xs (n + 1)"
| "event_spec (Wait # xs) n = (if n > 0 then event_spec xs (n - 1) else None)"
| "event_spec (Reset # xs) n = event_spec xs 0"

fun event_run :: "event_op list \<Rightarrow> nat \<Rightarrow> 'h host \<Rightarrow> 'h host res" where
  "event_run [] e s = Inr s"
| "event_run (Signal # xs) e s = bindR (uacpi_kernel_signal_event e s) (event_run xs e)"
| "event_run (Wait # xs) e s = bindR (uacpi_kernel_wait_for_event e 0 s) (\<lambda>(_, s1). event_run xs e s1)"
| "event_run (Reset # xs) e s = bindR (uacpi_kernel_reset_event e s) (event_run xs e)"

lemmas event_defs = uacpi_kernel_signal_event_def uacpi_kernel_wait_for_event_def uacpi_kernel_reset_event_def deref_def

text \<open>
  C30. Every sequence of operations on an event refines the documented counter while fewer than
  65536 signals are pending; a wait with nothing pending, where the counter has no step, panics.
\<close>

theorem event_refines_counter:
  assumes "counts s e = Some c" "unat c + length (filter (\<lambda>x. x = Signal) xs) < 2 ^ 16"
  shows "case event_spec xs (unat c) of
      None \<Rightarrow> event_run xs e s = Inl ExplicitPanic
    | Some n \<Rightarrow> \<exists>s'. event_run xs e s = Inr s' \<and> n < 2 ^ 16 \<and> counts s' e = Some (of_nat n) \<and>
        bools s' = bools s \<and> (\<forall>d. d \<noteq> e \<longrightarrow> counts s' d = counts s d)"
  using assms
proof (induction xs arbitrary: s c)
  case Nil
  then show ?case using unsigned_less [of c] by simp
next
  case (Cons x xs)
  show ?case
  proof (cases x)
    case Signal
    have u: "unat (c + 1) = unat c + 1" using Cons.prems(2) Signal by (simp add: unat_word_ariths)
    show ?thesis
      using Cons.IH [of "s\<lparr>counts := (counts s)(e \<mapsto> c + 1)\<rparr>" "c + 1"] Cons.prems Signal u
      by (simp add: event_defs split: option.splits)
  next
    case Wait
    have u: "unat (c - 1) = unat c - 1" if "c > 0" using that by (simp add: unat_minus_one word_gt_0)
    show ?thesis
      using Cons.IH [of "s\<lparr>counts := (counts s)(e \<mapsto> c - 1)\<rparr>" "c - 1"] Cons.prems Wait u
      by (cases "c > 0") (auto simp: event_defs word_gt_0 unat_gt_0 split: option.splits)
  next
    case Reset
    show ?thesis
      using Cons.IH [of "s\<lparr>counts := (counts s)(e \<mapsto> 0)\<rparr>" 0] Cons.prems Reset
      by (simp add: event_defs split: option.splits)
  qed
qed

theorem event_refines_counter_witness:
  "(\<exists>s'. event_run [Wait, Signal, Signal] 0x80 sample_host = Inr s' \<and> counts s' 0x80 = Some 2) \<and>
   event_run [Wait, Wait] 0x80 sample_host = Inl ExplicitPanic"
  using event_refines_counter [of sample_host "0x80" 1 "[Wait, Signal, Signal]"]
    event_refines_counter [of sample_host "0x80" 1 "[Wait, Wait]"]
  by (auto simp: sample_host_def)

section \<open>Time\<close>

text \<open>
  A stall works only after the local timer was calibrated: before that, with the tick rate
  still 0, every stall panics.
\<close>

theorem stall_uncalibrated:
  "TICKS_PER_MS s = 0 \<Longrightarrow> uacpi_kernel_stall late turns usec s = Inl AssertFailed"
  by (simp add: uacpi_kernel_stall_def sys_sleep_local_us_def sleep_local_us_def assertR_def Let_def lapic_write_def)

theorem stall_uncalibrated_witness:
  "uacpi_kernel_stall [] [] 10 \<lparr>LAPIC = (\<lambda>_. 0), TICKS_PER_MS = 0, IS_SLEEPING = False, TIMER_FLAGS = 0\<rparr> = Inl AssertFailed"
  by (rule stall_uncalibrated) simp

end
