(* ===== verification/Boot_Protocol.thy ===== *)
theory Boot_Protocol
  imports Limine
begin

text \<open>
  The requests of the kernel to the boot loader and the accessors of its answers (\<^verbatim>\<open>limine.rs\<close>,
  \<^verbatim>\<open>limine/execaddrs.rs\<close>, \<^verbatim>\<open>limine/memmap.rs\<close>). The boot loader finds the requests in the image by
  their identifiers and stores a pointer to its answer in them; a null pointer is \<open>None\<close>. It is not
  part of the repository: the state it leaves is an argument of the accessors.
\<close>

definition LIMINE_COMMON_MAGIC :: "u64 list" where
  "LIMINE_COMMON_MAGIC = [0xc7b1dd30df4c8b88, 0x0a82e883a194f07b]"

record 'r RequestHeader =
  common :: "u64 list"
  subid :: "u64 list"
  revision :: u64
  response :: "'r option"

definition RequestHeader_id :: "'r RequestHeader \<Rightarrow> u64 list" where
  "RequestHeader_id h = common h @ subid h"

record ResponseHeader =
  resp_revision :: u64

record RSDPResponse = ResponseHeader +
  rsdp_resp_addr :: nat

definition RSDPRequest_new :: "RSDPResponse RequestHeader" where
  "RSDPRequest_new = \<lparr>common = LIMINE_COMMON_MAGIC, subid = [0xc5e77b6b397e7b43, 0x27637845accdcf3c],
     revision = 0, response = None\<rparr>"

record Framebuffer =
  fb_address :: nat
  fb_width :: nat
  fb_height :: nat
  fb_pitch :: nat
  bpp :: u16
  memory_model :: u8
  red_mask_size :: u8
  red_mask_shift :: u8
  green_mask_size :: u8
  green_mask_shift :: u8
  blue_mask_size :: u8
  blue_mask_shift :: u8
  unused :: "u8 list"
  edid_size :: nat
  edid :: nat

definition byte_size :: "Framebuffer \<Rightarrow> nat res" where
  "byte_size fb = umul (fb_height fb) (fb_pitch fb)"

definition pixel_size :: "Framebuffer \<Rightarrow> nat res" where
  "pixel_size fb = umul (fb_width fb) (fb_height fb)"

text \<open>The array of pointers, with its length, is the list of the structures it points to.\<close>

record FramebufferResponse = ResponseHeader +
  fbr_framebuffers :: "Framebuffer list"

definition FramebufferRequest_new :: "FramebufferResponse RequestHeader" where
  "FramebufferRequest_new = \<lparr>common = LIMINE_COMMON_MAGIC, subid = [0x9d5827dcd881dd75, 0xa3148604f6fab11b],
     revision = 0, response = None\<rparr>"

record HHDMResponse = ResponseHeader +
  hhdm_resp_offset :: nat

definition HHDMRequest_new :: "HHDMResponse RequestHeader" where
  "HHDMRequest_new = \<lparr>common = LIMINE_COMMON_MAGIC, subid = [0x48dcf1cb8ad2b852, 0x63984e959a98244b],
     revision = 0, response = None\<rparr>"

datatype PagingMode = L4 | L5

definition PagingMode_u64 :: "PagingMode \<Rightarrow> u64" where
  "PagingMode_u64 m = (case m of L4 \<Rightarrow> 0 | L5 \<Rightarrow> 1)"

record PagingModeResponse = ResponseHeader +
  pm_resp_mode :: PagingMode

record PagingModeRequest =
  pm_header :: "PagingModeResponse RequestHeader"
  pm_mode :: u64
  pm_max_mode :: u64
  pm_min_mode :: u64

definition PagingModeRequest_new :: "PagingMode \<Rightarrow> PagingModeRequest" where
  "PagingModeRequest_new mode =
     \<lparr>pm_header = \<lparr>common = LIMINE_COMMON_MAGIC, subid = [0x95c1a0edab0944cb, 0xa4e5cb3842f7488a],
        revision = 1, response = None\<rparr>,
      pm_mode = PagingMode_u64 mode, pm_max_mode = PagingMode_u64 mode, pm_min_mode = PagingMode_u64 mode\<rparr>"

record ExecAddrResponse = ResponseHeader +
  phys_base :: nat
  virt_base :: nat

definition ExecAddrRequest_new :: "ExecAddrResponse RequestHeader" where
  "ExecAddrRequest_new = \<lparr>common = LIMINE_COMMON_MAGIC, subid = [0x71ba76863cc55f63, 0xb2644a48c516a487],
     revision = 0, response = None\<rparr>"

record MemmapResponse = ResponseHeader +
  mmr_entries :: "MemmapEntry list"

definition MemmapRequest_new :: "MemmapResponse RequestHeader" where
  "MemmapRequest_new = \<lparr>common = LIMINE_COMMON_MAGIC, subid = [0x67cf3d9d378a806f, 0xe304acdfc50c3c62],
     revision = 0, response = None\<rparr>"

definition START_MARKER :: "u64 list" where
  "START_MARKER = [0xf6b8f4b39de7d1ae, 0xfab91a6940fcb9cf, 0x785c6ed015d3e316, 0x181e920a7852b9d9]"

definition END_MARKER :: "u64 list" where
  "END_MARKER = [0xadc0e0531bb10d03, 0x9572709f31764c62]"

text \<open>The statics of the section of requests, and their values in the image.\<close>

record boot =
  BASE_REVISION :: "u64 list"
  FRAMEBUFFER_REQUEST :: "FramebufferResponse RequestHeader"
  HHDM_REQUEST :: "HHDMResponse RequestHeader"
  RSDP_REQUEST :: "RSDPResponse RequestHeader"
  PAGING_MODE_REQUEST :: PagingModeRequest
  EXEC_ADDR_REQUEST :: "ExecAddrResponse RequestHeader"
  MEMMAP_REQUEST :: "MemmapResponse RequestHeader"

definition image_requests :: boot where
  "image_requests = \<lparr>BASE_REVISION = [0xf9562b2d5c95a6c8, 0x6a7b384944536bdc, 6],
     FRAMEBUFFER_REQUEST = FramebufferRequest_new, HHDM_REQUEST = HHDMRequest_new,
     RSDP_REQUEST = RSDPRequest_new, PAGING_MODE_REQUEST = PagingModeRequest_new L4,
     EXEC_ADDR_REQUEST = ExecAddrRequest_new, MEMMAP_REQUEST = MemmapRequest_new\<rparr>"

definition deref_response :: "'r RequestHeader \<Rightarrow> 'r res" where
  "deref_response h = (case response h of None \<Rightarrow> Inl NullDeref | Some r \<Rightarrow> Inr r)"

definition is_base_revision_supported :: "boot \<Rightarrow> bool" where
  "is_base_revision_supported b \<longleftrightarrow> BASE_REVISION b ! 2 = 0"

definition paging_mode :: "boot \<Rightarrow> PagingMode res" where
  "paging_mode b = bindR (deref_response (pm_header (PAGING_MODE_REQUEST b))) (\<lambda>r. Inr (pm_resp_mode r))"

definition framebuffers :: "boot \<Rightarrow> Framebuffer list option" where
  "framebuffers b = map_option fbr_framebuffers (response (FRAMEBUFFER_REQUEST b))"

definition hhdm_offset :: "boot \<Rightarrow> nat res" where
  "hhdm_offset b = bindR (deref_response (HHDM_REQUEST b)) (\<lambda>r. Inr (hhdm_resp_offset r))"

definition rsdp_addr :: "boot \<Rightarrow> nat res" where
  "rsdp_addr b = bindR (deref_response (RSDP_REQUEST b)) (\<lambda>r. Inr (rsdp_resp_addr r))"

definition exec_phys_addr :: "boot \<Rightarrow> nat res" where
  "exec_phys_addr b = bindR (deref_response (EXEC_ADDR_REQUEST b)) (\<lambda>r. Inr (phys_base r))"

definition exec_virt_addr :: "boot \<Rightarrow> nat res" where
  "exec_virt_addr b = bindR (deref_response (EXEC_ADDR_REQUEST b)) (\<lambda>r. Inr (virt_base r))"

definition memmap_entries :: "boot \<Rightarrow> MemmapEntry list option" where
  "memmap_entries b = map_option mmr_entries (response (MEMMAP_REQUEST b))"

text \<open>The identifiers by which the boot loader finds the requests.\<close>

definition request_ids :: "boot \<Rightarrow> u64 list list" where
  "request_ids b = [RequestHeader_id (FRAMEBUFFER_REQUEST b), RequestHeader_id (HHDM_REQUEST b),
     RequestHeader_id (RSDP_REQUEST b), RequestHeader_id (pm_header (PAGING_MODE_REQUEST b)),
     RequestHeader_id (EXEC_ADDR_REQUEST b), RequestHeader_id (MEMMAP_REQUEST b)]"


text \<open>
  Before the boot loader has answered, only the framebuffers and the memory map can be asked for;
  every other accessor goes through a null pointer.
\<close>

lemma image_requests_unanswered:
  "\<not> is_base_revision_supported image_requests" "paging_mode image_requests = Inl NullDeref"
  "framebuffers image_requests = None" "memmap_entries image_requests = None"
  "hhdm_offset image_requests = Inl NullDeref" "rsdp_addr image_requests = Inl NullDeref"
  "exec_phys_addr image_requests = Inl NullDeref" "exec_virt_addr image_requests = Inl NullDeref"
  by (simp_all add: image_requests_def is_base_revision_supported_def paging_mode_def framebuffers_def memmap_entries_def
      hhdm_offset_def rsdp_addr_def exec_phys_addr_def exec_virt_addr_def deref_response_def FramebufferRequest_new_def
      HHDMRequest_new_def RSDPRequest_new_def PagingModeRequest_new_def ExecAddrRequest_new_def MemmapRequest_new_def)

end
