(* ===== verification/Framebuffer.thy ===== *)
theory Framebuffer
  imports Boot_Protocol Bitfields
begin

text \<open>
  Drawing on the screen (\<^verbatim>\<open>framebuffer.rs\<close>, \<^verbatim>\<open>framebuffer/font.rs\<close>). The icon and the font are
  files that the build includes as bytes; they are arguments. The video memory maps the address
  of an aligned 32-bit word to its value. A volatile write through a null or misaligned pointer
  and a pointer past the address space panic in the library (\<open>LibPanic\<close>), as the dev profile
  checks them. Reading past the end of the font is undefined in the code and \<open>IndexOutOfBounds\<close>
  here.
\<close>

section \<open>The code\<close>

type_synonym video = "nat \<Rightarrow> u32"

record Point =
  px :: nat
  py :: nat

definition Point_add :: "Point \<Rightarrow> Point \<Rightarrow> Point res" where
  "Point_add p q = bindR (uadd (px p) (px q)) (\<lambda>x. bindR (uadd (py p) (py q)) (\<lambda>y. Inr \<lparr>px = x, py = y\<rparr>))"

definition Point_sub :: "Point \<Rightarrow> Point \<Rightarrow> Point res" where
  "Point_sub p q = bindR (usub (px p) (px q)) (\<lambda>x. bindR (usub (py p) (py q)) (\<lambda>y. Inr \<lparr>px = x, py = y\<rparr>))"

definition ptr_add :: "nat \<Rightarrow> nat \<Rightarrow> nat res" where
  "ptr_add p n = (if p + n < 2 ^ 64 then Inr (p + n) else Inl LibPanic)"

definition write_volatile :: "nat \<Rightarrow> u32 \<Rightarrow> video \<Rightarrow> video res" where
  "write_volatile p v m = (if p = 0 \<or> p mod 4 \<noteq> 0 then Inl LibPanic else Inr (m(p := v)))"

definition to_le_bytes :: "u32 \<Rightarrow> u8 list" where
  "to_le_bytes w = [ucast w, ucast (drop_bit 8 w), ucast (drop_bit 16 w), ucast (drop_bit 24 w)]"

definition from_le_bytes :: "u8 list \<Rightarrow> u32" where
  "from_le_bytes bs = ucast (bs ! 0) OR push_bit 8 (ucast (bs ! 1)) OR push_bit 16 (ucast (bs ! 2)) OR push_bit 24 (ucast (bs ! 3))"

definition ICON_HEIGHT :: nat where "ICON_HEIGHT = 256"
definition ICON_WIDTH :: nat where "ICON_WIDTH = 256"

definition icon_pixel :: "u32 \<Rightarrow> u32" where
  "icon_pixel w = (let bs = to_le_bytes w in from_le_bytes [bs ! 2, bs ! 1, bs ! 0, bs ! 3])"

definition draw_icon :: "(nat \<Rightarrow> u32) \<Rightarrow> Framebuffer \<Rightarrow> video \<Rightarrow> video res" where
  "draw_icon ICON_DATA fb m =
     (let cx = fb_width fb div 2; cy = fb_height fb div 2 in
      bindR (usub cx (ICON_WIDTH div 2)) (\<lambda>sx.
      bindR (usub cy (ICON_HEIGHT div 2)) (\<lambda>sy.
      forR (\<lambda>y m.
        bindR (uadd sy y) (\<lambda>row.
        bindR (umul row (fb_pitch fb)) (\<lambda>off.
        bindR (ptr_add (fb_address fb) off) (\<lambda>row_ptr.
        forR (\<lambda>x m.
          let px_data = icon_pixel (ICON_DATA (x + y * ICON_HEIGHT)) in
          bindR (uadd sx x) (\<lambda>col.
          bindR (ptr_add row_ptr (4 * col)) (\<lambda>p.
          write_volatile p px_data m))) [0..<ICON_WIDTH] m)))) [0..<ICON_HEIGHT] m)))"

record PSFFontHeader =
  magic :: u32
  version :: u32
  headersize :: u32
  flags :: u32
  numglyph :: u32
  bytesperglyph :: u32
  font_height :: u32
  font_width :: u32

datatype Dim = Unbounded | Strict nat

record Galley =
  text_of :: "u32 list"
  galley_width :: Dim
  galley_height :: Dim

record Style =
  fg :: u32
  bg :: u32

text \<open>
  A galley is too large in one direction: \<open>off\<close> is the offset in the text, \<open>n\<close> the font's extent,
  \<open>p\<close> where the text starts on the screen, \<open>limit\<close> the extent of the screen.
\<close>

definition exceeds :: "Dim \<Rightarrow> nat \<Rightarrow> nat \<Rightarrow> nat \<Rightarrow> nat \<Rightarrow> bool res" where
  "exceeds d off n p limit =
     (case d of Unbounded \<Rightarrow> Inr False
      | Strict maximum \<Rightarrow>
          bindR (uadd off n) (\<lambda>e. if e > maximum then Inr True
            else bindR (uadd p off) (\<lambda>a. bindR (uadd a n) (\<lambda>e'. Inr (e' > limit)))))"

text \<open>The place of the next glyph; \<open>None\<close> when the galley overflowed.\<close>

definition wrap_offset :: "PSFFontHeader \<Rightarrow> Framebuffer \<Rightarrow> Galley \<Rightarrow> Point \<Rightarrow> Point \<Rightarrow> Point option res" where
  "wrap_offset H fb galley point offset =
     bindR (exceeds (galley_width galley) (px offset) (unat (font_width H)) (px point) (fb_width fb)) (\<lambda>wide.
     if \<not> wide then Inr (Some offset)
     else bindR (exceeds (galley_height galley) (py offset) (unat (font_height H)) (py point) (fb_height fb)) (\<lambda>tall.
       if tall then Inr None
       else bindR (uadd (py offset) (unat (font_height H))) (\<lambda>y. Inr (Some \<lparr>px = 0, py = y\<rparr>))))"

definition glyph_offset :: "PSFFontHeader \<Rightarrow> u32 \<Rightarrow> nat res" where
  "glyph_offset H c =
     (let glyph_idx = if c > numglyph H then 0 else c in
      bindR (wmul glyph_idx (bytesperglyph H)) (\<lambda>o1.
      bindR (wadd (headersize H) o1) (\<lambda>o2. Inr (unat o2))))"

definition font_byte :: "u8 list \<Rightarrow> nat \<Rightarrow> u8 res" where
  "font_byte font i = (if i < length font then Inr (font ! i) else Inl IndexOutOfBounds)"

definition draw_glyph_row ::
  "PSFFontHeader \<Rightarrow> u8 list \<Rightarrow> Style \<Rightarrow> Point \<Rightarrow> Point \<Rightarrow> nat \<Rightarrow> nat \<Rightarrow> video \<Rightarrow> video res" where
  "draw_glyph_row H font style point offset row_ptr glyph_row_ptr =
     forR (\<lambda>x m.
       bindR (font_byte font (glyph_row_ptr + x div 8)) (\<lambda>glyph_byte.
       let px_data = if glyph_byte AND push_bit (7 - x mod 8) 1 \<noteq> 0 then fg style else bg style in
       bindR (uadd (px point) (px offset)) (\<lambda>c0.
       bindR (uadd c0 x) (\<lambda>c.
       bindR (ptr_add row_ptr (4 * c)) (\<lambda>p.
       write_volatile p px_data m))))) [0..<unat (font_width H)]"

definition draw_glyph ::
  "PSFFontHeader \<Rightarrow> u8 list \<Rightarrow> Framebuffer \<Rightarrow> Style \<Rightarrow> Point \<Rightarrow> Point \<Rightarrow> nat \<Rightarrow> video \<Rightarrow> video res" where
  "draw_glyph H font fb style point offset glyph_ptr m =
     bindR (forR (\<lambda>y (glyph_row_ptr, m).
       bindR (uadd (py point) (py offset)) (\<lambda>r0.
       bindR (uadd r0 y) (\<lambda>r.
       bindR (umul r (fb_pitch fb)) (\<lambda>off.
       bindR (ptr_add (fb_address fb) off) (\<lambda>row_ptr.
       bindR (draw_glyph_row H font style point offset row_ptr glyph_row_ptr m) (\<lambda>m'.
       Inr (glyph_row_ptr + unat (font_width H) div 8, m'))))))) [0..<unat (font_height H)] (glyph_ptr, m))
     (\<lambda>(_, m'). Inr m')"

fun draw_chars ::
  "PSFFontHeader \<Rightarrow> u8 list \<Rightarrow> Framebuffer \<Rightarrow> Galley \<Rightarrow> Style \<Rightarrow> Point \<Rightarrow> u32 list \<Rightarrow> Point \<Rightarrow> video \<Rightarrow> video res" where
  "draw_chars H font fb galley style point [] offset m = Inr m"
| "draw_chars H font fb galley style point (c # cs) offset m =
     bindR (wrap_offset H fb galley point offset) (\<lambda>w. case w of
       None \<Rightarrow> Inr m
     | Some off \<Rightarrow>
         bindR (glyph_offset H c) (\<lambda>ptr.
         bindR (draw_glyph H font fb style point off ptr m) (\<lambda>m'.
         bindR (uadd (px off) (unat (font_width H))) (\<lambda>x.
         draw_chars H font fb galley style point cs \<lparr>px = x, py = py off\<rparr> m'))))"

definition draw_galley_at ::
  "PSFFontHeader \<Rightarrow> u8 list \<Rightarrow> Framebuffer \<Rightarrow> Galley \<Rightarrow> Style \<Rightarrow> Point \<Rightarrow> video \<Rightarrow> video res" where
  "draw_galley_at H font fb galley style point m =
     draw_chars H font fb galley style point (text_of galley) \<lparr>px = 0, py = 0\<rparr> m"

definition print_str_at :: "PSFFontHeader \<Rightarrow> u8 list \<Rightarrow> Framebuffer \<Rightarrow> Point \<Rightarrow> u32 list \<Rightarrow> video \<Rightarrow> video res" where
  "print_str_at H font fb point str m =
     draw_galley_at H font fb \<lparr>text_of = str, galley_width = Unbounded, galley_height = Unbounded\<rparr>
       \<lparr>fg = 0xff00ff00, bg = 0x00000000\<rparr> point m"

section \<open>Painting rectangles\<close>

definition pixel_at :: "Framebuffer \<Rightarrow> nat \<Rightarrow> nat \<Rightarrow> nat" where
  "pixel_at fb x y = fb_address fb + y * fb_pitch fb + 4 * x"

text \<open>A framebuffer of 32-bit pixels, aligned, inside the address space.\<close>

definition fb_ok :: "Framebuffer \<Rightarrow> bool" where
  "fb_ok fb \<longleftrightarrow> fb_address fb \<noteq> 0 \<and> 4 dvd fb_address fb \<and> 4 dvd fb_pitch fb \<and> 4 * fb_width fb \<le> fb_pitch fb \<and>
     fb_address fb + fb_height fb * fb_pitch fb < 2 ^ 64 \<and> fb_width fb < 2 ^ 62 \<and> fb_height fb < 2 ^ 62"

text \<open>
  From \<open>m\<close> to \<open>m'\<close> the rectangle at \<open>(x0, y0)\<close> got the colours \<open>f\<close> and nothing else changed.
\<close>

definition painted ::
  "Framebuffer \<Rightarrow> nat \<Rightarrow> nat \<Rightarrow> nat \<Rightarrow> nat \<Rightarrow> (nat \<Rightarrow> nat \<Rightarrow> u32) \<Rightarrow> video \<Rightarrow> video \<Rightarrow> bool" where
  "painted fb x0 y0 w h f m m' \<longleftrightarrow>
     (\<forall>x<w. \<forall>y<h. m' (pixel_at fb (x0 + x) (y0 + y)) = f x y) \<and>
     (\<forall>a. (\<forall>x<w. \<forall>y<h. a \<noteq> pixel_at fb (x0 + x) (y0 + y)) \<longrightarrow> m' a = m a)"

lemma pixel_at_inj:
  assumes "fb_ok fb" "x < fb_width fb" "x' < fb_width fb" "pixel_at fb x y = pixel_at fb x' y'"
  shows "x = x' \<and> y = y'"
proof -
  have p: "4 * x < fb_pitch fb" "4 * x' < fb_pitch fb" using assms(1-3) by (auto simp: fb_ok_def)
  have e: "y * fb_pitch fb + 4 * x = y' * fb_pitch fb + 4 * x'" using assms(4) by (simp add: pixel_at_def)
  have "(y * fb_pitch fb + 4 * x) div fb_pitch fb = y" "(y' * fb_pitch fb + 4 * x') div fb_pitch fb = y'"
    using p by simp_all
  then have "y = y'" using e by metis
  with e show ?thesis by simp
qed

lemma pixel_bounds:
  assumes "fb_ok fb" "x < fb_width fb" "y < fb_height fb"
  shows "pixel_at fb x y < 2 ^ 64" "pixel_at fb x y \<noteq> 0" "pixel_at fb x y mod 4 = 0"
    "y * fb_pitch fb < 2 ^ 64" "fb_address fb + y * fb_pitch fb < 2 ^ 64"
proof -
  have "Suc y * fb_pitch fb \<le> fb_height fb * fb_pitch fb" using assms(3) by (intro mult_le_mono1) simp
  moreover have "4 * x < fb_pitch fb" using assms(1,2) by (auto simp: fb_ok_def)
  ultimately have "y * fb_pitch fb + 4 * x < fb_height fb * fb_pitch fb" by simp
  then show "pixel_at fb x y < 2 ^ 64" "y * fb_pitch fb < 2 ^ 64" "fb_address fb + y * fb_pitch fb < 2 ^ 64"
    using assms(1) by (auto simp: fb_ok_def pixel_at_def)
  have "4 dvd y * fb_pitch fb" "4 dvd fb_address fb" using assms(1) by (auto simp: fb_ok_def)
  then show "pixel_at fb x y mod 4 = 0" by (auto simp: pixel_at_def)
  show "pixel_at fb x y \<noteq> 0" using assms(1) by (simp add: pixel_at_def fb_ok_def)
qed

lemma forR_pure:
  assumes "\<And>x s. x \<in> set xs \<Longrightarrow> g x s = Inr (f x s)"
  shows "forR g xs s = Inr (fold f xs s)"
  using assms by (induction xs arbitrary: s) simp_all

lemma fold_writes:
  assumes "inj_on p (set xs)" "distinct xs"
  shows "fold (\<lambda>x m. m(p x := f x)) xs m a = (if a \<in> p ` set xs then f (inv_into (set xs) p a) else m a)"
  using assms
proof (induction xs arbitrary: m)
  case (Cons x xs)
  have i: "inj_on p (set xs)" "distinct xs" using Cons.prems by (auto simp: inj_on_def)
  have n: "p x \<notin> p ` set xs" using Cons.prems by (auto simp: inj_on_def)
  have "inv_into (set (x # xs)) p a = inv_into (set xs) p a" if "a \<in> p ` set xs"
    using that Cons.prems(1) i(1) inv_into_f_f [OF Cons.prems(1)] inv_into_f_f [OF i(1)] by auto
  moreover have "inv_into (set (x # xs)) p (p x) = x" using Cons.prems(1) by (intro inv_into_f_f) auto
  ultimately show ?case using Cons.IH [OF i] n by auto
qed simp

lemma painted_row:
  assumes "fb_ok fb" "x0 + w \<le> fb_width fb"
  shows "painted fb x0 y0 w 1 (\<lambda>x _. f x) m (fold (\<lambda>x m. m(pixel_at fb (x0 + x) y0 := f x)) [0..<w] m)"
proof -
  have i: "inj_on (\<lambda>x. pixel_at fb (x0 + x) y0) (set [0..<w])"
    using assms(2) by (auto simp: inj_on_def pixel_at_def)
  note fw = fold_writes [OF i, of f m]
  show ?thesis unfolding painted_def
  proof (intro conjI allI impI)
    fix x y :: nat assume "x < w" "y < 1"
    then show "fold (\<lambda>x m. m(pixel_at fb (x0 + x) y0 := f x)) [0..<w] m (pixel_at fb (x0 + x) (y0 + y)) = f x"
      using fw inv_into_f_f [OF i, of x] by auto
  next
    fix a assume "\<forall>x<w. \<forall>y<1. a \<noteq> pixel_at fb (x0 + x) (y0 + y)"
    then show "fold (\<lambda>x m. m(pixel_at fb (x0 + x) y0 := f x)) [0..<w] m a = m a" using fw by auto
  qed
qed

lemma painted_below:
  assumes "fb_ok fb" "x0 + w \<le> fb_width fb"
    and "painted fb x0 y0 w h f m m1" "painted fb x0 (y0 + h) w 1 (\<lambda>x _. f x h) m1 m2"
  shows "painted fb x0 y0 w (Suc h) f m m2"
  unfolding painted_def
proof (intro conjI allI impI)
  fix x y assume xy: "x < w" "y < Suc h"
  show "m2 (pixel_at fb (x0 + x) (y0 + y)) = f x y"
  proof (cases "y = h")
    case True
    then show ?thesis using assms(4) xy(1) by (simp add: painted_def)
  next
    case False
    have "pixel_at fb (x0 + x) (y0 + y) \<noteq> pixel_at fb (x0 + x') (y0 + h)" if "x' < w" for x'
      using pixel_at_inj [OF assms(1), of "x0 + x" "x0 + x'" "y0 + y" "y0 + h"] that xy assms(2) False by auto
    then show ?thesis using assms(3,4) xy False by (simp add: painted_def)
  qed
next
  fix a assume "\<forall>x<w. \<forall>y<Suc h. a \<noteq> pixel_at fb (x0 + x) (y0 + y)"
  then show "m2 a = m a" using assms(3,4) by (simp add: painted_def less_Suc_eq)
qed

lemma painted_rows:
  assumes "fb_ok fb" "x0 + w \<le> fb_width fb"
  shows "painted fb x0 y0 w h f m
    (fold (\<lambda>y. fold (\<lambda>x m. m(pixel_at fb (x0 + x) (y0 + y) := f x y)) [0..<w]) [0..<h] m)"
proof (induction h)
  case 0
  then show ?case by (simp add: painted_def)
next
  case (Suc h)
  then show ?case
    using painted_below [OF assms Suc painted_row [OF assms, of "y0 + h" "\<lambda>x. f x h"]]
    by (simp del: fun_upd_apply)
qed

text \<open>The byte order of the icon: red and blue change places.\<close>

lemma bit_icon_pixel:
  "n < 32 \<Longrightarrow> bit (icon_pixel w) n \<longleftrightarrow> bit w (if n < 8 then n + 16 else if n < 16 then n else if n < 24 then n - 16 else n)"
  by (auto simp: icon_pixel_def to_le_bytes_def from_le_bytes_def Let_def bit_or_iff bit_push_bit_iff bit_ucast_iff
      bit_drop_bit_eq numeral_2_eq_2 numeral_3_eq_3 add.commute)


definition sample_screen :: Framebuffer where
  "sample_screen = \<lparr>fb_address = 0xffff8000fd000000, fb_width = 1280, fb_height = 800, fb_pitch = 5120, bpp = 32,
     memory_model = 1, red_mask_size = 8, red_mask_shift = 16, green_mask_size = 8, green_mask_shift = 8,
     blue_mask_size = 8, blue_mask_shift = 0, unused = replicate 7 0, edid_size = 0, edid = 0\<rparr>"

lemma sample_screen_ok: "fb_ok sample_screen"
  by (simp add: fb_ok_def sample_screen_def)


section \<open>Text\<close>

definition font_ok :: "PSFFontHeader \<Rightarrow> u8 list \<Rightarrow> bool" where
  "font_ok H font \<longleftrightarrow> 0 < unat (font_width H) \<and> 8 dvd unat (font_width H) \<and> 0 < unat (font_height H) \<and>
     unat (font_width H) div 8 * unat (font_height H) \<le> unat (bytesperglyph H) \<and>
     unat (headersize H) + unat (numglyph H) * unat (bytesperglyph H) = length font \<and> length font < 2 ^ 32"

text \<open>The bit of a glyph, most significant bit first, as a colour.\<close>

definition glyph_pixel :: "PSFFontHeader \<Rightarrow> u8 list \<Rightarrow> Style \<Rightarrow> u32 \<Rightarrow> nat \<Rightarrow> nat \<Rightarrow> u32" where
  "glyph_pixel H font style c x y =
     (if bit (font ! (unat (headersize H) + unat c * unat (bytesperglyph H) + y * (unat (font_width H) div 8) + x div 8))
        (7 - x mod 8) then fg style else bg style)"

lemma forR_append: "forR f (xs @ ys) s = bindR (forR f xs s) (forR f ys)"
  by (induction xs arbitrary: s) (simp_all add: bindR_def split: sum.splits)

lemma painted_right:
  assumes "fb_ok fb" "x0 + w1 + w2 \<le> fb_width fb"
    and "painted fb x0 y0 w1 h f m m1" "painted fb (x0 + w1) y0 w2 h g m1 m2"
  shows "painted fb x0 y0 (w1 + w2) h (\<lambda>x y. if x < w1 then f x y else g (x - w1) y) m m2"
  unfolding painted_def
proof (intro conjI allI impI)
  fix x y assume xy: "x < w1 + w2" "y < h"
  show "m2 (pixel_at fb (x0 + x) (y0 + y)) = (if x < w1 then f x y else g (x - w1) y)"
  proof (cases "x < w1")
    case True
    have "pixel_at fb (x0 + x) (y0 + y) \<noteq> pixel_at fb (x0 + w1 + x') (y0 + y')" if "x' < w2" for x' y'
      using pixel_at_inj [OF assms(1), of "x0 + x" "x0 + w1 + x'" "y0 + y" "y0 + y'"] that True assms(2) by auto
    then show ?thesis using assms(3,4) xy True by (simp add: painted_def)
  next
    case False
    then have "m2 (pixel_at fb (x0 + w1 + (x - w1)) (y0 + y)) = g (x - w1) y"
      using assms(4) xy unfolding painted_def by (metis less_diff_conv2 add.commute not_less)
    then show ?thesis using False by simp
  qed
next
  fix a assume a: "\<forall>x<w1 + w2. \<forall>y<h. a \<noteq> pixel_at fb (x0 + x) (y0 + y)"
  have "a \<noteq> pixel_at fb (x0 + w1 + x) (y0 + y)" if "x < w2" "y < h" for x y
    using a [rule_format, of "w1 + x" y] that by (simp add: add.assoc)
  then show "m2 a = m a" using assms(3,4) a by (simp add: painted_def)
qed

lemma glyph_offset_ok:
  assumes "font_ok H font" "c < numglyph H"
  shows "glyph_offset H c = Inr (unat (headersize H) + unat c * unat (bytesperglyph H))"
    "unat (headersize H) + unat c * unat (bytesperglyph H) + unat (bytesperglyph H) \<le> length font"
proof -
  have "Suc (unat c) * unat (bytesperglyph H) \<le> unat (numglyph H) * unat (bytesperglyph H)"
    using assms(2) by (intro mult_le_mono1) (simp add: word_less_nat_alt)
  then show l: "unat (headersize H) + unat c * unat (bytesperglyph H) + unat (bytesperglyph H) \<le> length font"
    using assms(1) by (simp add: font_ok_def)
  have f: "length font < 2 ^ 32" using assms(1) by (simp add: font_ok_def)
  have m: "unat (c * bytesperglyph H) = unat c * unat (bytesperglyph H)"
    using l f by (simp add: unat_word_ariths)
  then have "unat (headersize H + c * bytesperglyph H) = unat (headersize H) + unat c * unat (bytesperglyph H)"
    using l f by (simp add: unat_word_ariths)
  then show "glyph_offset H c = Inr (unat (headersize H) + unat c * unat (bytesperglyph H))"
    using l f m less_not_sym [OF assms(2)] by (simp add: glyph_offset_def wmul_def wadd_def Let_def)
qed

lemma draw_glyph_row_ok:
  assumes fb: "fb_ok fb" and font: "font_ok H font" and c: "c < numglyph H" and y: "y < unat (font_height H)"
    and X: "px point + px off + unat (font_width H) \<le> fb_width fb" and Y: "r < fb_height fb"
  shows "draw_glyph_row H font style point off (fb_address fb + r * fb_pitch fb)
      (unat (headersize H) + unat c * unat (bytesperglyph H) + y * (unat (font_width H) div 8)) m =
    Inr (fold (\<lambda>x m. m(pixel_at fb (px point + px off + x) r := glyph_pixel H font style c x y)) [0..<unat (font_width H)] m)"
  unfolding draw_glyph_row_def
proof (rule forR_pure)
  fix x m assume "x \<in> set [0..<unat (font_width H)]"
  then have x: "x < unat (font_width H)" and xb: "px point + px off + x < fb_width fb" using X by auto
  let ?s = "unat (font_width H) div 8" let ?p = "unat (headersize H) + unat c * unat (bytesperglyph H)"
  have "x div 8 < ?s" using x font by (auto simp: font_ok_def div_less_iff_less_mult)
  moreover have "Suc y * ?s \<le> unat (font_height H) * ?s" using y by (intro mult_le_mono1) simp
  ultimately have "y * ?s + x div 8 < unat (bytesperglyph H)" using font by (simp add: font_ok_def mult.commute)
  then have l: "?p + y * ?s + x div 8 < length font" using glyph_offset_ok(2) [OF font c] by simp
  have b: "v AND 2 ^ n = 0 \<longleftrightarrow> \<not> bit v n" for v :: u8 and n
    using bit_iff_and_push_bit_not_eq_0 [of v n] by simp
  show "bindR (font_byte font (?p + y * ?s + x div 8)) (\<lambda>glyph_byte.
      let px_data = if glyph_byte AND push_bit (7 - x mod 8) 1 \<noteq> 0 then fg style else bg style in
      bindR (uadd (px point) (px off)) (\<lambda>c0. bindR (uadd c0 x) (\<lambda>c.
      bindR (ptr_add (fb_address fb + r * fb_pitch fb) (4 * c)) (\<lambda>p. write_volatile p px_data m)))) =
    Inr (m(pixel_at fb (px point + px off + x) r := glyph_pixel H font style c x y))"
    using pixel_bounds(1-3) [OF fb xb Y] xb fb l
    by (simp add: font_byte_def b Let_def uadd_def ptr_add_def write_volatile_def glyph_pixel_def pixel_at_def fb_ok_def)
qed

lemma draw_glyph_ok:
  assumes fb: "fb_ok fb" and font: "font_ok H font" and c: "c < numglyph H"
    and X: "px point + px off + unat (font_width H) \<le> fb_width fb"
    and Y: "py point + py off + unat (font_height H) \<le> fb_height fb"
    and p: "p = unat (headersize H) + unat c * unat (bytesperglyph H)"
  shows "\<exists>m'. draw_glyph H font fb style point off p m = Inr m' \<and>
    painted fb (px point + px off) (py point + py off) (unat (font_width H)) (unat (font_height H))
      (glyph_pixel H font style c) m m'"
proof -
  let ?w = "unat (font_width H)" let ?h = "unat (font_height H)" let ?s = "?w div 8"
  let ?X = "px point + px off" let ?Y = "py point + py off" let ?f = "glyph_pixel H font style c"
  let ?row = "\<lambda>y (glyph_row_ptr, m).
       bindR (uadd (py point) (py off)) (\<lambda>r0. bindR (uadd r0 y) (\<lambda>r. bindR (umul r (fb_pitch fb)) (\<lambda>o1.
       bindR (ptr_add (fb_address fb) o1) (\<lambda>row_ptr.
       bindR (draw_glyph_row H font style point off row_ptr glyph_row_ptr m) (\<lambda>m'. Inr (glyph_row_ptr + ?s, m'))))))"
  let ?paint = "\<lambda>y. fold (\<lambda>x m. m(pixel_at fb (?X + x) (?Y + y) := ?f x y)) [0..<?w]"
  have row: "?row y (p + y * ?s, m) = Inr (p + Suc y * ?s, ?paint y m)" if y: "y < ?h" for y m
  proof -
    have yb: "?Y + y < fb_height fb" using y Y by simp
    have "0 < fb_width fb" using X font by (simp add: font_ok_def)
    then have u: "uadd (py point) (py off) = Inr ?Y" "uadd ?Y y = Inr (?Y + y)"
      "umul (?Y + y) (fb_pitch fb) = Inr ((?Y + y) * fb_pitch fb)"
      "ptr_add (fb_address fb) ((?Y + y) * fb_pitch fb) = Inr (fb_address fb + (?Y + y) * fb_pitch fb)"
      using pixel_bounds(4,5) [OF fb _ yb, of 0] yb fb by (simp_all add: uadd_def umul_def ptr_add_def fb_ok_def)
    show ?thesis unfolding prod.case u bindR_Inr p draw_glyph_row_ok [OF fb font c y X yb] by simp
  qed
  have "forR ?row [0..<n] (p, m) = Inr (p + n * ?s, fold ?paint [0..<n] m)" if "n \<le> ?h" for n
    using that
  proof (induction n)
    case (Suc n)
    then show ?case using row [of n] by (simp add: forR_append del: fun_upd_apply)
  qed simp
  then have "draw_glyph H font fb style point off p m = Inr (fold ?paint [0..<?h] m)" by (simp add: draw_glyph_def)
  then show ?thesis using painted_rows [OF fb X, of ?Y ?h ?f m] by blast
qed

lemma draw_chars_ok:
  assumes fb: "fb_ok fb" and font: "font_ok H font" and cs: "\<forall>c\<in>set cs. c < numglyph H"
    and g: "galley_width galley = Unbounded"
    and X: "px point + px off + length cs * unat (font_width H) \<le> fb_width fb"
    and Y: "py point + py off + unat (font_height H) \<le> fb_height fb"
  shows "\<exists>m'. draw_chars H font fb galley style point cs off m = Inr m' \<and>
    painted fb (px point + px off) (py point + py off) (length cs * unat (font_width H)) (unat (font_height H))
      (\<lambda>x y. glyph_pixel H font style (cs ! (x div unat (font_width H))) (x mod unat (font_width H)) y) m m'"
  using cs X Y
proof (induction cs arbitrary: off m)
  case Nil
  then show ?case by (simp add: painted_def)
next
  case (Cons c cs)
  let ?w = "unat (font_width H)" let ?h = "unat (font_height H)" let ?off = "\<lparr>px = px off + ?w, py = py off\<rparr>"
  let ?p = "unat (headersize H) + unat c * unat (bytesperglyph H)"
  have c: "c < numglyph H" using Cons.prems(1) by simp
  have w: "0 < ?w" using font by (simp add: font_ok_def)
  obtain m1 where m1: "draw_glyph H font fb style point off ?p m = Inr m1"
    "painted fb (px point + px off) (py point + py off) ?w ?h (glyph_pixel H font style c) m m1"
    using draw_glyph_ok [OF fb font c _ Cons.prems(3) refl, of style m] Cons.prems(2) by auto
  obtain m2 where m2: "draw_chars H font fb galley style point cs ?off m1 = Inr m2"
    "painted fb (px point + px off + ?w) (py point + py off) (length cs * ?w) ?h
      (\<lambda>x y. glyph_pixel H font style (cs ! (x div ?w)) (x mod ?w) y) m1 m2"
    using Cons.IH [of ?off m1] Cons.prems by (auto simp: add.assoc)
  have u: "uadd (px off) ?w = Inr (px off + ?w)" using Cons.prems(2) fb by (simp add: uadd_def fb_ok_def)
  have e: "(if x < ?w then glyph_pixel H font style c x y
       else glyph_pixel H font style (cs ! ((x - ?w) div ?w)) ((x - ?w) mod ?w) y) =
     glyph_pixel H font style ((c # cs) ! (x div ?w)) (x mod ?w) y" for x y
    using w by (cases "x < ?w") (simp_all add: le_div_geq le_mod_geq)
  have "px point + px off + ?w + length cs * ?w \<le> fb_width fb" using Cons.prems(2) by simp
  from painted_right [OF fb this m1(2) m2(2)] have "painted fb (px point + px off) (py point + py off)
      (?w + length cs * ?w) ?h (\<lambda>x y. glyph_pixel H font style ((c # cs) ! (x div ?w)) (x mod ?w) y) m m2"
    by (simp only: e)
  moreover have "draw_chars H font fb galley style point (c # cs) off m = Inr m2"
    using m1(1) m2(1) u g glyph_offset_ok(1) [OF font c] by (simp add: wrap_offset_def exceeds_def)
  ultimately show ?case by simp
qed

text \<open>
  C18. A line of text is drawn as specified: where it fits on the screen and every character has a
  glyph, each pixel of the line is green or black as the corresponding bit of the glyph says, and no other
  word of the video memory changes.
\<close>

theorem print_str_at_correct:
  assumes "fb_ok fb" "font_ok H font" "\<forall>c\<in>set str. c < numglyph H"
    and "px point + length str * unat (font_width H) \<le> fb_width fb" "py point + unat (font_height H) \<le> fb_height fb"
  shows "\<exists>m'. print_str_at H font fb point str m = Inr m' \<and>
    painted fb (px point) (py point) (length str * unat (font_width H)) (unat (font_height H))
      (\<lambda>x y. glyph_pixel H font \<lparr>fg = 0xff00ff00, bg = 0\<rparr> (str ! (x div unat (font_width H))) (x mod unat (font_width H)) y) m m'"
  using draw_chars_ok [OF assms(1-3), of "\<lparr>text_of = str, galley_width = Unbounded, galley_height = Unbounded\<rparr>" point
      "\<lparr>px = 0, py = 0\<rparr>" "\<lparr>fg = 0xff00ff00, bg = 0\<rparr>" m] assms(4,5)
  by (simp add: print_str_at_def draw_galley_at_def)

text \<open>A font of two glyphs, 8 pixels wide and 2 high.\<close>

definition sample_font :: PSFFontHeader where
  "sample_font = \<lparr>magic = 0x864ab572, version = 0, headersize = 32, flags = 0, numglyph = 2, bytesperglyph = 2,
     font_height = 2, font_width = 8\<rparr>"

definition sample_glyphs :: "u8 list" where
  "sample_glyphs = replicate 32 0 @ [0, 0, 0x80, 0xff]"

lemma sample_font_ok: "font_ok sample_font sample_glyphs"
  by (simp add: font_ok_def sample_font_def sample_glyphs_def)

theorem print_str_at_correct_witness:
  "\<exists>m'. print_str_at sample_font sample_glyphs sample_screen \<lparr>px = 4, py = 4\<rparr> [0, 1] (\<lambda>_. 7) = Inr m' \<and>
     m' (pixel_at sample_screen 12 4) = 0xff00ff00 \<and> m' (pixel_at sample_screen 13 4) = 0"
proof -
  have h: "\<forall>c\<in>set [0, 1 :: u32]. c < numglyph sample_font"
    "px \<lparr>px = 4, py = 4\<rparr> + length [0, 1 :: u32] * unat (font_width sample_font) \<le> fb_width sample_screen"
    "py \<lparr>px = 4, py = 4\<rparr> + unat (font_height sample_font) \<le> fb_height sample_screen"
    by (simp_all add: sample_font_def sample_screen_def)
  obtain m' where m: "print_str_at sample_font sample_glyphs sample_screen \<lparr>px = 4, py = 4\<rparr> [0, 1] (\<lambda>_. 7) = Inr m'"
    "painted sample_screen 4 4 16 2 (\<lambda>x y. glyph_pixel sample_font sample_glyphs \<lparr>fg = 0xff00ff00, bg = 0\<rparr>
       ([0, 1] ! (x div 8)) (x mod 8) y) (\<lambda>_. 7) m'"
    using print_str_at_correct [OF sample_screen_ok sample_font_ok h, of "\<lambda>_. 7"] by (auto simp: sample_font_def)
  have g: "glyph_pixel sample_font sample_glyphs \<lparr>fg = 0xff00ff00, bg = 0\<rparr> 1 0 0 = 0xff00ff00"
    "glyph_pixel sample_font sample_glyphs \<lparr>fg = 0xff00ff00, bg = 0\<rparr> 1 1 0 = 0"
    by (simp_all add: glyph_pixel_def sample_font_def sample_glyphs_def nth_append bit_numeral_rec)
  note pt = m(2) [unfolded painted_def, THEN conjunct1, rule_format]
  show ?thesis using m(1) pt [of 8 0] pt [of 9 0] g by auto
qed

text \<open>
  C32. The bound of the glyph index is off by one: the first code point after the font's last
  glyph is not replaced by glyph 0, and drawing it reads behind the end of the font.
\<close>

theorem glyph_index_off_by_one:
  assumes "fb_ok fb" "font_ok H font" "px point + unat (font_width H) \<le> fb_width fb"
    and "py point + unat (font_height H) \<le> fb_height fb"
  shows "print_str_at H font fb point (numglyph H # str) m = Inl IndexOutOfBounds"
proof -
  let ?g = "\<lparr>text_of = numglyph H # str, galley_width = Unbounded, galley_height = Unbounded\<rparr>"
  have f: "unat (headersize H) + unat (numglyph H) * unat (bytesperglyph H) = length font" "length font < 2 ^ 32"
    "0 < unat (font_width H)" "0 < unat (font_height H)" using assms(2) by (auto simp: font_ok_def)
  then have m: "unat (numglyph H * bytesperglyph H) = unat (numglyph H) * unat (bytesperglyph H)"
    by (simp add: unat_word_ariths)
  then have "unat (headersize H + numglyph H * bytesperglyph H) = length font" using f by (simp add: unat_word_ariths)
  then have o: "glyph_offset H (numglyph H) = Inr (length font)"
    using f m by (simp add: glyph_offset_def wmul_def wadd_def Let_def)
  have y: "py point < fb_height fb" "0 < fb_width fb" using assms(3,4) f(3,4) by auto
  have w: "[0..<unat (font_width H)] = 0 # [1..<unat (font_width H)]" "[0..<unat (font_height H)] = 0 # [1..<unat (font_height H)]"
    using f(3,4) by (simp_all add: upt_rec)
  have "draw_glyph H font fb s point \<lparr>px = 0, py = 0\<rparr> (length font) m = Inl IndexOutOfBounds" for s
    using pixel_bounds(4,5) [OF assms(1) y(2,1)] y assms(1)
    by (simp add: draw_glyph_def draw_glyph_row_def w uadd_def umul_def ptr_add_def font_byte_def fb_ok_def bindR_def)
  then show ?thesis by (simp add: print_str_at_def draw_galley_at_def wrap_offset_def exceeds_def o)
qed

theorem glyph_index_off_by_one_witness:
  "print_str_at sample_font sample_glyphs sample_screen \<lparr>px = 0, py = 0\<rparr> [2] (\<lambda>_. 0) = Inl IndexOutOfBounds"
proof -
  have h: "px \<lparr>px = 0, py = 0\<rparr> + unat (font_width sample_font) \<le> fb_width sample_screen"
    "py \<lparr>px = 0, py = 0\<rparr> + unat (font_height sample_font) \<le> fb_height sample_screen" "numglyph sample_font = 2"
    by (simp_all add: sample_font_def sample_screen_def)
  show ?thesis using glyph_index_off_by_one [OF sample_screen_ok sample_font_ok h(1,2), of "[]" "\<lambda>_. 0"] h(3) by simp
qed

end
