(* ===== verification/Gdt.thy ===== *)
theory Gdt
  imports Context_Switch
begin

text \<open>
  The segments (\<^verbatim>\<open>gdt.rs\<close>). The table is the one of the \<^verbatim>\<open>x86_64\<close> crate; its documented
  behaviour is the locale \<open>gdt_crate\<close>: a new table holds the null descriptor, a segment is
  appended behind the last one and a system segment takes two slots; a table has eight slots.
\<close>

section \<open>The crate\<close>

datatype Descriptor = Kernel_code | Kernel_data | User_code | User_data | Tss nat

datatype slot = Null_slot | Segment Descriptor | Tss_high nat

fun slots_of :: "Descriptor \<Rightarrow> slot list" where
  "slots_of (Tss a) = [Segment (Tss a), Tss_high a]"
| "slots_of d = [Segment d]"

record 'g gdt_ops =
  gdt_new :: 'g
  gdt_append :: "Descriptor \<Rightarrow> 'g \<Rightarrow> 'g res"
  gdt_slots :: "'g \<Rightarrow> slot list"

locale gdt_crate =
  fixes G :: "'g gdt_ops"
  assumes slots_new: "gdt_slots G (gdt_new G) = [Null_slot]"
    and append_ok: "length (gdt_slots G g) + length (slots_of d) \<le> 8 \<Longrightarrow>
      \<exists>g'. gdt_append G d g = Inr g' \<and> gdt_slots G g' = gdt_slots G g @ slots_of d"
    and append_full: "8 < length (gdt_slots G g) + length (slots_of d) \<Longrightarrow> gdt_append G d g = Inl LibPanic"

definition doc_gdt :: "slot list gdt_ops" where
  "doc_gdt = \<lparr>gdt_new = [Null_slot],
     gdt_append = (\<lambda>d g. if length g + length (slots_of d) \<le> 8 then Inr (g @ slots_of d) else Inl LibPanic),
     gdt_slots = (\<lambda>g. g)\<rparr>"

interpretation docg: gdt_crate doc_gdt
  by unfold_locales (auto simp: doc_gdt_def)

section \<open>The code\<close>

definition KERNEL_CS_INDEX :: u16 where "KERNEL_CS_INDEX = 1"
definition KERNEL_DS_INDEX :: u16 where "KERNEL_DS_INDEX = 2"
definition DATA_CS_INDEX :: u16 where "DATA_CS_INDEX = 3"
definition DATA_DS_INDEX :: u16 where "DATA_DS_INDEX = 4"
definition TSS_INDEX :: u16 where "TSS_INDEX = 5"

text \<open>\<open>SegmentSelector::new\<close> with the privilege level 0.\<close>

definition selector :: "u16 \<Rightarrow> u16" where
  "selector index = push_bit 3 index OR 0"

record 'g segments =
  gdtr :: "'g option"
  reg_cs :: u16
  reg_ds :: u16
  reg_ss :: u16
  reg_gs :: u16
  reg_es :: u16
  reg_fs :: u16
  reg_tr :: u16
  seg_interrupts :: bool

definition gdt_init :: "'g gdt_ops \<Rightarrow> nat \<Rightarrow> 'g segments \<Rightarrow> 'g segments res" where
  "gdt_init G KERNEL_TSS s =
     bindR (gdt_append G Kernel_code (gdt_new G)) (\<lambda>g.
     bindR (gdt_append G Kernel_data g) (\<lambda>g.
     bindR (gdt_append G User_code g) (\<lambda>g.
     bindR (gdt_append G User_data g) (\<lambda>g.
     bindR (gdt_append G (Tss KERNEL_TSS) g) (\<lambda>g.
     Inr \<lparr>gdtr = Some g, reg_cs = selector KERNEL_CS_INDEX, reg_ds = selector KERNEL_DS_INDEX,
       reg_ss = selector KERNEL_DS_INDEX, reg_gs = selector KERNEL_DS_INDEX, reg_es = selector KERNEL_DS_INDEX,
       reg_fs = selector KERNEL_DS_INDEX, reg_tr = selector TSS_INDEX, seg_interrupts = True\<rparr>)))))"

section \<open>The properties\<close>

text \<open>The slot that a selector names.\<close>

definition names :: "'g gdt_ops \<Rightarrow> 'g segments \<Rightarrow> u16 \<Rightarrow> slot \<Rightarrow> bool" where
  "names G s sel sl \<longleftrightarrow> (case gdtr s of None \<Rightarrow> False
     | Some g \<Rightarrow> unat (drop_bit 3 sel) < length (gdt_slots G g) \<and> gdt_slots G g ! unat (drop_bit 3 sel) = sl \<and> sel AND 7 = 0)"

lemma gdt_init_run:
  assumes "gdt_crate G"
  shows "\<exists>s'. gdt_init G tss s = Inr s' \<and> names G s' (reg_cs s') (Segment Kernel_code) \<and>
    names G s' (reg_ds s') (Segment Kernel_data) \<and> reg_ss s' = reg_ds s' \<and> reg_es s' = reg_ds s' \<and>
    reg_fs s' = reg_ds s' \<and> reg_gs s' = reg_ds s' \<and> names G s' (reg_tr s') (Segment (Tss tss)) \<and>
    names G s' (selector DATA_CS_INDEX) (Segment User_code) \<and> names G s' (selector DATA_DS_INDEX) (Segment User_data) \<and>
    ucast (reg_cs s') = KERNEL_CS \<and> ucast (reg_ss s') = KERNEL_SS"
proof -
  note ap = gdt_crate.append_ok [OF assms]
  obtain g1 where 1: "gdt_append G Kernel_code (gdt_new G) = Inr g1" "gdt_slots G g1 = [Null_slot, Segment Kernel_code]"
    using ap [of "gdt_new G" Kernel_code] gdt_crate.slots_new [OF assms] by auto
  obtain g2 where 2: "gdt_append G Kernel_data g1 = Inr g2" "gdt_slots G g2 = gdt_slots G g1 @ [Segment Kernel_data]"
    using ap [of g1 Kernel_data] 1(2) by auto
  obtain g3 where 3: "gdt_append G User_code g2 = Inr g3" "gdt_slots G g3 = gdt_slots G g2 @ [Segment User_code]"
    using ap [of g2 User_code] 1(2) 2(2) by auto
  obtain g4 where 4: "gdt_append G User_data g3 = Inr g4" "gdt_slots G g4 = gdt_slots G g3 @ [Segment User_data]"
    using ap [of g3 User_data] 1(2) 2(2) 3(2) by auto
  obtain g5 where 5: "gdt_append G (Tss tss) g4 = Inr g5"
    "gdt_slots G g5 = gdt_slots G g4 @ [Segment (Tss tss), Tss_high tss]"
    using ap [of g4 "Tss tss"] 1(2) 2(2) 3(2) 4(2) by auto
  have sl: "gdt_slots G g5 = [Null_slot, Segment Kernel_code, Segment Kernel_data, Segment User_code, Segment User_data,
      Segment (Tss tss), Tss_high tss]" using 1 2 3 4 5 by simp
  have ix: "selector KERNEL_CS_INDEX = 8" "selector KERNEL_DS_INDEX = 16" "selector DATA_CS_INDEX = 24"
    "selector DATA_DS_INDEX = 32" "selector TSS_INDEX = 40"
    by (simp_all add: selector_def KERNEL_CS_INDEX_def KERNEL_DS_INDEX_def DATA_CS_INDEX_def DATA_DS_INDEX_def TSS_INDEX_def)
  have dr: "unat (drop_bit 3 (8 :: u16)) = 1" "unat (drop_bit 3 (16 :: u16)) = 2" "unat (drop_bit 3 (24 :: u16)) = 3"
    "unat (drop_bit 3 (32 :: u16)) = 4" "unat (drop_bit 3 (40 :: u16)) = 5" by (simp_all add: unat_drop_bit_eq)
  show ?thesis
    using 1(1) 2(1) 3(1) 4(1) 5(1)
    by (simp add: gdt_init_def names_def sl ix dr KERNEL_CS_def KERNEL_SS_def)
qed

text \<open>
  C31. The constants of the code agree with the order in which the segments are appended: the
  table has room for all of them, and afterwards the code segment register names the kernel's code,
  the data segment registers the kernel's data and the task register the task state segment. The
  selectors are the ones that the frames of new tasks hold.
\<close>

theorem gdt_init_correct:
  assumes "gdt_crate G"
  shows "\<exists>s'. gdt_init G tss s = Inr s' \<and> names G s' (reg_cs s') (Segment Kernel_code) \<and>
    names G s' (reg_ds s') (Segment Kernel_data) \<and> reg_ss s' = reg_ds s' \<and> reg_es s' = reg_ds s' \<and>
    reg_fs s' = reg_ds s' \<and> reg_gs s' = reg_ds s' \<and> names G s' (reg_tr s') (Segment (Tss tss)) \<and>
    names G s' (selector DATA_CS_INDEX) (Segment User_code) \<and> names G s' (selector DATA_DS_INDEX) (Segment User_data) \<and>
    ucast (reg_cs s') = KERNEL_CS \<and> ucast (reg_ss s') = KERNEL_SS"
  using gdt_init_run [OF assms] .

theorem gdt_init_correct_witness:
  "\<exists>s'. gdt_init doc_gdt 0x5000 \<lparr>gdtr = None, reg_cs = 0, reg_ds = 0, reg_ss = 0, reg_gs = 0, reg_es = 0, reg_fs = 0,
     reg_tr = 0, seg_interrupts = False\<rparr> = Inr s' \<and> names doc_gdt s' (reg_tr s') (Segment (Tss 0x5000))"
  using gdt_init_correct [OF docg.gdt_crate_axioms] by blast

end
