(* ===== verification/Serial.thy ===== *)
theory Serial
  imports Prelude
begin

text \<open>
  The serial line (\<^verbatim>\<open>serial.rs\<close>): printing takes the lock of the port with interrupts disabled.
  The formatted text is an argument, and what is handed to the driver of the port, which is
  library code, is the output. Waiting for a lock that is held on the only processor does not
  end: \<open>None\<close>.
\<close>

record serial =
  ser_locked :: bool
  ser_out :: string
  ser_interrupts :: bool

text \<open>The port at its first use; the flag is that of the processor.\<close>

definition SERIAL1 :: "bool \<Rightarrow> serial" where
  "SERIAL1 fl = \<lparr>ser_locked = False, ser_out = '''', ser_interrupts = fl\<rparr>"

definition debug_dot :: "serial \<Rightarrow> serial" where
  "debug_dot s = (if ser_locked s then s else s\<lparr>ser_out := ser_out s @ ''.''\<rparr>)"

definition serial_print :: "string \<Rightarrow> serial \<Rightarrow> serial option" where
  "serial_print args s =
     (let reenable = ser_interrupts s;
          s1 = s\<lparr>ser_interrupts := False\<rparr> in
      if ser_locked s1 then None
      else
        let s2 = s1\<lparr>ser_out := ser_out s1 @ args\<rparr> in
        Some (if reenable then s2\<lparr>ser_interrupts := True\<rparr> else s2))"

definition serial_println :: "string \<Rightarrow> serial \<Rightarrow> serial option" where
  "serial_println args = serial_print (args @ [CHR 0x0A])"

text \<open>
  Prints in any order, from code with interrupts enabled or disabled, end, keep the interrupt
  flag and the free lock, and their texts come out whole and in order.
\<close>

lemma serial_print_ok [simp]:
  "\<not> ser_locked s \<Longrightarrow> serial_print t s = Some (s\<lparr>ser_out := ser_out s @ t\<rparr>)"
  by (simp add: serial_print_def Let_def)

lemma serial_println_ok [simp]:
  "\<not> ser_locked s \<Longrightarrow> serial_println t s = Some (s\<lparr>ser_out := ser_out s @ t @ [CHR 0x0A]\<rparr>)"
  by (simp add: serial_println_def)

text \<open>Without the lock nothing is printed, and the caller waits for ever.\<close>

lemma serial_print_locked [simp]: "ser_locked s \<Longrightarrow> serial_print t s = None"
  by (simp add: serial_print_def Let_def)

lemma serial_println_locked [simp]: "ser_locked s \<Longrightarrow> serial_println t s = None"
  by (simp add: serial_println_def)

end
