(* ===== verification/Exceptions.thy ===== *)
theory Exceptions
  imports Idt Serial Format Bitfields
begin

text \<open>
  The handlers of the processor's exceptions (\<^verbatim>\<open>idt.rs\<close>) and of panics (\<^verbatim>\<open>main.rs\<close>): what they print, and
  whether they return. A handler that ends in the loop around \<^verbatim>\<open>hlt\<close> \<open>Halts\<close>; \<open>None\<close> is a handler that
  waits for the serial line for ever. The text of flags, error codes and of the faulting address
  comes from crates and is a parameter.

  The theorems put the gates, the wrappers and the handlers together: an exception in any code
  of the kernel prints the state of that code.
\<close>

section \<open>The code\<close>

record InterruptStackFrame =
  isf_ip :: u64
  isf_cs :: u64
  isf_rflags :: u64
  isf_sp :: u64
  isf_ss :: u64

text \<open>The printers of the crates: of the flags, of the result of reading cr2 and of the error code.\<close>

record printers =
  flags_fmt :: "u64 \<Rightarrow> string"
  cr2_fmt :: "u64 \<Rightarrow> string"
  ec_fmt :: "u64 \<Rightarrow> string"

abbreviation newline :: string where
  "newline \<equiv> [CHR 0x0A]"

definition InterruptStackFrame_fmt :: "printers \<Rightarrow> bool \<Rightarrow> InterruptStackFrame \<Rightarrow> string" where
  "InterruptStackFrame_fmt K alternate self =
     (if alternate then
        ''InterruptStackFrame {'' @ newline @
        ''  ip: '' @ hex_field 16 (isf_ip self) @ '','' @ newline @
        ''  cs: '' @ dec (unat (isf_cs self)) @ '','' @ newline @
        ''  rflags: '' @ flags_fmt K (isf_rflags self) @ '','' @ newline @
        ''  sp: '' @ hex_field 16 (isf_sp self) @ '','' @ newline @
        ''  ss: '' @ dec (unat (isf_ss self)) @ newline @ ''}''
      else
        ''InterruptStackFrame { ip: '' @ hex_field 16 (isf_ip self) @ '', cs: '' @ dec (unat (isf_cs self)) @
        '', rflags: '' @ flags_fmt K (isf_rflags self) @ '', sp: '' @ hex_field 16 (isf_sp self) @
        '', ss: '' @ dec (unat (isf_ss self)) @ '' }'')"

definition frame_ref :: "(u64 \<Rightarrow> u64) \<Rightarrow> u64 \<Rightarrow> InterruptStackFrame res" where
  "frame_ref M stack_frame =
     ref_to 8 (unat stack_frame) \<lparr>isf_ip = M stack_frame, isf_cs = M (stack_frame + 8),
       isf_rflags = M (stack_frame + 16), isf_sp = M (stack_frame + 24), isf_ss = M (stack_frame + 32)\<rparr>"

datatype 's ends = Returns 's | Halts 's

definition double_fault_handler :: "printers \<Rightarrow> (u64 \<Rightarrow> u64) \<Rightarrow> u64 \<Rightarrow> u64 \<Rightarrow> serial \<Rightarrow> serial ends res option" where
  "double_fault_handler K M stack_frame ec s =
     (case frame_ref M stack_frame of Inl e \<Rightarrow> Some (Inl e) | Inr f \<Rightarrow>
        Option.bind (serial_println ''=== DOUBLE FAULT ==='' s) (\<lambda>s1.
        Option.bind (serial_println (InterruptStackFrame_fmt K True f) s1) (\<lambda>s2.
        Some (Inr (Halts s2)))))"

definition breakpoint_handler :: "printers \<Rightarrow> (u64 \<Rightarrow> u64) \<Rightarrow> u64 \<Rightarrow> serial \<Rightarrow> serial ends res option" where
  "breakpoint_handler K M stack_frame s =
     (case frame_ref M stack_frame of Inl e \<Rightarrow> Some (Inl e) | Inr f \<Rightarrow>
        Option.bind (serial_println ''=== BREAKPOINT ==='' s) (\<lambda>s1.
        Option.bind (serial_println (InterruptStackFrame_fmt K True f) s1) (\<lambda>s2.
        Some (Inr (Returns s2)))))"

text \<open>The fields of \<^verbatim>\<open>PageFaultErrorCode\<close>.\<close>

definition is_present_ec :: "u64 bitfield_ops \<Rightarrow> u64 \<Rightarrow> bool" where
  "is_present_ec P ec \<longleftrightarrow> get_bits P ec 0 0 \<noteq> 0"

definition is_write_access :: "u64 bitfield_ops \<Rightarrow> u64 \<Rightarrow> bool" where
  "is_write_access P ec \<longleftrightarrow> get_bits P ec 1 1 \<noteq> 0"

definition in_user_ring :: "u64 bitfield_ops \<Rightarrow> u64 \<Rightarrow> bool" where
  "in_user_ring P ec \<longleftrightarrow> get_bits P ec 2 2 \<noteq> 0"

definition is_reserved_write :: "u64 bitfield_ops \<Rightarrow> u64 \<Rightarrow> bool" where
  "is_reserved_write P ec \<longleftrightarrow> get_bits P ec 3 3 \<noteq> 0"

definition is_instruction_fetch :: "u64 bitfield_ops \<Rightarrow> u64 \<Rightarrow> bool" where
  "is_instruction_fetch P ec \<longleftrightarrow> get_bits P ec 4 4 \<noteq> 0"

definition is_protection_key_violation :: "u64 bitfield_ops \<Rightarrow> u64 \<Rightarrow> bool" where
  "is_protection_key_violation P ec \<longleftrightarrow> get_bits P ec 5 5 \<noteq> 0"

definition is_shadow_stack_access :: "u64 bitfield_ops \<Rightarrow> u64 \<Rightarrow> bool" where
  "is_shadow_stack_access P ec \<longleftrightarrow> get_bits P ec 6 6 \<noteq> 0"

definition is_sgx_violation :: "u64 bitfield_ops \<Rightarrow> u64 \<Rightarrow> bool" where
  "is_sgx_violation P ec \<longleftrightarrow> get_bits P ec 15 15 \<noteq> 0"

text \<open>\<open>cr2\<close> is the register that holds the address of the access.\<close>

definition page_fault_handler ::
  "printers \<Rightarrow> u64 \<Rightarrow> (u64 \<Rightarrow> u64) \<Rightarrow> u64 \<Rightarrow> u64 \<Rightarrow> serial \<Rightarrow> serial ends res option" where
  "page_fault_handler K cr2 M stack_frame ec s =
     (case frame_ref M stack_frame of Inl e \<Rightarrow> Some (Inl e) | Inr f \<Rightarrow>
        Option.bind (serial_println ''=== PAGE FAULT ==='' s) (\<lambda>s1.
        Option.bind (serial_println (''Accessed Address: '' @ cr2_fmt K cr2) s1) (\<lambda>s2.
        Option.bind (serial_println (''EC: '' @ ec_fmt K ec) s2) (\<lambda>s3.
        Option.bind (serial_println (InterruptStackFrame_fmt K True f) s3) (\<lambda>s4.
        Some (Inr (Halts s4)))))))"

definition pit_handler :: "u64 \<Rightarrow> serial \<Rightarrow> serial ends res option" where
  "pit_handler stack_frame s = Option.bind (serial_print ''.'' s) (\<lambda>s1. Some (Inr (Returns s1)))"

text \<open>
  The handler of the high precision event timer prints a dot if the serial line is free. It never waits for
  the line, so it cannot block the code that it interrupts.
\<close>

definition hpet_interrupt :: "serial \<Rightarrow> serial" where
  "hpet_interrupt = debug_dot"

lemma hpet_interrupt_dot:
  "ser_out (hpet_interrupt s) = ser_out s @ (if ser_locked s then '''' else ''.'') \<and>
   ser_locked (hpet_interrupt s) = ser_locked s \<and> ser_interrupts (hpet_interrupt s) = ser_interrupts s"
  by (simp add: hpet_interrupt_def debug_dot_def)

fun table_name :: "table \<Rightarrow> string" where
  "table_name GDT = ''GDT''"
| "table_name IDT_table = ''IDT''"
| "table_name LDT = ''LDT''"

definition ec_fault_handler ::
  "string \<Rightarrow> printers \<Rightarrow> (u64 \<Rightarrow> u64) \<Rightarrow> u64 \<Rightarrow> u64 \<Rightarrow> serial \<Rightarrow> serial ends res option" where
  "ec_fault_handler name K M stack_frame ec s =
     (case frame_ref M stack_frame of Inl e \<Rightarrow> Some (Inl e) | Inr f \<Rightarrow>
        Option.bind (serial_println name s) (\<lambda>s1.
        Option.bind (serial_print (''EC: '' @ hex_field 8 ec @ '' '') s1) (\<lambda>s2.
        Option.bind (if ec AND 1 \<noteq> 0 then serial_print ''(external) '' s2 else Some s2) (\<lambda>s3.
        case ec_fault_report ec of Inl e \<Rightarrow> Some (Inl e) | Inr (_, tbl, i) \<Rightarrow>
          Option.bind (serial_println (table_name tbl @ ''['' @ dec (unat i) @ '']'') s3) (\<lambda>s4.
          Option.bind (serial_print (InterruptStackFrame_fmt K True f) s4) (\<lambda>s5.
          Some (Inr (Halts s5))))))))"

definition fault_handler :: "string \<Rightarrow> printers \<Rightarrow> (u64 \<Rightarrow> u64) \<Rightarrow> u64 \<Rightarrow> serial \<Rightarrow> serial ends res option" where
  "fault_handler name K M stack_frame s =
     (case frame_ref M stack_frame of Inl e \<Rightarrow> Some (Inl e) | Inr f \<Rightarrow>
        Option.bind (serial_println name s) (\<lambda>s1.
        Option.bind (serial_print (InterruptStackFrame_fmt K True f) s1) (\<lambda>s2.
        Some (Inr (Halts s2)))))"

definition gp_fault_handler where "gp_fault_handler = ec_fault_handler ''=== GP FAULT ===''"
definition ss_fault_handler where "ss_fault_handler = ec_fault_handler ''=== SS FAULT ===''"
definition snp_handler where "snp_handler = ec_fault_handler ''=== SEGMENT NOT PRESENT ===''"
definition tss_inv_handler where "tss_inv_handler = ec_fault_handler ''=== INVALID TSS ===''"
definition inv_opcode_handler where "inv_opcode_handler = fault_handler ''=== INVALID OPCODE ===''"

text \<open>
  The wrapper that \<open>init\<close> installs at a vector around the function at address \<open>R v\<close>, and that
  function, which gets its arguments in rdi and rsi.
\<close>

definition exception_code :: "(nat \<Rightarrow> u64) \<Rightarrow> nat \<Rightarrow> instr list" where
  "exception_code R v = (if v = 3 \<or> v = 6 then handler (R v) else handler_with_ec (R v))"

definition exception_handler ::
  "printers \<Rightarrow> u64 \<Rightarrow> nat \<Rightarrow> (u64 \<Rightarrow> u64) \<Rightarrow> u64 \<Rightarrow> u64 \<Rightarrow> serial \<Rightarrow> serial ends res option" where
  "exception_handler K cr2 v M rdi rsi =
     (if v = 3 then breakpoint_handler K M rdi else if v = 6 then inv_opcode_handler K M rdi
      else if v = 8 then double_fault_handler K M rdi rsi else if v = 10 then tss_inv_handler K M rdi rsi
      else if v = 11 then snp_handler K M rdi rsi else if v = 12 then ss_fault_handler K M rdi rsi
      else if v = 13 then gp_fault_handler K M rdi rsi else page_fault_handler K cr2 M rdi rsi)"

text \<open>The panic handler; \<open>info\<close> is the text of the panic.\<close>

definition panic_handler :: "string \<Rightarrow> serial \<Rightarrow> serial ends option" where
  "panic_handler info s =
     Option.bind (serial_println ''--- PANIC! ---'' (s\<lparr>ser_interrupts := False\<rparr>)) (\<lambda>s1.
     Option.bind (serial_println info s1) (\<lambda>s2. Some (Halts s2)))"

section \<open>Exceptions as the processor raises them\<close>

text \<open>
  The processor looks up the gate, saves the state of the interrupted code and pushes the error code,
  if the exception has one. \<open>None\<close> is a vector without a gate.
\<close>

definition raise_exception :: "Entry list \<Rightarrow> nat \<Rightarrow> u64 option \<Rightarrow> machine \<Rightarrow> machine option" where
  "raise_exception t v ec m =
     (if v < length t \<and> is_present (opts (t ! v)) then
        let m1 = interrupt (gate_type (t ! v) = 15) (gate_offset (t ! v)) m in
        Some (case ec of None \<Rightarrow> m1 | Some e \<Rightarrow> push e m1)
      else None)"

text \<open>The exceptions that have a handler, and which of them have an error code.\<close>

definition exceptions :: "nat set" where
  "exceptions = {3, 6, 8, 10, 11, 12, 13, 14}"

definition error_code :: "nat \<Rightarrow> u64 \<Rightarrow> u64 option" where
  "error_code v e = (if v \<in> {8, 10, 11, 12, 13, 14} then Some e else None)"

text \<open>The state of the interrupted code.\<close>

definition interrupted :: "machine \<Rightarrow> InterruptStackFrame" where
  "interrupted m = \<lparr>isf_ip = rip m, isf_cs = cs m, isf_rflags = rflags m, isf_sp = gpr m RSP, isf_ss = ss m\<rparr>"

text \<open>What is printed before the frame.\<close>

definition exception_head :: "printers \<Rightarrow> u64 \<Rightarrow> nat \<Rightarrow> u64 \<Rightarrow> string" where
  "exception_head K cr2 v e =
     (if v = 3 then ''=== BREAKPOINT ==='' @ newline else if v = 6 then ''=== INVALID OPCODE ==='' @ newline
      else if v = 8 then ''=== DOUBLE FAULT ==='' @ newline
      else if v = 14 then ''=== PAGE FAULT ==='' @ newline @ ''Accessed Address: '' @ cr2_fmt K cr2 @ newline @
        ''EC: '' @ ec_fmt K e @ newline
      else (if v = 10 then ''=== INVALID TSS ==='' else if v = 11 then ''=== SEGMENT NOT PRESENT ===''
          else if v = 12 then ''=== SS FAULT ==='' else ''=== GP FAULT ==='') @ newline @
        ''EC: '' @ hex_field 8 e @ '' '' @ (if bit e 0 then ''(external) '' else '''') @
        table_name (if bit e 1 then IDT_table else if bit e 2 then LDT else GDT) @
        ''['' @ dec ((unat e div 8) mod 512) @ '']'' @ newline)"

definition exception_text :: "printers \<Rightarrow> u64 \<Rightarrow> nat \<Rightarrow> u64 \<Rightarrow> machine \<Rightarrow> string" where
  "exception_text K cr2 v e m =
     exception_head K cr2 v e @ InterruptStackFrame_fmt K True (interrupted m) @
     (if v \<in> {3, 8, 14} then newline else '''')"

section \<open>What the handlers print\<close>

lemma frame_ref_frame:
  assumes "frame_at p (iret_frame m) M" "0 < unat p" "unat p mod 8 = 0"
  shows "frame_ref M p = Inr (interrupted m)"
  using assms
  by (simp add: frame_ref_def iret_frame_def interrupted_def frame_at_Cons add.commute [of p])

lemma ec_fault_handler_prints:
  assumes "frame_ref M p = Inr f" "\<not> ser_locked s"
  shows "ec_fault_handler name K M p e s = Some (Inr (Halts (s\<lparr>ser_out := ser_out s @ name @ newline @
    ''EC: '' @ hex_field 8 e @ '' '' @ (if bit e 0 then ''(external) '' else '''') @
    table_name (if bit e 1 then IDT_table else if bit e 2 then LDT else GDT) @
    ''['' @ dec ((unat e div 8) mod 512) @ '']'' @ newline @ InterruptStackFrame_fmt K True f\<rparr>)))"
proof -
  have ext: "e AND 1 \<noteq> 0 \<longleftrightarrow> bit e 0" by (simp add: and_one_eq bit_0 mod_2_eq_odd)
  show ?thesis
    unfolding ec_fault_handler_def assms(1) ext ec_fault_report_eq(1) using assms(2)
    by (simp add: ec_fault_report_eq(2))
qed

lemma exception_handler_prints:
  assumes "v \<in> exceptions" "frame_ref M p = Inr (interrupted m)" "\<not> ser_locked s"
  shows "exception_handler K cr2 v M p e s = Some (Inr ((if v = 3 then Returns else Halts)
    (s\<lparr>ser_out := ser_out s @ exception_text K cr2 v e m\<rparr>)))"
proof -
  note ec = ec_fault_handler_prints [OF assms(2,3), of _ K e]
  have "v = 3 \<or> v = 6 \<or> v = 8 \<or> v = 10 \<or> v = 11 \<or> v = 12 \<or> v = 13 \<or> v = 14"
    using assms(1) by (simp add: exceptions_def)
  then show ?thesis
    by (elim disjE) (simp_all add: exception_handler_def exception_text_def exception_head_def ec
        breakpoint_handler_def double_fault_handler_def page_fault_handler_def inv_opcode_handler_def
        fault_handler_def gp_fault_handler_def ss_fault_handler_def snp_handler_def tss_inv_handler_def assms(2,3))
qed

text \<open>A handler that finds the serial line locked prints nothing and does not end.\<close>

lemma exception_handler_locked:
  "frame_ref M p = Inr f \<Longrightarrow> ser_locked s \<Longrightarrow> exception_handler K cr2 v M p e s = None"
  by (simp add: exception_handler_def breakpoint_handler_def double_fault_handler_def page_fault_handler_def
      inv_opcode_handler_def fault_handler_def gp_fault_handler_def ss_fault_handler_def snp_handler_def
      tss_inv_handler_def ec_fault_handler_def)

section \<open>From the exception to the report\<close>

lemma off_by_8: "(n :: nat) mod 16 = 8 \<Longrightarrow> 0 < n \<and> n mod 8 = 0"
  by presburger

lemma frame_pointer_aligned:
  assumes "a = (w :: u64) AND NOT 15"
  shows "0 < unat (a - 40)" "unat (a - 40) mod 8 = 0"
proof -
  have m: "(15::u64) = mask 4" by (simp add: mask_eq_exp_minus_1)
  have "take_bit 4 a = 0" unfolding assms m by (rule bit_word_eqI) (simp add: bit_simps)
  then have "take_bit 4 (uint a) = 0" by (metis unsigned_take_bit_eq uint_0_eq)
  then have "16 dvd uint a" by (simp add: take_bit_eq_mod dvd_eq_mod_eq_0)
  then obtain q where q: "uint a = 16 * q" by (rule dvdE)
  have "uint (a - 40) = (16 * q - 40) mod 2 ^ 64" using q by (simp add: uint_word_arith_bintrs take_bit_eq_mod)
  also have "\<dots> mod 16 = (8 + 16 * (q - 3)) mod 16" by (simp add: mod_mod_cancel algebra_simps)
  also have "\<dots> = 8" by (simp only: mod_mult_self2) simp
  finally have "int (unat (a - 40) mod 16) = 8" by (simp add: zmod_int)
  then have "unat (a - 40) mod 16 = 8" by linarith
  then show "0 < unat (a - 40)" "unat (a - 40) mod 8 = 0" using off_by_8 by blast+
qed

lemma exception_entered:
  fixes m :: machine
  assumes "v \<in> exceptions" "idt_init L sel s0 = Inr s1" "IDT s1 = Some t" "a = gpr m RSP AND NOT 15"
  shows "\<exists>m1 m2. raise_exception t v (error_code v e) m = Some m1 \<and> exec (exception_code R v) m1 = Transferred m2 \<and>
    Some (rip m1, v \<noteq> 3 \<and> v \<noteq> 6) = map_of (idt_spec L) v \<and> rip m2 = R v \<and> gpr m2 RDI = a - 40 \<and>
    gpr m2 RSP = a - 48 \<and> (v \<noteq> 3 \<and> v \<noteq> 6 \<longrightarrow> gpr m2 RSI = e) \<and> frame_at (a - 40) (iret_frame m) (mem m2) \<and>
    (bit (rflags m2) 9 \<longleftrightarrow> bit (rflags m) 9 \<and> v \<noteq> 3 \<and> v \<noteq> 6) \<and>
    (\<forall>b. b \<notin> window (a - 48) 6 \<longrightarrow> mem m2 b = mem m b)"
proof -
  define b where "b \<longleftrightarrow> v \<noteq> 3 \<and> v \<noteq> 6"
  have v: "v = 3 \<or> v = 6 \<or> v = 8 \<or> v = 10 \<or> v = 11 \<or> v = 12 \<or> v = 13 \<or> v = 14"
    using assms(1) by (simp add: exceptions_def)
  obtain t' where t': "idt_init L sel s0 = Inr (s0\<lparr>IDT := Some t', idtr := Some (sym_IDT L, 1023), int_flag := True\<rparr>)"
    "length t' = 64" and g: "\<forall>v<64. case map_of (idt_spec L) v of None \<Rightarrow> \<not> is_present (opts (t' ! v))
      | Some (ptr, trapped) \<Rightarrow> leads_to sel ptr trapped (t' ! v)"
    using idt_init_run [of L sel s0] by blast
  have t: "t' = t" using assms(2,3) t'(1) by auto
  obtain h where h: "map_of (idt_spec L) v = Some (h, b)" using v by (elim disjE) (simp_all add: idt_spec_def b_def)
  have "v < 64" using v by auto
  then have l: "leads_to sel h b (t ! v)" using spec [OF g, of v] h t by simp
  let ?i = "interrupt b h m"
  have ec: "error_code v e = (if b then Some e else None)" using v by (auto simp: error_code_def b_def)
  have r: "raise_exception t v (error_code v e) m = Some (if b then push e ?i else ?i)"
    using l \<open>v < 64\<close> t'(2) t by (cases b) (simp_all add: raise_exception_def leads_to_def ec)
  note int = interrupt_run [where m = m and trap = b and h = h, folded assms(4)]
  have ifl: "bit (rflags ?i) 9 \<longleftrightarrow> bit (rflags m) 9 \<and> b" "rip ?i = h"
    by (simp_all add: interrupt_def Let_def)
  have w: "a - 48 \<notin> window (a - 40) 5" using windows_disjoint [of 1 5 "a - 48"] by (simp add: window_Suc)
  have w6: "window (a - 48) 6 = insert (a - 48) (window (a - 40) 5)" using window_Suc [of "a - 48" 5] by simp
  have keep: "frame_at (a - 40) (iret_frame m) ((mem ?i)(a - 48 := x))" for x
    using int(2) w by simp
  have rest: "((mem ?i)(a - 48 := x)) c = mem m c" if "c \<notin> window (a - 48) 6" for x c
    using that int(3) unfolding w6 by simp
  obtain i where i: "i = ?i" "gpr i = (gpr m)(RSP := a - 40)" "rip i = h" using int(1) ifl(2) by blast
  define m1 where "m1 = (if b then push e i else i)"
  define m2 where "m2 = (push (rip i) (set_reg RDI (a - 40) (if b then set_reg RSI e (pop m1) else m1)))\<lparr>rip := R v\<rparr>"
  have "exception_code R v = (if b then handler_with_ec (R v) else handler (R v))"
    by (simp add: exception_code_def b_def)
  then have "exec (exception_code R v) m1 = Transferred m2"
    by (cases b) (simp_all add: handler_with_ec_def handler_def stack_top_def m1_def m2_def i(2))
  moreover have "raise_exception t v (error_code v e) m = Some m1" using r unfolding m1_def i(1) .
  moreover have "rip m1 = h" "rip m2 = R v" "gpr m2 RDI = a - 40" "gpr m2 RSP = a - 48" "b \<Longrightarrow> gpr m2 RSI = e"
    "bit (rflags m2) 9 \<longleftrightarrow> bit (rflags m) 9 \<and> b"
    using ifl(1) unfolding i(1) [symmetric] by (cases b; simp add: m1_def m2_def i(2,3))+
  moreover have "mem m2 = (mem ?i)(a - 48 := rip ?i)"
    unfolding i(1) [symmetric] by (cases b) (simp_all add: m1_def m2_def i(2))
  ultimately show ?thesis using h keep rest unfolding b_def by (intro exI [of _ m1] exI [of _ m2]) simp
qed

lemma exception_text_no_code: "v = 3 \<or> v = 6 \<Longrightarrow> exception_text K cr2 v e m = exception_text K cr2 v e' m"
  by (elim disjE) (simp_all add: exception_text_def exception_head_def)

lemma exception_reports:
  fixes m :: machine
  assumes "v \<in> exceptions" "idt_init L sel s0 = Inr s1" "IDT s1 = Some t" "\<not> ser_locked ser"
    and "a = gpr m RSP AND NOT 15"
  shows "\<exists>m1 m2. raise_exception t v (error_code v e) m = Some m1 \<and> exec (exception_code R v) m1 = Transferred m2 \<and>
    rip m2 = R v \<and> exception_handler K cr2 v (mem m2) (gpr m2 RDI) (gpr m2 RSI) ser =
      Some (Inr ((if v = 3 then Returns else Halts) (ser\<lparr>ser_out := ser_out ser @ exception_text K cr2 v e m\<rparr>))) \<and>
    (bit (rflags m2) 9 \<longleftrightarrow> bit (rflags m) 9 \<and> v \<noteq> 3 \<and> v \<noteq> 6) \<and>
    (\<forall>b. b \<notin> window (a - 48) 6 \<longrightarrow> mem m2 b = mem m b)"
proof -
  obtain m1 m2 where r: "raise_exception t v (error_code v e) m = Some m1" "exec (exception_code R v) m1 = Transferred m2"
    "rip m2 = R v" "gpr m2 RDI = a - 40" "v \<noteq> 3 \<and> v \<noteq> 6 \<longrightarrow> gpr m2 RSI = e" "frame_at (a - 40) (iret_frame m) (mem m2)"
    "bit (rflags m2) 9 \<longleftrightarrow> bit (rflags m) 9 \<and> v \<noteq> 3 \<and> v \<noteq> 6" "\<forall>b. b \<notin> window (a - 48) 6 \<longrightarrow> mem m2 b = mem m b"
    using exception_entered [OF assms(1-3,5), of e R] by blast
  have "exception_text K cr2 v (gpr m2 RSI) m = exception_text K cr2 v e m"
    using r(5) exception_text_no_code by blast
  then have "exception_handler K cr2 v (mem m2) (gpr m2 RDI) (gpr m2 RSI) ser =
      Some (Inr ((if v = 3 then Returns else Halts) (ser\<lparr>ser_out := ser_out ser @ exception_text K cr2 v e m\<rparr>)))"
    using exception_handler_prints [OF assms(1) frame_ref_frame [OF r(6) frame_pointer_aligned [OF assms(5)]] assms(4),
        of K cr2 "gpr m2 RSI"] unfolding r(4) by simp
  then show ?thesis using r by blast
qed


definition sample_printers :: printers where
  "sample_printers = \<lparr>flags_fmt = hex_field 1, cr2_fmt = hex_field 16, ec_fmt = hex_field 1\<rparr>"


text \<open>
  After a breakpoint, when its handler has returned, the interrupted code goes on where it was, with its
  flags and its stack; its scratch registers are what the handler left.
\<close>

lemma breakpoint_resumes:
  fixes m :: machine
  assumes "idt_init L sel s0 = Inr s1" "IDT s1 = Some t"
  shows "\<exists>m1 m2. raise_exception t 3 None m = Some m1 \<and> exec (exception_code R 3) m1 = Transferred m2 \<and>
    (\<forall>m3. c_returns m2 m3 \<longrightarrow> exec (after_call (exception_code R 3)) m3 =
      Transferred (m3\<lparr>rip := rip m, cs := cs m, rflags := rflags m, gpr := (gpr m3)(RSP := gpr m RSP), ss := ss m\<rparr>))"
proof -
  let ?a = "gpr m RSP AND NOT 15"
  have h: "3 \<in> exceptions" "error_code 3 0 = None" by (simp_all add: exceptions_def error_code_def)
  obtain m1 m2 where r: "raise_exception t 3 None m = Some m1" "exec (exception_code R 3) m1 = Transferred m2"
    "gpr m2 RSP = ?a - 48" "frame_at (?a - 40) (iret_frame m) (mem m2)"
    using exception_entered [OF h(1) assms refl, of 0 m R] unfolding h(2) by blast
  have "exec (after_call (exception_code R 3)) m3 =
      Transferred (m3\<lparr>rip := rip m, cs := cs m, rflags := rflags m, gpr := (gpr m3)(RSP := gpr m RSP), ss := ss m\<rparr>)"
    if c: "c_returns m2 m3" for m3
  proof -
    have sp: "gpr m3 RSP = ?a - 40" "\<forall>b\<in>window (?a - 40) 5. mem m3 b = mem m2 b"
      using c unfolding c_returns_def r(3) by simp_all
    have "frame_at (gpr m3 RSP) (iret_frame m) (mem m3)"
      unfolding sp(1) using r(4) by (subst frame_at_window_cong [OF sp(2)]) (simp_all only: length_iret_frame)
    then have "exec [Iretq] m3 = Transferred (m3\<lparr>rip := rip m, cs := cs m, rflags := rflags m,
        gpr := (gpr m3)(RSP := gpr m RSP), ss := ss m\<rparr>)"
      unfolding iret_frame_def by (rule exec_iretq)
    then show ?thesis by (simp add: exception_code_def handler_def)
  qed
  then show ?thesis using r(1,2) by blast
qed

section \<open>The reports are unambiguous\<close>

text \<open>
  The report of an interrupt frame determines the frame: two frames with the same text have the same
  instruction pointer, stack pointer and segments, and flags with the same text, as long as the text
  of flags stays on one line.
\<close>

theorem frame_report_unambiguous:
  assumes "\<And>w. CHR 0x0A \<notin> set (flags_fmt K w)"
    and "InterruptStackFrame_fmt K True f = InterruptStackFrame_fmt K True g"
  shows "isf_ip f = isf_ip g \<and> isf_cs f = isf_cs g \<and> isf_sp f = isf_sp g \<and> isf_ss f = isf_ss g \<and>
    flags_fmt K (isf_rflags f) = flags_fmt K (isf_rflags g)"
proof -
  have d: "CHR '','' \<notin> set ''0123456789abcdef''" by simp
  have ip: "isf_ip f = isf_ip g" and "dec (unat (isf_cs f)) @ '','' @ newline @ ''  rflags: '' @ flags_fmt K (isf_rflags f) @ '','' @ newline @
        ''  sp: '' @ hex_field 16 (isf_sp f) @ '','' @ newline @ ''  ss: '' @ dec (unat (isf_ss f)) @ newline @ ''}'' =
      dec (unat (isf_cs g)) @ '','' @ newline @ ''  rflags: '' @ flags_fmt K (isf_rflags g) @ '','' @ newline @
        ''  sp: '' @ hex_field 16 (isf_sp g) @ '','' @ newline @ ''  ss: '' @ dec (unat (isf_ss g)) @ newline @ ''}''"
    using assms(2) by (simp_all add: InterruptStackFrame_fmt_def hex_field_inj)
  then have cs: "unat (isf_cs f) = unat (isf_cs g)" and eq:
    "(flags_fmt K (isf_rflags f) @ '','') @ CHR 0x0A #
        ''  sp: '' @ hex_field 16 (isf_sp f) @ '','' @ newline @ ''  ss: '' @ dec (unat (isf_ss f)) @ newline @ ''}'' =
      (flags_fmt K (isf_rflags g) @ '','') @ CHR 0x0A #
        ''  sp: '' @ hex_field 16 (isf_sp g) @ '','' @ newline @ ''  ss: '' @ dec (unat (isf_ss g)) @ newline @ ''}''"
    by (simp_all add: dec_split [OF d])
  have nl: "CHR 0x0A \<notin> set (flags_fmt K w @ '','')" for w using assms(1) by simp
  have fl: "flags_fmt K (isf_rflags f) @ '','' = flags_fmt K (isf_rflags g) @ '',''" and
    "''  sp: '' @ hex_field 16 (isf_sp f) @ '','' @ newline @ ''  ss: '' @ dec (unat (isf_ss f)) @ newline @ ''}'' =
     ''  sp: '' @ hex_field 16 (isf_sp g) @ '','' @ newline @ ''  ss: '' @ dec (unat (isf_ss g)) @ newline @ ''}''"
    using split_at_sep [OF nl nl eq] by blast+
  then have "isf_sp f = isf_sp g" "unat (isf_ss f) = unat (isf_ss g)"
    by (simp_all add: hex_field_inj dec_inj)
  then show ?thesis using ip cs fl by (simp add: unsigned_word_eqI)
qed

theorem frame_report_unambiguous_witness:
  "InterruptStackFrame_fmt sample_printers True (interrupted sample_interrupted) \<noteq>
    InterruptStackFrame_fmt sample_printers True (interrupted (sample_interrupted\<lparr>rip := 0x6001\<rparr>))"
proof
  have "CHR 0x0A \<notin> set (flags_fmt sample_printers w)" for w
    using set_digits [of 16 "unat w"] by (auto simp: sample_printers_def hex_field_def pad_def hex_def)
  moreover assume "InterruptStackFrame_fmt sample_printers True (interrupted sample_interrupted) =
    InterruptStackFrame_fmt sample_printers True (interrupted (sample_interrupted\<lparr>rip := 0x6001\<rparr>))"
  ultimately have "isf_ip (interrupted sample_interrupted) = isf_ip (interrupted (sample_interrupted\<lparr>rip := 0x6001\<rparr>))"
    using frame_report_unambiguous by blast
  then show False by (simp add: interrupted_def sample_interrupted_def)
qed

text \<open>A panic ends with interrupts off and its text printed, unless it came while the line was locked.\<close>

lemma panic_handler_ends:
  "panic_handler info s = (if ser_locked s then None else
     Some (Halts (s\<lparr>ser_interrupts := False, ser_out := ser_out s @ ''--- PANIC! ---'' @ newline @ info @ newline\<rparr>)))"
  by (simp add: panic_handler_def)

end
