(* ===== verification/Dormant.thy ===== *)
theory Dormant
  imports Exceptions Frame_Properties Timers Boot_Protocol Stack Scheduler
begin

text \<open>
  Code that the kernel contains and does not run: the support for FRED event delivery behind a
  feature flag (\<^verbatim>\<open>fred.rs\<close>, \<^verbatim>\<open>fred.s\<close>), fields of device registers that nothing reads or writes, the
  debug printers of the frame allocator and of the interval timer, the structures that describe stack frames, and
  stubs.
\<close>

section \<open>FRED\<close>

definition fred_ring3 :: "unit res" where "fred_ring3 = Inl Unimplemented"
definition fred_ring0 :: "unit res" where "fred_ring0 = Inl Unimplemented"

definition csl :: "u64 bitfield_ops \<Rightarrow> u64 \<Rightarrow> u8" where
  "csl P c = ucast (get_bits P c 1 0)"

definition will_decr_ssp :: "u64 bitfield_ops \<Rightarrow> u64 \<Rightarrow> bool" where
  "will_decr_ssp P c \<longleftrightarrow> get_bits P c 3 3 \<noteq> 0"

definition set_decr_ssp :: "u64 bitfield_ops \<Rightarrow> bool \<Rightarrow> u64 \<Rightarrow> u64" where
  "set_decr_ssp P b c = put_bits P c 3 3 (of_bool b)"

definition n_lines_decr :: "u64 bitfield_ops \<Rightarrow> u64 \<Rightarrow> u8" where
  "n_lines_decr P c = ucast (get_bits P c 8 6)"

definition sl_on_cpl0 :: "u64 bitfield_ops \<Rightarrow> u64 \<Rightarrow> u8" where
  "sl_on_cpl0 P c = ucast (get_bits P c 10 9)"

definition set_sl_on_cpl0 :: "u64 bitfield_ops \<Rightarrow> u8 \<Rightarrow> u64 \<Rightarrow> u64" where
  "set_sl_on_cpl0 P v c = put_bits P c 10 9 (ucast v)"

definition handler_addr_upper :: "u64 bitfield_ops \<Rightarrow> u64 \<Rightarrow> u64" where
  "handler_addr_upper P c = get_bits P c 63 12"

definition set_handler_addr_upper :: "u64 bitfield_ops \<Rightarrow> u64 \<Rightarrow> u64 \<Rightarrow> u64" where
  "set_handler_addr_upper P v c = put_bits P c 63 12 v"

text \<open>\<open>msr\<close> reads a model specific register, \<open>entry\<close> is the link address of the entry point.\<close>

definition fred_init :: "(u32 \<Rightarrow> u64) \<Rightarrow> u64 \<Rightarrow> serial \<Rightarrow> serial option" where
  "fred_init msr entry s =
     (let curconfig = msr 0x1d4 in
      Option.bind (serial_println (''FRED config: '' @ dec (unat curconfig)) s) (\<lambda>s1.
      serial_println (''FRED entry: '' @ hex_field 8 entry) s1))"

text \<open>The entry point of \<^verbatim>\<open>fred.s\<close>: a stub per ring, 256 bytes apart, at the start of a page.\<close>

definition fred_entry_point :: "u64 \<Rightarrow> u64 \<Rightarrow> (nat \<times> instr list) list" where
  "fred_entry_point ring3 ring0 = [(0, [Jmp ring3]), (256, [Jmp ring0])]"

text \<open>
  The processor delivers an event from ring 3 at the address in the configuration, and one from
  ring 0 at 256 bytes above it.
\<close>

definition fred_target :: "u64 bitfield_ops \<Rightarrow> bool \<Rightarrow> u64 \<Rightarrow> u64" where
  "fred_target P from_user c = push_bit 12 (handler_addr_upper P c) + (if from_user then 0 else 256)"

text \<open>
  If the page of the entry point were written to the configuration, each ring would reach its stub and
  jump to its function, and the other fields would keep their values.
\<close>

lemma fred_delivers:
  assumes "bitfield_crate P" "take_bit 12 entry = 0" "c' = set_handler_addr_upper P (drop_bit 12 entry) c"
  shows "fred_target P u c' = entry + (if u then 0 else 256)"
    "\<exists>code m'. map_of (fred_entry_point r3 r0) (if u then 0 else 256) = Some code \<and>
      exec code m = Transferred m' \<and> rip m' = (if u then r3 else r0)"
    "csl P c' = csl P c" "will_decr_ssp P c' = will_decr_ssp P c" "n_lines_decr P c' = n_lines_decr P c"
    "sl_on_cpl0 P c' = sl_on_cpl0 P c"
proof -
  note laws = bitfield_crate.bit_get_bits [OF assms(1)] bitfield_crate.bit_put_bits [OF assms(1)]
  have low: "\<not> bit entry n" if "n < 12" for n
    using assms(2) that by (metis bit_0_eq bit_take_bit_iff bot_apply bot_bool_def)
  have "handler_addr_upper P c' = drop_bit 12 entry"
    by (rule bit_word_eqI) (auto simp: assms(3) handler_addr_upper_def set_handler_addr_upper_def laws bit_simps
        dest: bit_imp_le_length)
  moreover have "push_bit 12 (drop_bit 12 entry) = entry"
  proof (rule bit_word_eqI)
    fix n
    assume "n < LENGTH(64)"
    then show "bit (push_bit 12 (drop_bit 12 entry)) n = bit entry n"
      by (cases "n < 12") (simp_all add: bit_simps low)
  qed
  ultimately show "fred_target P u c' = entry + (if u then 0 else 256)" by (simp add: fred_target_def)
  show "\<exists>code m'. map_of (fred_entry_point r3 r0) (if u then 0 else 256) = Some code \<and>
      exec code m = Transferred m' \<and> rip m' = (if u then r3 else r0)"
    by (simp add: fred_entry_point_def)
  note other = bitfield_crate.get_put_other [OF assms(1)]
  show "csl P c' = csl P c" "will_decr_ssp P c' = will_decr_ssp P c" "n_lines_decr P c' = n_lines_decr P c"
    "sl_on_cpl0 P c' = sl_on_cpl0 P c"
    by (simp_all add: assms(3) set_handler_addr_upper_def csl_def will_decr_ssp_def n_lines_decr_def sl_on_cpl0_def other)
qed

section \<open>Fields of device registers\<close>

text \<open>The modes of a redirection entry; a value that is none of them has no defined meaning: \<open>None\<close>.\<close>

datatype DeliveryMode = Normal | LowPriority | SystemManagement | NonMaskable | Init | External
datatype DestinationMode = Physical | Logical
datatype Polarity = ActiveHigh | ActiveLow
datatype TriggerMode = EdgeTriggered | LevelTriggered

fun DeliveryMode_bits :: "DeliveryMode \<Rightarrow> u8" where
  "DeliveryMode_bits Normal = 0"
| "DeliveryMode_bits LowPriority = 1"
| "DeliveryMode_bits SystemManagement = 2"
| "DeliveryMode_bits NonMaskable = 4"
| "DeliveryMode_bits Init = 5"
| "DeliveryMode_bits External = 7"

definition DeliveryMode_of :: "u8 \<Rightarrow> DeliveryMode option" where
  "DeliveryMode_of v =
     (if v = 0 then Some Normal else if v = 1 then Some LowPriority else if v = 2 then Some SystemManagement
      else if v = 4 then Some NonMaskable else if v = 5 then Some Init else if v = 7 then Some External else None)"

fun DestinationMode_bits :: "DestinationMode \<Rightarrow> u8" where
  "DestinationMode_bits Physical = 0"
| "DestinationMode_bits Logical = 1"

definition DestinationMode_of :: "u8 \<Rightarrow> DestinationMode option" where
  "DestinationMode_of v = (if v = 0 then Some Physical else if v = 1 then Some Logical else None)"

definition delivery_mode :: "u64 \<Rightarrow> DeliveryMode option res" where
  "delivery_mode e = bindR (cenum_bit_range e 10 8) (\<lambda>v. Inr (DeliveryMode_of v))"

definition set_delivery_mode :: "DeliveryMode \<Rightarrow> u64 \<Rightarrow> u64 res" where
  "set_delivery_mode m e = cenum_set_bit_range e 10 8 (DeliveryMode_bits m)"

definition destination_mode :: "u64 \<Rightarrow> DestinationMode option res" where
  "destination_mode e = bindR (cenum_bit_range e 11 11) (\<lambda>v. Inr (DestinationMode_of v))"

definition set_destination_mode :: "DestinationMode \<Rightarrow> u64 \<Rightarrow> u64 res" where
  "set_destination_mode m e = cenum_set_bit_range e 11 11 (DestinationMode_bits m)"

definition is_waiting :: "u64 bitfield_ops \<Rightarrow> u64 \<Rightarrow> bool" where
  "is_waiting P e \<longleftrightarrow> get_bits P e 12 12 \<noteq> 0"

definition is_accepted :: "u64 bitfield_ops \<Rightarrow> u64 \<Rightarrow> bool" where
  "is_accepted P e \<longleftrightarrow> get_bits P e 14 14 \<noteq> 0"

definition destination :: "u64 bitfield_ops \<Rightarrow> u64 \<Rightarrow> u8" where
  "destination P e = ucast (get_bits P e 63 56)"

definition set_destination :: "u64 bitfield_ops \<Rightarrow> u8 \<Rightarrow> u64 \<Rightarrow> u64" where
  "set_destination P v e = put_bits P e 63 56 (ucast v)"

text \<open>The fields of \<^verbatim>\<open>TimerConfig\<close> of the HPET.\<close>

definition supports_fsb :: "u64 bitfield_ops \<Rightarrow> u64 \<Rightarrow> bool" where
  "supports_fsb P c \<longleftrightarrow> get_bits P c 15 15 \<noteq> 0"

definition set_fsb :: "u64 bitfield_ops \<Rightarrow> bool \<Rightarrow> u64 \<Rightarrow> u64" where
  "set_fsb P b c = put_bits P c 14 14 (of_bool b)"

definition set_32bit :: "u64 bitfield_ops \<Rightarrow> bool \<Rightarrow> u64 \<Rightarrow> u64" where
  "set_32bit P b c = put_bits P c 8 8 (of_bool b)"

definition is_64bit :: "u64 bitfield_ops \<Rightarrow> u64 \<Rightarrow> bool" where
  "is_64bit P c \<longleftrightarrow> get_bits P c 5 5 \<noteq> 0"

definition supports_periodic :: "u64 bitfield_ops \<Rightarrow> u64 \<Rightarrow> bool" where
  "supports_periodic P c \<longleftrightarrow> get_bits P c 4 4 \<noteq> 0"

definition set_level :: "u64 bitfield_ops \<Rightarrow> bool \<Rightarrow> u64 \<Rightarrow> u64" where
  "set_level P b c = put_bits P c 1 1 (of_bool b)"

definition counter :: "hpet_regs \<Rightarrow> u64" where
  "counter h = h MC_VALUE_OFFSET"

text \<open>A mode that is written is read back, and the vector, the mask and the destination stay.\<close>

lemma delivery_mode_roundtrip:
  "\<exists>e'. set_delivery_mode m e = Inr e' \<and> delivery_mode e' = Inr (Some m) \<and> (\<forall>n. n < 8 \<or> 10 < n \<longrightarrow> bit e' n = bit e n)"
proof -
  have "unat (DeliveryMode_bits m) < 2 ^ (10 - 8 + 1)" by (cases m) simp_all
  then obtain e' where "cenum_set_bit_range e 10 8 (DeliveryMode_bits m) = Inr e'"
    "cenum_bit_range e' 10 8 = Inr (DeliveryMode_bits m)" "\<forall>n. n < 8 \<or> 10 < n \<longrightarrow> bit e' n = bit e n"
    using cenum_roundtrip [of 8 10 "DeliveryMode_bits m" e] by auto
  moreover have "DeliveryMode_of (DeliveryMode_bits m) = Some m" by (cases m) (simp_all add: DeliveryMode_of_def)
  ultimately show ?thesis by (simp add: set_delivery_mode_def delivery_mode_def)
qed

section \<open>Debug printers\<close>

text \<open>The interval timer's counter, a fixed point number.\<close>

definition debug_timer :: "pit_state \<Rightarrow> serial \<Rightarrow> serial option" where
  "debug_timer p s =
     (let timer = TIMER_COUNTER p in
      serial_println (''current pit counter: '' @ dec (unat (drop_bit FP_WIDTH timer)) @ '' ('' @
        hex (unat (drop_bit FP_WIDTH timer)) @ ''.'' @ pad CHR '' '' 6 (hex (unat (timer AND (push_bit FP_WIDTH 1 - 1)))) @ '')'') s)"

definition index_to_frame :: "x86_ops \<Rightarrow> nat \<Rightarrow> nat res" where
  "index_to_frame X index = bindR (index_to_addr X index) (\<lambda>a. Inr (frame_containing X PAGE_SIZE a))"

text \<open>\<open>iter_ones B b s e\<close> lists the positions of the ones in \<^verbatim>\<open>b[s..e]\<close>, relative to \<open>s\<close>, as the crate does.\<close>

definition iter_ones :: "'b bit_ops \<Rightarrow> 'b \<Rightarrow> nat \<Rightarrow> nat \<Rightarrow> nat list" where
  "iter_ones B b s e = filter (\<lambda>i. bit_get B b (s + i) = Inr True) [0..<e - s]"

fun debug_chunks :: "x86_ops \<Rightarrow> (nat \<Rightarrow> string) \<Rightarrow> nat \<Rightarrow> nat list \<Rightarrow> serial \<Rightarrow> serial res option" where
  "debug_chunks X pa_fmt level [] s = Some (Inr s)"
| "debug_chunks X pa_fmt level (i # is) s =
     (case relative_index_to_addr X (i, level) of Inl e \<Rightarrow> Some (Inl e) | Inr a \<Rightarrow>
        Option.bind (serial_println (pa_fmt a) s) (debug_chunks X pa_fmt level is))"

fun debug_levels ::
  "x86_ops \<Rightarrow> 'b bit_ops \<Rightarrow> (nat \<Rightarrow> string) \<Rightarrow> 'b RuneFrameAllocator \<Rightarrow> nat list \<Rightarrow> serial \<Rightarrow> serial res option" where
  "debug_levels X B pa_fmt self [] s = Some (Inr s)"
| "debug_levels X B pa_fmt self (level # levels) s =
     Option.bind (serial_println (''+++ BUDDY LEVEL '' @ dec level @ '' +++'') s) (\<lambda>s1.
     case bindR (level_offset level) (\<lambda>b. bindR (level_offset (level + 1)) (\<lambda>e.
       Inr (iter_ones B (buddy_bytes self) b e))) of
       Inl e \<Rightarrow> Some (Inl e)
     | Inr is \<Rightarrow> Option.bind (debug_chunks X pa_fmt level is s1) (\<lambda>r.
         case r of Inl e \<Rightarrow> Some (Inl e) | Inr s2 \<Rightarrow> debug_levels X B pa_fmt self levels s2))"

definition debug :: "x86_ops \<Rightarrow> 'b bit_ops \<Rightarrow> (nat \<Rightarrow> string) \<Rightarrow> 'b RuneFrameAllocator \<Rightarrow> serial \<Rightarrow> serial res option" where
  "debug X B pa_fmt self s = debug_levels X B pa_fmt self (rev [0..<BUDDY_LEVELS]) s"

text \<open>The chunks of a level that are free, and what is printed of them.\<close>

definition free_chunks :: "nat set \<Rightarrow> nat \<Rightarrow> nat list" where
  "free_chunks S l = filter (\<lambda>k. level_start l + k \<in> S) [0..<2 ^ (24 - l)]"

definition level_text :: "(nat \<Rightarrow> string) \<Rightarrow> nat set \<Rightarrow> nat \<Rightarrow> string" where
  "level_text pa_fmt S l = ''+++ BUDDY LEVEL '' @ dec l @ '' +++'' @ newline @
     concat (map (\<lambda>k. pa_fmt (k * 2 ^ l * PAGE_SIZE) @ newline) (free_chunks S l))"

lemma debug_chunks_prints:
  assumes "x86_64 X" "\<not> ser_locked s" "\<forall>k\<in>set ks. k < 2 ^ (24 - l)" "l < 16"
  shows "debug_chunks X pa_fmt l ks s =
    Some (Inr (s\<lparr>ser_out := ser_out s @ concat (map (\<lambda>k. pa_fmt (k * 2 ^ l * PAGE_SIZE) @ newline) ks)\<rparr>))"
  using assms(2,3)
proof (induction ks arbitrary: s)
  case (Cons k ks)
  have k: "k < 2 ^ (24 - l)" using Cons.prems(2) by simp
  then have "k * 2 ^ l < 2 ^ (24 - l) * 2 ^ l" by simp
  also have "\<dots> = 2 ^ 24" using assms(4) by (simp flip: power_add)
  finally have b: "k * 4096 * 2 ^ l < 2 ^ 36" by simp
  have "k * 4096 \<le> k * 4096 * 2 ^ l" by simp
  then have "k * 4096 < 2 ^ 36" using b by (rule le_less_trans)
  then have "k * 4096 < 2 ^ 64" by simp
  then have "relative_index_to_addr X (k, l) = Inr (k * 2 ^ l * PAGE_SIZE)"
    using b assms(4) x86_64.pa_new [OF assms(1), of "k * 4096 * 2 ^ l"]
    by (simp add: relative_index_to_addr_def PAGE_SIZE_def ushl_ok mult.commute mult.left_commute)
  then show ?case using Cons by simp
qed simp

text \<open>
  The dump of the frame allocator does not panic and lists the free chunks, level by level from the
  largest, each with its address. Together they are the free frames.
\<close>

theorem debug_lists_free:
  assumes "x86_64 X" "bit_array B TOTAL_BUDDY_BITS" "\<not> ser_locked s"
  shows "debug X B pa_fmt self s = Some (Inr (s\<lparr>ser_out := ser_out s @
      concat (map (level_text pa_fmt (bits B (buddy_bytes self))) (rev [0..<16]))\<rparr>)) \<and>
    free_of B self = (\<Union>l<16. \<Union>k\<in>set (free_chunks (bits B (buddy_bytes self)) l). chunk k l)"
proof -
  let ?S = "bits B (buddy_bytes self)"
  have ones: "iter_ones B (buddy_bytes self) (level_start l) (level_start (Suc l)) = free_chunks ?S l" if "l < 16" for l
    using that by (simp add: iter_ones_def free_chunks_def bits_def level_start_Suc)
  have "debug_levels X B pa_fmt self ls s =
      Some (Inr (s\<lparr>ser_out := ser_out s @ concat (map (level_text pa_fmt ?S) ls)\<rparr>))" if "\<forall>l\<in>set ls. l < 16" for ls
    using that assms(3)
  proof (induction ls arbitrary: s)
    case (Cons l ls)
    have "\<forall>k\<in>set (free_chunks ?S l). k < 2 ^ (24 - l)" by (simp add: free_chunks_def)
    then show ?case
      using Cons ones [of l] debug_chunks_prints [OF assms(1), of _ "free_chunks ?S l" l]
      by (simp add: level_text_def)
  qed simp
  then have "debug X B pa_fmt self s = Some (Inr (s\<lparr>ser_out := ser_out s @
      concat (map (level_text pa_fmt ?S) (rev [0..<16]))\<rparr>))" by (simp add: debug_def)
  moreover have "free_of B self = (\<Union>l<16. \<Union>k\<in>set (free_chunks ?S l). chunk k l)"
  proof -
    have i: "f < N_FRAMES \<longleftrightarrow> f div 2 ^ l < 2 ^ (24 - l)" if "l < 16" for f l
      using that by (simp add: N_FRAMES_def div_less_iff_less_mult flip: power_add)
    show ?thesis using i by (auto simp: free_frames_def free_at_def free_chunks_def mem_chunk)
  qed
  ultimately show ?thesis ..
qed

section \<open>Stubs\<close>

definition make_user_stack :: "unit res" where "make_user_stack = Inl Unimplemented"
definition UserStackMap_flush :: "unit res" where "UserStackMap_flush = Inl Unimplemented"

text \<open>\<^verbatim>\<open>hdconf::init\<close> adds two addresses and drops the sum.\<close>

definition hdconf_init :: "x86_ops \<Rightarrow> boot \<Rightarrow> nat \<Rightarrow> unit res" where
  "hdconf_init X b phys_offset = bindR (rsdp_addr b) (\<lambda>r. bindR (va_add X phys_offset r) (\<lambda>_. Inr ()))"

text \<open>The conversions of \<^verbatim>\<open>Cast\<close> are \<^verbatim>\<open>as\<close>: they keep the value if it fits, and its low bits otherwise.\<close>

definition cast :: "'a::len word \<Rightarrow> 'b::len word" where
  "cast self = ucast self"

lemma cast_value: "unat (cast w :: 'b::len word) = unat w mod 2 ^ LENGTH('b)"
  by (simp add: cast_def unsigned_ucast_eq take_bit_eq_mod)

section \<open>The stack frames of the scheduler\<close>

text \<open>The structures that describe the saved registers; only the assembly builds and reads such frames.\<close>

record StandardStackFrame =
  sf_rbx :: u64
  sf_rbp :: u64
  sf_r12 :: u64
  sf_r13 :: u64
  sf_r14 :: u64
  sf_r15 :: u64

record InterruptedStackFrame =
  if_rflags :: u64
  if_rax :: u64
  if_rcx :: u64
  if_rdx :: u64
  if_rsi :: u64
  if_rdi :: u64
  if_r8 :: u64
  if_r9 :: u64
  if_r10 :: u64
  if_r11 :: u64
  standard :: StandardStackFrame

definition standard_words :: "StandardStackFrame \<Rightarrow> u64 list" where
  "standard_words f = [sf_rbx f, sf_rbp f, sf_r12 f, sf_r13 f, sf_r14 f, sf_r15 f]"

definition interrupted_words :: "InterruptedStackFrame \<Rightarrow> u64 list" where
  "interrupted_words f = [if_rflags f, if_rax f, if_rcx f, if_rdx f, if_rsi f, if_rdi f, if_r8 f, if_r9 f, if_r10 f, if_r11 f] @
     standard_words (standard f)"

text \<open>
  A preempted task leaves such a frame, and a task that yields its last part; both at descending
  addresses, while the attribute \<^verbatim>\<open>repr(C)\<close> puts the fields at ascending ones. The frames of both
  kinds agree in their lowest six quadwords, from which every resumption starts.
\<close>

lemma preempted_frame:
  "\<exists>f. preempted_context m p = (True, rev (interrupted_words f) @ iret_frame m) \<and> if_rflags f = rflags m \<and>
     if_rax f = gpr m RAX \<and> if_r11 f = gpr m R11 \<and> sf_rbx (standard f) = gpr m RBX \<and> sf_r13 (standard f) = gpr m R13 \<and>
     sf_r14 (standard f) = TASKID_SCHEDULER \<and> sf_r15 (standard f) = mem m (p + 8)"
proof -
  let ?s = "\<lparr>sf_rbx = gpr m RBX, sf_rbp = gpr m RBP, sf_r12 = gpr m R12, sf_r13 = gpr m R13,
      sf_r14 = TASKID_SCHEDULER, sf_r15 = mem m (p + 8)\<rparr>"
  show ?thesis
    by (rule exI [of _ "\<lparr>if_rflags = rflags m, if_rax = gpr m RAX, if_rcx = gpr m RCX, if_rdx = gpr m RDX, if_rsi = gpr m RSI,
          if_rdi = gpr m RDI, if_r8 = gpr m R8, if_r9 = gpr m R9, if_r10 = gpr m R10, if_r11 = gpr m R11, standard = ?s\<rparr>"])
      (simp add: preempted_context_def preempted_values_def interrupted_words_def standard_words_def)
qed

lemma yielded_frame:
  "take 6 (snd (yielded_context L m)) = rev (standard_words \<lparr>sf_rbx = gpr m RBX, sf_rbp = gpr m RBP, sf_r12 = gpr m R12,
     sf_r13 = gpr m R13, sf_r14 = gpr m R14, sf_r15 = gpr m R15\<rparr>)"
  by (simp add: yielded_context_def released_values_def standard_words_def)

end
