(* ===== verification/Kernel.thy ===== *)
theory Kernel
  imports Spawn Gdt Framebuffer Uacpi
begin

text \<open>
  The start of the kernel, \<^verbatim>\<open>kmain\<close> of \<^verbatim>\<open>main.rs\<close>, from the check of the boot protocol to the first
  task. What the boot loader, the firmware and the devices answer is in the record \<open>platform\<close>;
  the traces on the serial line are left out. A result \<open>None\<close> is a start that does not come to
  an end. This theory has the definitions and the first part, up to the heap; \<open>Kernel_Devices\<close> and
  \<open>Kernel_Tasks\<close> have the rest.
\<close>

section \<open>The code\<close>

definition kmain_checks :: "boot \<Rightarrow> unit res" where
  "kmain_checks b =
     bindR (assertR (is_base_revision_supported b)) (\<lambda>_.
     bindR (paging_mode b) (\<lambda>mode. assertR (mode = L4)))"

definition supports_fred :: "u32 \<Rightarrow> bool" where
  "supports_fred cpuflags \<longleftrightarrow> bit cpuflags 17"

text \<open>
  \<^verbatim>\<open>paging::init\<close>: \<open>cr3\<close> is the physical address of the page table in use, which the kernel reaches in the
  direct map.
\<close>

definition active_l4_page_table :: "x86_ops \<Rightarrow> nat \<Rightarrow> nat \<Rightarrow> nat res" where
  "active_l4_page_table X cr3 phys_offset = bindR (va_add X phys_offset cr3) (\<lambda>virt. ref_to 4096 virt virt)"

definition paging_init :: "x86_ops \<Rightarrow> nat \<Rightarrow> vmem_addrs \<Rightarrow> nat res" where
  "paging_init X cr3 V = active_l4_page_table X cr3 (HHDM_ADDR V)"

text \<open>\<open>table\<close> is the mapper of the crate over that page table.\<close>

definition kmain_memory ::
  "x86_ops \<Rightarrow> 'b bit_ops \<Rightarrow> ('m, 'b) mapper_ops \<Rightarrow> 'h heap_ops \<Rightarrow> 'g gdt_ops \<Rightarrow> nat \<Rightarrow> idt_symbols \<Rightarrow> nat \<Rightarrow> boot \<Rightarrow>
   'm \<Rightarrow> 'b \<Rightarrow> 'h FixedSizeBlockAllocator \<Rightarrow> 'g segments \<Rightarrow> idt_state \<Rightarrow>
   (vmem_addrs \<times> 'g segments \<times> idt_state \<times> ('m, 'b) MapperAllocator \<times> 'h FixedSizeBlockAllocator) res" where
  "kmain_memory X B M A G tss D cr3 b table zeroed heap segs idt =
     bindR (hhdm_offset b) (\<lambda>h.
     bindR (rsdp_addr b) (\<lambda>r.
     bindR (vmem_init X h r) (\<lambda>V.
     bindR (gdt_init G tss segs) (\<lambda>segs1.
     bindR (idt_init D (reg_cs segs1) idt) (\<lambda>idt1.
     bindR (expectR (memmap_entries b)) (\<lambda>es.
     bindR (paging_init X cr3 V) (\<lambda>_.
     bindR (new X B zeroed es) (\<lambda>frame_allocator.
     bindR (heap_init X B M A \<lparr>mapper = table, allocator = frame_allocator\<rparr> heap) (\<lambda>(mapall, heap1).
     Inr (V, segs1, idt1, mapall, heap1))))))))))"

definition hello :: "u32 list" where
  "hello = map (\<lambda>c. of_nat (of_char c)) ''Hello, world!''"

definition kmain_screen :: "(nat \<Rightarrow> u32) \<Rightarrow> PSFFontHeader \<Rightarrow> u8 list \<Rightarrow> boot \<Rightarrow> video \<Rightarrow> video res" where
  "kmain_screen icon H font b m =
     (case Option.bind (framebuffers b) (\<lambda>fs. case fs of [] \<Rightarrow> None | f # _ \<Rightarrow> Some f) of
        None \<Rightarrow> Inr m
      | Some fb \<Rightarrow> bindR (draw_icon icon fb m) (print_str_at H font fb \<lparr>px = 0, py = 0\<rparr> hello))"

text \<open>
  Running an iterator to its end. The first loop over the table does that, so the later searches
  see the same, finite, list.
\<close>

partial_function (option) drain :: "'a iter \<Rightarrow> 'a list res option" where
  "drain it = (case it of Done \<Rightarrow> Some (Inr []) | Panics e \<Rightarrow> Some (Inl e)
     | Yield x r \<Rightarrow> Option.bind (drain r) (\<lambda>t. Some (bindR t (\<lambda>xs. Inr (x # xs)))))"

fun find_ioapic ::
  "x86_ops \<Rightarrow> ('m, 'b) mapper_ops \<Rightarrow> MADTEntry list \<Rightarrow> nat \<Rightarrow> ('m, 'b) MapperAllocator \<Rightarrow>
   (IOApic \<times> nat \<times> ('m, 'b) MapperAllocator) res" where
  "find_ioapic X M [] nxt mapall = Inl UnwrapFailed"
| "find_ioapic X M (IOApic e # es) nxt mapall = IOApic_new X M e nxt mapall"
| "find_ioapic X M (_ # es) nxt mapall = find_ioapic X M es nxt mapall"

fun register_overrides ::
  "u64 bitfield_ops \<Rightarrow> MADTEntry list \<Rightarrow> IOApic \<Rightarrow> ioapic_dev \<Rightarrow> (IOApic \<times> ioapic_dev) res" where
  "register_overrides P [] self d = Inr (self, d)"
| "register_overrides P (IOApicOverride e # es) self d =
     bindR (register_override P e self d) (\<lambda>(self1, d1). register_overrides P es self1 d1)"
| "register_overrides P (_ # es) self d = register_overrides P es self d"

record 'u platform =
  p_boot :: boot
  p_cr3 :: nat
  apic_frame :: nat
  acpi_status :: nat
  acpi_mem :: bytes
  acpi_tables :: 'u
  pit_wait_effect :: "clock_state \<Rightarrow> clock_state"
  lapic_current :: u32
  late_irqs :: "irq list"
  sleep_turns :: "(irq list \<times> irq) list"

record devices =
  d_ioapic :: ioapic_dev
  d_pit :: pit_state
  d_clock :: clock_state
  d_hpet :: hpet_regs
  d_next :: nat

text \<open>From the initialisation of uACPI to the calibrated timer and the three seconds of sleep on it.\<close>

definition kmain_controllers ::
  "x86_ops \<Rightarrow> ('m, 'b) mapper_ops \<Rightarrow> u64 bitfield_ops \<Rightarrow> 'u acpi_ops \<Rightarrow> 'u platform \<Rightarrow> ('m, 'b) MapperAllocator \<Rightarrow>
   devices \<Rightarrow> (('m, 'b) MapperAllocator \<times> IOApic \<times> 'u \<times> devices) res option" where
  "kmain_controllers X M P U pf mapall dv =
     (case bindR (expectR (init_acpi (acpi_status pf))) (\<lambda>_.
       bindR (madt_table U (acpi_tables pf)) (\<lambda>(madt_handle, u).
       bindR (MADTHandle_as_ref X madt_handle) (\<lambda>madt. Inr (madt, u)))) of
        Inl e \<Rightarrow> Some (Inl e)
      | Inr (madt, u) \<Rightarrow>
     Option.bind (drain (madt_entries (acpi_mem pf) madt)) (\<lambda>t.
     case bindR t (\<lambda>es.
       bindR (find_ioapic X M es (d_next dv) mapall) (\<lambda>(ioapic, nxt, mapall1).
       bindR (register_overrides P es ioapic (d_ioapic dv)) (\<lambda>(ioapic1, d1).
       bindR (init_pit P ioapic1 d1 (d_pit dv)) (\<lambda>(d2, pit).
       bindR (setup_timer_pit (pit_wait_effect pf) (lapic_current pf) (d_clock dv)) (\<lambda>clk.
       bindR (disable_pit P ioapic1 d2) (\<lambda>d3.
       bindR (sys_sleep_local_us (late_irqs pf) (sleep_turns pf) 3000000 clk) (\<lambda>woken.
       Inr (mapall1, ioapic1, d3, pit, nxt, woken)))))))) of
        Inl e \<Rightarrow> Some (Inl e)
      | Inr (mapall1, ioapic, d3, pit, nxt, woken) \<Rightarrow>
     Option.bind woken (\<lambda>clk.
     Some (Inr (mapall1, ioapic, u,
       \<lparr>d_ioapic = d3, d_pit = pit, d_clock = clk, d_hpet = d_hpet dv, d_next = nxt\<rparr>)))))"

text \<open>The event timer; its table is given back at the end of the block, that of the MADT never.\<close>

definition kmain_hpet ::
  "x86_ops \<Rightarrow> ('m, 'b) mapper_ops \<Rightarrow> u64 bitfield_ops \<Rightarrow> 'u acpi_ops \<Rightarrow> bytes \<Rightarrow> ('m, 'b) MapperAllocator \<Rightarrow> IOApic \<Rightarrow> 'u \<Rightarrow>
   devices \<Rightarrow> (('m, 'b) MapperAllocator \<times> 'u \<times> devices) res" where
  "kmain_hpet X M P U m mapall ioapic u dv =
     bindR (hpet_table U u) (\<lambda>(hpet_handle, u1).
     bindR (HPETHandle_as_ref X hpet_handle) (\<lambda>a.
     bindR (init_hpet X M P (hpet_at m a) mapall ioapic (d_ioapic dv) (d_hpet dv)) (\<lambda>(mapall1, d, h).
     Inr (mapall1, HPETHandle_drop U hpet_handle u1, dv\<lparr>d_ioapic := d, d_hpet := hpet_enable P h\<rparr>))))"

definition kmain_devices ::
  "x86_ops \<Rightarrow> ('m, 'b) mapper_ops \<Rightarrow> u64 bitfield_ops \<Rightarrow> 'u acpi_ops \<Rightarrow> 'u platform \<Rightarrow> ('m, 'b) MapperAllocator \<Rightarrow>
   devices \<Rightarrow> (('m, 'b) MapperAllocator \<times> 'u \<times> devices) res option" where
  "kmain_devices X M P U pf mapall dv =
     Option.bind (kmain_controllers X M P U pf mapall dv) (\<lambda>r.
     Some (bindR r (\<lambda>(mapall1, ioapic, u, dv1). kmain_hpet X M P U (acpi_mem pf) mapall1 ioapic u dv1)))"

definition kmain_tasks ::
  "x86_ops \<Rightarrow> 'b bit_ops \<Rightarrow> 'l bit_ops \<Rightarrow> 's bit_ops \<Rightarrow> ('m, 'b) mapper_ops \<Rightarrow> vmem_addrs \<Rightarrow> u64 bitflags_ops \<Rightarrow>
   'q queue_ops \<Rightarrow> symbols \<Rightarrow> u16 \<Rightarrow> u64 \<Rightarrow> u64 \<Rightarrow> u64 \<Rightarrow> u64 \<Rightarrow> u64 \<Rightarrow> 'l \<Rightarrow> 's \<Rightarrow> ('m, 'b) MapperAllocator \<Rightarrow>
   ('q, 'l, 's, 'm, 'b) sched \<Rightarrow> ('q, 'l, 's, 'm, 'b) sched dispatch res" where
  "kmain_tasks X B LB SB M V F Q L sel preempt greedy_task coop_task box1 box2 large_ones small_ones mapall s =
     bindR (stack_init X M V large_ones small_ones (bit (rflags (cpu s)) 9) mapall) (\<lambda>st.
     bindR (scheduler_init X B M V L (MAPALL st) (s\<lparr>stacks := st\<rparr>)) (\<lambda>s1.
     bindR (spawn_task X B LB SB M V F Q L greedy_task small_kernel 0 None box1 s1) (\<lambda>(_, s2).
     bindR (spawn_task X B LB SB M V F Q L coop_task small_kernel 0 None box2 s2) (\<lambda>(_, s3).
     case exec (jump_to_scheduler L) (cpu s3) of
       FellThrough _ \<Rightarrow> Inl Unreachable
     | Transferred m \<Rightarrow> start_scheduler L Q sel preempt (s3\<lparr>cpu := m\<rparr>)))))"

text \<open>
  The whole of \<^verbatim>\<open>kmain\<close>. The local APIC is mapped and the screen drawn between the memory and the devices;
  the statics of the scheduler in \<open>s\<close> get the clock and the gates that the earlier steps leave.
\<close>

definition kmain ::
  "x86_ops \<Rightarrow> 'b bit_ops \<Rightarrow> 'l bit_ops \<Rightarrow> 's bit_ops \<Rightarrow> ('m, 'b) mapper_ops \<Rightarrow> 'h heap_ops \<Rightarrow> 'g gdt_ops \<Rightarrow>
   u64 bitfield_ops \<Rightarrow> 'u acpi_ops \<Rightarrow> u64 bitflags_ops \<Rightarrow> 'q queue_ops \<Rightarrow> symbols \<Rightarrow> idt_symbols \<Rightarrow> nat \<Rightarrow> u64 \<Rightarrow> u64 \<Rightarrow> u64 \<Rightarrow> u64 \<Rightarrow> u64 \<Rightarrow>
   (nat \<Rightarrow> u32) \<Rightarrow> PSFFontHeader \<Rightarrow> u8 list \<Rightarrow> video \<Rightarrow> 'l \<Rightarrow> 's \<Rightarrow> 'u platform \<Rightarrow> devices \<Rightarrow>
   'm \<Rightarrow> 'b \<Rightarrow> 'h FixedSizeBlockAllocator \<Rightarrow> 'g segments \<Rightarrow> idt_state \<Rightarrow> ('q, 'l, 's, 'm, 'b) sched \<Rightarrow>
   ('q, 'l, 's, 'm, 'b) sched dispatch res option" where
  "kmain X B LB SB M A G P U F Q L D tss preempt greedy_task coop_task box1 box2 icon H font video large_ones small_ones
     pf dv table zeroed heap segs idt s =
     (case bindR (kmain_checks (p_boot pf)) (\<lambda>_.
       bindR (kmain_memory X B M A G tss D (p_cr3 pf) (p_boot pf) table zeroed heap segs idt) (\<lambda>(V, segs1, idt1, mapall, heap1).
       bindR (init_local X M (apic_frame pf) mapall) (\<lambda>mapall1.
       bindR (kmain_screen icon H font (p_boot pf) video) (\<lambda>_.
       Inr (V, segs1, idt1, mapall1))))) of
        Inl e \<Rightarrow> Some (Inl e)
      | Inr (V, segs1, idt1, mapall1) \<Rightarrow>
     Option.bind (kmain_devices X M P U pf mapall1 dv) (\<lambda>r.
     Some (bindR r (\<lambda>(mapall2, _, dv1).
       kmain_tasks X B LB SB M V F Q L (reg_cs segs1) preempt greedy_task coop_task box1 box2 large_ones small_ones mapall2
         (s\<lparr>clock := d_clock dv1, gates := IDT idt1\<rparr>)))))"

section \<open>Memory\<close>


definition answered :: boot where
  "answered = image_requests\<lparr>BASE_REVISION := [0, 0, 0],
     HHDM_REQUEST := HHDMRequest_new\<lparr>response := Some \<lparr>resp_revision = 0, hhdm_resp_offset = 0xffff800000000000\<rparr>\<rparr>,
     RSDP_REQUEST := RSDPRequest_new\<lparr>response := Some \<lparr>resp_revision = 0, rsdp_resp_addr = 0xffff8000000e0000\<rparr>\<rparr>,
     MEMMAP_REQUEST := MemmapRequest_new\<lparr>response := Some \<lparr>resp_revision = 0,
       mmr_entries = [\<lparr>mm_base = 12288, mm_length = 20480, mm_ty = Usable\<rparr>,
                      \<lparr>mm_base = 32768, mm_length = 4096, mm_ty = Reserved\<rparr>]\<rparr>\<rparr>\<rparr>"


end
