(* ===== verification/Kernel_Devices.thy ===== *)
theory Kernel_Devices
  imports Kernel
begin

text \<open>
  The middle of \<^verbatim>\<open>kmain\<close>: the walk over the MADT, the I/O APIC with its overrides, the calibration of the
  local timer and the sleep on it.
\<close>

section \<open>Running the iterator to its end\<close>

lemma drain_simps [simp]:
  "drain Done = Some (Inr [])" "drain (Panics e) = Some (Inl e)"
  "drain (Yield x r) = Option.bind (drain r) (\<lambda>t. Some (bindR t (\<lambda>xs. Inr (x # xs))))"
  by (subst drain.simps, simp)+

lemma drain_foldr: "drain (foldr Yield es it) = Option.bind (drain it) (\<lambda>t. Some (bindR t (\<lambda>xs. Inr (es @ xs))))"
proof (induction es)
  case Nil
  show ?case by (cases "drain it") (simp_all add: bindR_def split: sum.split)
next
  case (Cons e es)
  show ?case by (cases "drain it") (simp_all add: Cons bindR_assoc)
qed

lemma drain_loop:
  assumes "drain it = Some y"
  shows "it \<noteq> Yield x it"
proof (rule drain.raw_induct [where P = "\<lambda>it y. it \<noteq> Yield x it", OF _ assms])
  fix D :: "'a iter \<Rightarrow> 'a list res option" and it y
  assume IH: "\<And>it y. D it = Some y \<Longrightarrow> it \<noteq> Yield x it"
    and step: "(case it of Done \<Rightarrow> Some (Inr []) | Panics e \<Rightarrow> Some (Inl e)
      | Yield x r \<Rightarrow> Option.bind (D r) (\<lambda>t. Some (bindR t (\<lambda>xs. Inr (x # xs))))) = Some y"
  show "it \<noteq> Yield x it"
  proof
    assume it: "it = Yield x it"
    let ?f = "\<lambda>t. Some (bindR t (\<lambda>xs. Inr (x # xs)))"
    have "(case it of Done \<Rightarrow> Some (Inr []) | Panics e \<Rightarrow> Some (Inl e)
      | Yield x r \<Rightarrow> Option.bind (D r) (\<lambda>t. Some (bindR t (\<lambda>xs. Inr (x # xs))))) = Option.bind (D it) ?f"
      by (subst it) (simp only: iter.case)
    then have "Option.bind (D it) ?f = Some y" using step by (rule trans [OF sym])
    then obtain t where "D it = Some t" by (rule bind_eq_Some_conv [THEN iffD1, THEN exE]) blast
    from IH [OF this] it show False by (rule notE)
  qed
qed

lemma madt_entry_even: "known_type (m ptr) \<Longrightarrow> even ptr \<Longrightarrow> 0 < ptr \<Longrightarrow> \<exists>x. madt_entry m ptr = Inr x"
  by (auto simp: known_type_def madt_entry_def Let_def)

section \<open>The overrides\<close>

fun overrides :: "MADTEntry list \<Rightarrow> IOApicOverrideEntry list" where
  "overrides [] = []"
| "overrides (IOApicOverride e # es) = e # overrides es"
| "overrides (_ # es) = overrides es"

definition override_ok :: "IOApicOverrideEntry \<Rightarrow> bool" where
  "override_ok ovr \<longleftrightarrow> unat (irq_source ovr) < 32 \<and> unat (gsi ovr) < 120 \<and>
     (bit (ovr_flags ovr) 1 \<longrightarrow> bit (ovr_flags ovr) 0) \<and> (bit (ovr_flags ovr) 3 \<longrightarrow> bit (ovr_flags ovr) 2)"

text \<open>Where each of the 32 interrupts goes: the last override of an interrupt counts.\<close>

definition routes :: "IOApicOverrideEntry list \<Rightarrow> nat list \<Rightarrow> nat list" where
  "routes os is = fold (\<lambda>ovr is. is[unat (irq_source ovr) := unat (gsi ovr)]) os is"

lemma routes_Cons: "routes (ovr # os) is = routes os (is[unat (irq_source ovr) := unat (gsi ovr)])"
  by (simp add: routes_def)

lemma length_routes [simp]: "length (routes os is) = length is"
  by (induction os arbitrary: "is") (simp_all add: routes_def)

lemma routes_bound:
  assumes "\<forall>ovr\<in>set os. unat (gsi ovr) < n" "\<forall>i\<in>set is. i < n"
  shows "\<forall>i\<in>set (routes os is). i < n"
  using assms
proof (induction os arbitrary: "is")
  case (Cons ovr os)
  have "\<forall>i\<in>set (is[unat (irq_source ovr) := unat (gsi ovr)]). i < n"
    using Cons.prems set_update_subset_insert by fastforce
  moreover have "\<forall>ovr\<in>set os. unat (gsi ovr) < n" using Cons.prems(1) by simp
  ultimately show ?case unfolding routes_Cons by (rule Cons.IH [rotated])
qed (simp add: routes_def)

lemma register_overrides_run:
  fixes d :: ioapic_dev
  assumes "bitfield_crate P" "\<forall>ovr\<in>set (overrides es). override_ok ovr" "length (irqs self) = 32"
  shows "\<exists>d'. register_overrides P es self d = Inr (self\<lparr>irqs := routes (overrides es) (irqs self)\<rparr>, d') \<and>
    (\<forall>j<120. (\<forall>ovr\<in>set (overrides es). unat (gsi ovr) \<noteq> j) \<longrightarrow> entry_of d' j = entry_of d j) \<and>
    (\<forall>j<120. \<forall>n. n \<noteq> 13 \<and> n \<noteq> 15 \<longrightarrow> bit (entry_of d' j) n = bit (entry_of d j) n)"
  using assms(2,3)
proof (induction es arbitrary: self d rule: overrides.induct)
  case 1
  have "self\<lparr>irqs := irqs self\<rparr> = self" by simp
  then show ?case by (simp add: routes_def)
next
  case (2 ovr es)
  let ?self = "self\<lparr>irqs := (irqs self)[unat (irq_source ovr) := unat (gsi ovr)]\<rparr>"
  have o: "override_ok ovr" "\<forall>ovr\<in>set (overrides es). override_ok ovr" using "2.prems"(1) by simp_all
  obtain d1 where d1: "register_override P ovr self d = Inr (?self, d1)"
    "\<forall>j<120. j \<noteq> unat (gsi ovr) \<longrightarrow> entry_of d1 j = entry_of d j"
    "\<forall>n. n \<noteq> 13 \<and> n \<noteq> 15 \<longrightarrow> bit (entry_of d1 (unat (gsi ovr))) n = bit (entry_of d (unat (gsi ovr))) n"
    using register_override_run [OF assms(1) refl _ "2.prems"(2) refl refl, of ovr d] o(1) by (auto simp: override_ok_def)
  have "length (irqs ?self) = 32" using "2.prems"(2) by simp
  then obtain d2 where d2: "register_overrides P es ?self d1 = Inr (?self\<lparr>irqs := routes (overrides es) (irqs ?self)\<rparr>, d2)"
    "\<forall>j<120. (\<forall>ovr\<in>set (overrides es). unat (gsi ovr) \<noteq> j) \<longrightarrow> entry_of d2 j = entry_of d1 j"
    "\<forall>j<120. \<forall>n. n \<noteq> 13 \<and> n \<noteq> 15 \<longrightarrow> bit (entry_of d2 j) n = bit (entry_of d1 j) n"
    using "2.IH" [OF o(2)] by blast
  have k: "bit (entry_of d1 j) n = bit (entry_of d j) n" if "j < 120" "n \<noteq> 13" "n \<noteq> 15" for j n
    using that d1(2,3) by (cases "j = unat (gsi ovr)") auto
  show ?case using d1(1,2) d2 k by (intro exI [of _ d2]) (simp add: routes_Cons)
qed simp_all

section \<open>From the tables to the timer\<close>

fun first_ioapic :: "MADTEntry list \<Rightarrow> IOApicEntry option" where
  "first_ioapic [] = None"
| "first_ioapic (IOApic e # es) = Some e"
| "first_ioapic (_ # es) = first_ioapic es"

lemma find_ioapic_first:
  "find_ioapic X M es nxt ma = (case first_ioapic es of None \<Rightarrow> Inl UnwrapFailed | Some e \<Rightarrow> IOApic_new X M e nxt ma)"
  by (induction es rule: first_ioapic.induct) simp_all

lemma IOApic_new_irqs: "IOApic_new X M e nxt ma = Inr (io, nxt', ma') \<Longrightarrow> irqs io = [0..<32]"
  by (auto simp: IOApic_new_def Let_def bindR_eq_Inr)

text \<open>The interval timer after its set-up and its removal: still unmasked, on its vector.\<close>

lemma pit_left_enabled:
  assumes "bitfield_crate P" "length (irqs self) = 32" "irqs self ! 0 = i" "i < 120"
  shows "\<exists>d1 d2. init_pit P self d p = Inr (d1, pit_init p) \<and> disable_pit P self d1 = Inr d2 \<and>
    \<not> bit (entry_of d2 i) 16 \<and> take_bit 8 (entry_of d2 i) = 0x33 \<and> (\<forall>j<120. j \<noteq> i \<longrightarrow> entry_of d2 j = entry_of d j)"
proof -
  have ne: "irqs self \<noteq> []" using assms(2) by auto
  note pb = bitfield_crate.bit_put_bits [OF assms(1)]
  obtain d1 where d1: "enable_pit P self d = Inr d1"
    "\<forall>j<120. entry_of d1 j = ((entry_of d)(i := set_vector P IRQ_PIT (set_mask P False (entry_of d i)))) j"
    using enable_pit_view [OF assms(3) ne assms(4)] by blast
  obtain d2 where d2: "disable_pit P self d1 = Inr d2"
    "\<forall>j<120. entry_of d2 j = ((entry_of d1)(i := set_mask P False (entry_of d1 i))) j"
    using disable_pit_view [OF assms(3) ne assms(4)] by blast
  have e: "bit (entry_of d2 i) n \<longleftrightarrow>
      (if n = 16 then False else if n \<le> 7 then bit (0x33 :: u64) n else bit (entry_of d i) n)" for n
    using d1(2) d2(2) assms(4) by (simp add: set_vector_def set_mask_def pb IRQ_PIT_def)
  have "take_bit 8 (entry_of d2 i) = take_bit 8 0x33" by (rule bit_eqI, unfold bit_take_bit_iff e) auto
  then have "take_bit 8 (entry_of d2 i) = 0x33" by simp
  then show ?thesis using d1 d2 e [of 16] by (simp add: init_pit_def)
qed

text \<open>A MADT in memory: encoded entries, then further records.\<close>

definition madt_holds :: "bytes \<Rightarrow> nat \<Rightarrow> MADTEntry list \<Rightarrow> madt_record list \<Rightarrow> bool" where
  "madt_holds m self es rs \<longleftrightarrow> (\<forall>e\<in>set es. plain e) \<and> (\<forall>r\<in>set rs. record_size r < 256) \<and>
     holds_bytes m (self + 44) (concat (map record_bytes (map encode es @ rs))) \<and>
     unat (Header_length m self) = 44 + sum_list (map record_size (map encode es @ rs))"

text \<open>The boot's calibration: the time base is read, nobody sleeps, and three seconds fit the counter.\<close>

definition calibrates :: "'u platform \<Rightarrow> devices \<Rightarrow> bool" where
  "calibrates pf dv \<longleftrightarrow> \<not> IS_SLEEPING (d_clock dv) \<and> (\<forall>c. IS_SLEEPING (pit_wait_effect pf c) = IS_SLEEPING c) \<and>
     0 < 0xffffffff - lapic_current pf \<and> unat (0xffffffff - lapic_current pf) div 1000 * 3000000 < 2 ^ 32"

lemma calibrated_sleep:
  assumes "calibrates pf dv"
  shows "\<exists>clk r. setup_timer_pit (pit_wait_effect pf) (lapic_current pf) (d_clock dv) = Inr clk \<and>
    sys_sleep_local_us late turns 3000000 clk = Inr r \<and> (r \<noteq> None \<longleftrightarrow> Clk \<in> set (arrived turns)) \<and>
    (\<forall>c. r = Some c \<longrightarrow> \<not> IS_SLEEPING c \<and> TICKS_PER_MS c = 0xffffffff - lapic_current pf)"
proof -
  note c = assms [unfolded calibrates_def]
  have "unat (lapic_current pf) < 2 ^ LENGTH(32)" by (rule unsigned_less)
  then have "lapic_current pf \<le> 0xffffffff" by (simp add: word_le_nat_alt)
  then have "wsub 0xffffffff (lapic_current pf) = Inr (0xffffffff - lapic_current pf)"
    by (simp add: wsub_def word_le_nat_alt)
  then obtain clk where clk: "setup_timer_pit (pit_wait_effect pf) (lapic_current pf) (d_clock dv) = Inr clk"
    "\<not> IS_SLEEPING clk" "TICKS_PER_MS clk = 0xffffffff - lapic_current pf"
    using c by (auto simp: setup_timer_pit_def Let_def lapic_write_def)
  have "0 < TICKS_PER_MS clk" "unat (TICKS_PER_MS clk) div 1000 * unat (3000000 :: u32) < 2 ^ 32"
    using c unfolding clk(3) by simp_all
  from sleep_local_us_run [OF clk(2) this, of late turns] clk(1,3) show ?thesis
    unfolding sys_sleep_local_us_def by fastforce
qed

lemma found_madt:
  assumes "x86_64 X" "acpi_status pf = 0" "madt_table U (acpi_tables pf) = Inr (mh, u)"
    and "canonical (virt_addr mh)" "0 < virt_addr mh" "virt_addr mh mod 4 = 0"
  shows "bindR (expectR (init_acpi (acpi_status pf))) (\<lambda>_. bindR (madt_table U (acpi_tables pf)) (\<lambda>(madt_handle, u).
       bindR (MADTHandle_as_ref X madt_handle) (\<lambda>madt. Inr (madt, u)))) = Inr (virt_addr mh, u)"
  using assms(2-6) x86_64.va_new [OF assms(1), of "virt_addr mh"] by (simp add: init_acpi_def MADTHandle_as_ref_def)


text \<open>A firmware with one I/O APIC and the usual override of the interval timer.\<close>

definition boot_madt :: bytes where
  "boot_madt a =
     (if a = 0x1004 then 66
      else if 0x102c \<le> a \<and> a < 0x1042 then
        [1, 12, 1, 0, 0, 0, 0xc0, 0xfe, 0, 0, 0, 0, 2, 10, 0, 0, 2, 0, 0, 0, 0, 0] ! (a - 0x102c)
      else 0)"

definition boot_platform :: "doc_acpi platform" where
  "boot_platform = \<lparr>p_boot = answered, p_cr3 = 0x1000, apic_frame = 0xfee00000, acpi_status = 0, acpi_mem = boot_madt,
     acpi_tables = ([(''APIC'', \<lparr>virt_addr = 0x1000, table_index = 0\<rparr>)], \<lambda>_. 0), pit_wait_effect = (\<lambda>c. c),
     lapic_current = 0xfffff000, late_irqs = [], sleep_turns = [([], Other), ([], Clk)]\<rparr>"

definition boot_devices :: devices where
  "boot_devices = \<lparr>d_ioapic = sample_ioapic, d_pit = sample_pit, d_clock = sample_clock, d_hpet = sample_hpet, d_next = 0\<rparr>"

definition boot_mapall :: "(doc_tables, nat set) MapperAllocator" where
  "boot_mapall = \<lparr>mapper = \<lparr>tables = [APIC_START div 2097152], pages = []\<rparr>, allocator = eight_free\<rparr>"

lemma boot_ioapic:
  "\<exists>io nxt ma. IOApic_new x86_doc (doc_mapper x86_doc bitset) \<lparr>ioe_apic_id = 1, ioe_address = 0xfec00000, ioe_gsi_base = 0\<rparr> 0
     boot_mapall = Inr (io, nxt, ma)"
  by (simp add: IOApic_new_def x86_doc_def Let_def boot_mapall_def APIC_START_def map_to_def doc_mapper_def doc_map_to_def
      canonical_def)


text \<open>
  C39. A MADT whose first record has length 0: the kernel does not come past its first loop over the
  records, it neither panics nor goes on.
\<close>

theorem kmain_hangs_on_empty_record:
  assumes "x86_64 X" "acpi_status pf = 0" "madt_table U (acpi_tables pf) = Inr (mh, u)"
    and "canonical (virt_addr mh)" "0 < virt_addr mh" "virt_addr mh mod 4 = 0"
    and "known_type (acpi_mem pf (virt_addr mh + 44))" "acpi_mem pf (virt_addr mh + 45) = 0"
    and "44 < unat (Header_length (acpi_mem pf) (virt_addr mh))"
  shows "kmain_devices X M P U pf mapall dv = None"
proof -
  let ?it = "madt_entries (acpi_mem pf) (virt_addr mh)"
  have "even (virt_addr mh + 44)" using assms(6) by (simp add: mod_0_imp_dvd [THEN dvd_trans [rotated]])
  then obtain x where "madt_entry (acpi_mem pf) (virt_addr mh + 44) = Inr x"
    using madt_entry_even [of "acpi_mem pf" "virt_addr mh + 44"] assms(7) by auto
  then have it: "?it = Yield x ?it" by (rule madt_zero_length_repeats [OF _ assms(8,9)])
  have "drain ?it = None"
  proof (cases "drain ?it")
    case (Some y)
    from drain_loop [OF this] it show ?thesis by (rule notE)
  qed
  then have "kmain_controllers X M P U pf mapall dv = None"
    unfolding kmain_controllers_def found_madt [OF assms(1-6)] sum.case prod.case by simp
  then show ?thesis by (simp add: kmain_devices_def)
qed

theorem kmain_hangs_on_empty_record_witness:
  "kmain_devices x86_doc (doc_mapper x86_doc bitset) doc_bitfield doc_uacpi
     (boot_platform\<lparr>acpi_mem := (\<lambda>a. 0)(0x1004 := 52)\<rparr>) boot_mapall boot_devices = None"
proof -
  let ?pf = "boot_platform\<lparr>acpi_mem := (\<lambda>a. 0)(0x1004 := 52)\<rparr>"
  let ?mh = "\<lparr>virt_addr = 0x1000, table_index = 0\<rparr>"
  obtain u where u: "madt_table doc_uacpi (acpi_tables ?pf) = Inr (?mh, u)"
    by (simp add: madt_table_def doc_uacpi_def boot_platform_def)
  show ?thesis
    by (rule kmain_hangs_on_empty_record [OF x86d.x86_64_axioms _ u])
      (simp_all add: boot_platform_def canonical_def known_type_def Header_length_def read32_def read16_def)
qed

text \<open>The reference on the table of the event timer is given back.\<close>

lemma kmain_hpet_balanced:
  assumes "acpi_library U refs" "kmain_hpet X M P U m mapall ioapic u dv = Inr (mapall', u', dv')"
  shows "refs u' = refs u"
  using assms(2) acpi_library.hpet_handle_balanced(1) [OF assms(1)] by (auto simp: kmain_hpet_def bindR_eq_Inr)

end
