(* ===== verification/Kernel_Tasks.thy ===== *)
theory Kernel_Tasks
  imports Kernel
begin

text \<open>
  The end of \<^verbatim>\<open>kmain\<close>: the stacks, the scheduler and the first two tasks.
\<close>

section \<open>The first tasks\<close>

context stack_env
begin

lemma init_guards_ok:
  assumes "\<And>i. i \<le> n \<Longrightarrow> canonical (p + i * ((1 + k) * 4096))" "wf_of B (allocator ma)"
  shows "\<exists>ma'. init_guards X M k n ma p = Inr (ma', p + n * ((1 + k) * 4096)) \<and> wf_of B (allocator ma')"
  using assms
proof (induction n arbitrary: p ma)
  case (Suc n)
  obtain r ma1 where m: "map_to M ma p 0 GUARD_FLAGS = Inr (r, ma1)" "wf_of B (allocator ma1)"
    using map_to_total_call [OF Suc.prems(2)] by blast
  let ?q = "p + (1 + k) * 4096"
  have a: "page_add X 4096 p (1 + k) = Inr ?q" using Suc.prems(1) [of 0] Suc.prems(1) [of 1] by (intro page_add) simp_all
  have c: "canonical (?q + i * ((1 + k) * 4096))" if "i \<le> n" for i
    using Suc.prems(1) [of "Suc i"] that by (simp add: algebra_simps)
  from Suc.IH [OF c m(2)] show ?case using m(1) a by (auto simp: algebra_simps)
qed simp

lemma stack_init_ok:
  assumes "hhdm_ok (HHDM_ADDR V)" "wf_of B (allocator ma)"
  shows "\<exists>st. stack_init X M V large_ones small_ones fl ma = Inr st \<and> wf_of B (allocator (MAPALL st)) \<and>
    kernel_small_stacks st = small_ones \<and> kernel_large_stacks st = large_ones"
proof -
  let ?h = "HHDM_ADDR V"
  have c: "canonical (?h + n)" if "n < 2 ^ 38" for n using hhdm_canonical [OF assms(1) that] .
  have a: "va_add X ?h KERNEL_STACK_SPACE_BOTTOM_OFFSET = Inr (?h + 0x100000)"
    using c [of 0] c [of "0x100000"] by (subst va_add) (simp_all add: layout_defs)
  obtain ma1 where 1: "init_guards X M 5 16 ma (?h + 0x100000) = Inr (ma1, ?h + 0x160000)" "wf_of B (allocator ma1)"
    using init_guards_ok [of 16 "?h + 0x100000" 5, OF _ assms(2)] c by (auto simp: add.assoc)
  obtain ma2 e where 2: "init_guards X M 1 33 ma1 (?h + 0x160000) = Inr (ma2, e)" "wf_of B (allocator ma2)"
    using init_guards_ok [of 33 "?h + 0x160000" 1, OF _ 1(2)] c by (auto simp: add.assoc)
  have k: "LARGE_KERNEL_STACK_PAGES = 5" "SMALL_KERNEL_STACK_PAGES = 1" "N_LARGE_KERNEL_STACKS = 16" "N_SMALL_KERNEL_STACKS + 1 = 33"
    by (simp_all add: layout_defs)
  show ?thesis unfolding stack_init_def k using a 1 2 by simp
qed

end

lemma jump_run:
  "\<exists>m'. exec (jump_to_scheduler L) m = Transferred m' \<and> mem m' = mem m \<and> rip m' = sym_start_scheduler L \<and>
     gpr m' RSP = mem m (HHDM_TOP_ADDR_INNER L) + of_nat SCHEDULER_SP_OFFSET"
  by (simp add: jump_to_scheduler_def set_reg_def Let_def add_flags_def)

lemma scheduler_init_run:
  assumes "stack_env X B M LB SB" "hhdm_ok h" "HHDM_TOP_ADDR V = h + MAX_PHYS_MAP" "wf_of B (allocator ma)"
  shows "if has_chunk (bits B (buddy_bytes (allocator ma))) 2
    then \<exists>s'. scheduler_init X B M V L ma s = Inr s' \<and> wf_of B (allocator (MAPALL (stacks s'))) \<and>
      kernel_small_stacks (stacks s') = kernel_small_stacks (stacks s) \<and>
      kernel_large_stacks (stacks s') = kernel_large_stacks (stacks s) \<and> task_queue s' = task_queue s \<and>
      NEXT_TASK_ID s' = NEXT_TASK_ID s \<and> clock s' = clock s \<and> gates s' = gates s \<and>
      mem (cpu s') (SCHEDULER_TASK L) = of_nat (HHDM_TOP_ADDR V + SCHEDULER_SP_OFFSET) \<and>
      (\<forall>b. b \<notin> cells (SCHEDULER_TASK L) \<longrightarrow> mem (cpu s') b = mem (cpu s) b)
    else scheduler_init X B M V L ma s = Inl UnwrapFailed"
proof -
  have env: "region_env X B M" "x86_64 X"
    using assms(1) by (simp_all add: stack_env_def region_env_def frame_env_def)
  have "canonical (HHDM_TOP_ADDR V)" "canonical (HHDM_TOP_ADDR V + SCHEDULER_SP_OFFSET)"
    using hhdm_canonical [OF assms(2), of MAX_PHYS_MAP] hhdm_canonical [OF assms(2), of "MAX_PHYS_MAP + SCHEDULER_SP_OFFSET"]
    by (simp_all add: assms(3) MAX_PHYS_MAP_def layout_defs add.commute [of h])
  then have "va_add X (HHDM_TOP_ADDR V) SCHEDULER_SP_OFFSET = Inr (HHDM_TOP_ADDR V + SCHEDULER_SP_OFFSET)"
    by (rule x86_64.va_add [OF env(2)])
  then show ?thesis
    using region_env.scheduler_stack_run [OF env(1) assms(2-4)]
    by (auto simp: scheduler_init_def Let_def put_task_info_def cells_def task_offset_defs)
qed

lemma small_kernel_flags: "small_kernel AND KERNEL_TASK = KERNEL_TASK" "True \<longleftrightarrow> small_kernel AND SMALL_STACK = SMALL_STACK"
  by (simp_all add: small_kernel_def SMALL_STACK_def KERNEL_TASK_def)

text \<open>
  A task of the start: spawned on the lowest free small stack, it joins the tasks that wait.
\<close>

definition waiting ::
  "symbols \<Rightarrow> ('q \<Rightarrow> u64 list) \<Rightarrow> (u64 \<Rightarrow> u64 set) \<Rightarrow> u64 \<Rightarrow> u64 list \<Rightarrow> (u64 \<Rightarrow> saved_context) \<Rightarrow>
   ('q, 'l, 's, 'm, 'b) sched \<Rightarrow> bool" where
  "waiting L elems stk ksp qs ctx s \<longleftrightarrow> elems (task_queue s) = qs \<and>
     (\<forall>r\<in>set qs. suspended (mem (cpu s)) stk r (ctx r) \<and> mem (cpu s) (r + 8) \<noteq> TASKID_SCHEDULER) \<and>
     mem (cpu s) (SCHEDULER_TASK L) = ksp \<and> mem (cpu s) (HHDM_TOP_ADDR_INNER L) + of_nat SCHEDULER_SP_OFFSET = ksp"

lemma Min_upto: "(i::nat) < n \<Longrightarrow> Min {i..<n} = i"
  by (rule Min_eqI) simp_all

lemma spawn_waiting:
  fixes s :: "('q, 'l, 's, 'm, 'b) sched"
  assumes env: "stack_env X B M LB SB" and F: "bitflags_crate F task_config_flags" and Q: "seg_queue Q elems"
    and h: "hhdm_ok (HHDM_ADDR V)" "wf_of B (allocator (MAPALL (stacks s)))" "NEXT_TASK_ID s \<le> MAX_TASK_ID"
    and S: "bits SB (kernel_small_stacks (stacks s)) = {i..<N_SMALL_KERNEL_STACKS}" "i < N_SMALL_KERNEL_STACKS"
    and st: "st = of_nat (small_top (HHDM_ADDR V) i)"
    and lay: "layout L stk ksp (set (qs @ [box]))" "box \<notin> set qs" "window (st - 96) 12 \<subseteq> stk box"
    and w: "waiting L elems stk ksp qs ctx s"
  shows "\<exists>s'. spawn_task X B LB SB M V F Q L f small_kernel 0 None box s = Inr (box, s') \<and>
    waiting L elems stk ksp (qs @ [box]) (ctx(box := first_context f st (rflags (cpu s)))) s' \<and>
    NEXT_TASK_ID s' = NEXT_TASK_ID s + 1 \<and> clock s' = clock s \<and> gates s' = gates s \<and>
    wf_of B (allocator (MAPALL (stacks s'))) \<and>
    bits SB (kernel_small_stacks (stacks s')) = {Suc i..<N_SMALL_KERNEL_STACKS}"
proof -
  let ?S = "bits SB (kernel_small_stacks (stacks s))" let ?c = "first_context f st (rflags (cpu s))"
  have S': "?S = (if True then ?S else bits LB (kernel_large_stacks (stacks s)))" "?S \<noteq> {}" "Min ?S = i"
    unfolding S(1) using Min_upto [OF S(2)] S(2) by simp_all
  have st': "st = of_nat (stack_top_of (HHDM_ADDR V) (True, Min ?S))" by (simp add: st S'(3) stack_top_of_def)
  have sep: "cells box \<inter> window (st - 96) 12 = {}" using lay(1,3) unfolding layout_def by auto
  obtain s' where r: "spawn_task X B LB SB M V F Q L f small_kernel 0 None box s = Inr (box, s')"
    and q: "task_queue s' = seg_push Q box (task_queue s)" and k: "NEXT_TASK_ID s' = NEXT_TASK_ID s + 1" "clock s' = clock s"
      "gates s' = gates s" "wf_of B (allocator (MAPALL (stacks s')))" "bits SB (kernel_small_stacks (stacks s')) = ?S - {Min ?S}"
    and id: "mem (cpu s') (box + 8) = composed_id small_kernel (NEXT_TASK_ID s) 0" and sp: "mem (cpu s') box = st - 96"
    and sv: "saved (mem (cpu s')) box ?c"
    and fr: "\<forall>b. b \<notin> cells box \<union> window (st - 96) 12 \<longrightarrow> mem (cpu s') b = mem (cpu s) b"
    using spawn_task_run [OF env F h(1,2) small_kernel_flags(1) _ h(3) small_kernel_flags(2) S'(1,2) st' sep, of 0 Q L f None]
    by auto
  have keep: "mem (cpu s') b = mem (cpu s) b" if "b \<notin> cells box" "b \<notin> stk box" for b
    using that lay(3) fr by blast
  have old: "mem (cpu s') b = mem (cpu s) b" if "r \<in> set qs" "b \<in> cells r \<union> stk r" for r b
  proof (rule keep)
    have rb: "r \<noteq> box" "r \<in> set (qs @ [box])" "box \<in> set (qs @ [box])" using that(1) lay(2) by auto
    show "b \<notin> cells box" "b \<notin> stk box" using lay(1) rb that(2) unfolding layout_def by blast+
  qed
  have kern: "mem (cpu s') b = mem (cpu s) b" if "b \<in> set (kernel_cells L ksp)" for b
    using that lay(1) by (intro keep) (auto simp: layout_def)
  have "suspended (mem (cpu s')) stk box ?c"
    using sp sv lay(3) window_mono [of 11 12 "st - 96"] by (auto simp: suspended_def context_length_def first_context_def)
  moreover have "mem (cpu s') (box + 8) \<noteq> TASKID_SCHEDULER"
    using composed_id_fields(4) [OF docbf.bitfield_crate_axioms F h(3), of 0 small_kernel] id by simp
  moreover have "suspended (mem (cpu s')) stk r (ctx r)" "mem (cpu s') (r + 8) \<noteq> TASKID_SCHEDULER" if "r \<in> set qs" for r
  proof -
    show "suspended (mem (cpu s')) stk r (ctx r)"
      using suspended_cong [of "mem (cpu s)" stk r "ctx r" "mem (cpu s')"] w that old [OF that] by (simp add: waiting_def)
    show "mem (cpu s') (r + 8) \<noteq> TASKID_SCHEDULER"
      using w that old [OF that, of "r + 8"] by (simp add: waiting_def cells_def)
  qed
  moreover have "elems (task_queue s') = qs @ [box]" using w by (simp add: q seg_queue.elems_push [OF Q] waiting_def)
  moreover have "mem (cpu s') (SCHEDULER_TASK L) = ksp" "mem (cpu s') (HHDM_TOP_ADDR_INNER L) + of_nat SCHEDULER_SP_OFFSET = ksp"
    using w kern by (simp_all add: waiting_def kernel_cells_def)
  ultimately have w': "waiting L elems stk ksp (qs @ [box]) (ctx(box := ?c)) s'"
    using lay(2) by (auto simp: waiting_def)
  have "?S - {Min ?S} = {Suc i..<N_SMALL_KERNEL_STACKS}" unfolding S'(3) unfolding S(1) by auto
  then show ?thesis using k by (intro exI [of _ s'] conjI r w') simp_all
qed

lemma restore_first:
  "rip (restore (first_context f st fl) n) = f" "gpr (restore (first_context f st fl) n) RSP = st - 8"
  "bit (rflags (restore (first_context f st fl) n)) 9"
  by (simp_all add: restore_def first_context_def context_length_def Let_def numeral_eq_Suc)

lemma two_tasks_started:
  fixes s1 :: "('q, 'l, 's, 'm, 'b) sched"
  assumes env: "stack_env X B M LB SB" and crates: "bitflags_crate F task_config_flags" "seg_queue Q elems"
    and h: "hhdm_ok (HHDM_ADDR V)" "wf_of B (allocator (MAPALL (stacks s1)))"
    and S1: "bits SB (kernel_small_stacks (stacks s1)) = {0..<N_SMALL_KERNEL_STACKS}"
    and s: "NEXT_TASK_ID s1 = 0x100" "gates s1 = Some t" "length t = 64" "timer_ok (clock s1)"
    and st: "st1 = of_nat (small_top (HHDM_ADDR V) 0)" "st2 = of_nat (small_top (HHDM_ADDR V) 1)"
    and lay: "layout L stk ksp {box1, box2}" "box1 \<noteq> box2"
      "window (st1 - 96) 12 \<subseteq> stk box1" "window (st2 - 96) 12 \<subseteq> stk box2"
    and w1: "waiting L elems stk ksp [] ctx0 s1"
  shows "\<exists>s2 s3 m' s' ctx fl e. spawn_task X B LB SB M V F Q L greedy small_kernel 0 None box1 s1 = Inr (box1, s2) \<and>
    spawn_task X B LB SB M V F Q L coop small_kernel 0 None box2 s2 = Inr (box2, s3) \<and>
    exec (jump_to_scheduler L) (cpu s3) = Transferred m' \<and>
    start_scheduler L Q sel preempt (s3\<lparr>cpu := m'\<rparr>) = Inr (Running s') \<and> sched_inv L elems stk ksp box1 [box2] ctx s' \<and>
    ctx box2 = first_context coop st2 fl \<and> rip (cpu s') = greedy \<and> gpr (cpu s') RSP = st1 - 8 \<and>
    bit (rflags (cpu s')) 9 \<and> gates s' = Some (t[unat IRQ_LAPIC_CLK := e]) \<and> leads_to sel preempt True e"
proof -
  have n: "NEXT_TASK_ID s1 \<le> MAX_TASK_ID" "NEXT_TASK_ID s1 + 1 \<le> MAX_TASK_ID" "0 < N_SMALL_KERNEL_STACKS" "1 < N_SMALL_KERNEL_STACKS"
    using s(1) by (simp_all add: MAX_TASK_ID_def N_SMALL_KERNEL_STACKS_def N_LARGE_KERNEL_STACKS_def)
  have lay1: "layout L stk ksp (set ([] @ [box1]))" "layout L stk ksp (set ([box1] @ [box2]))" "box1 \<notin> set []" "box2 \<notin> set [box1]"
    using lay(1,2) layout_subset [OF lay(1), of "{box1}"] by (auto simp: insert_commute)
  obtain s2 where s2: "spawn_task X B LB SB M V F Q L greedy small_kernel 0 None box1 s1 = Inr (box1, s2)"
    "waiting L elems stk ksp [box1] (ctx0(box1 := first_context greedy st1 (rflags (cpu s1)))) s2"
    "NEXT_TASK_ID s2 = NEXT_TASK_ID s1 + 1" "clock s2 = clock s1" "gates s2 = gates s1"
    "wf_of B (allocator (MAPALL (stacks s2)))" "bits SB (kernel_small_stacks (stacks s2)) = {1..<N_SMALL_KERNEL_STACKS}"
    using spawn_waiting [OF env crates h n(1) S1 n(3) st(1) lay1(1,3) lay(3) w1, of greedy]
    unfolding append.simps One_nat_def by blast
  let ?ctx = "ctx0(box1 := first_context greedy st1 (rflags (cpu s1)), box2 := first_context coop st2 (rflags (cpu s2)))"
  have n2: "NEXT_TASK_ID s2 \<le> MAX_TASK_ID" using n(2) s2(3) by simp
  obtain s3 where s3: "spawn_task X B LB SB M V F Q L coop small_kernel 0 None box2 s2 = Inr (box2, s3)"
    "waiting L elems stk ksp [box1, box2] ?ctx s3" "clock s3 = clock s2" "gates s3 = gates s2"
    using spawn_waiting [OF env crates h(1) s2(6) n2 s2(7) n(4) st(2) lay1(2,4) lay(4) s2(2), of coop]
    unfolding append.simps by blast
  obtain m' where j: "exec (jump_to_scheduler L) (cpu s3) = Transferred m'" "mem m' = mem (cpu s3)"
    using jump_run by blast
  let ?s4 = "s3\<lparr>cpu := m'\<rparr>"
  have g: "gates ?s4 = Some t" using s(2) s2(5) s3(4) by simp
  have q: "elems (task_queue ?s4) = [box1, box2]" "distinct [box1, box2]" "layout L stk ksp (set [box1, box2])"
    "\<forall>r\<in>set [box1, box2]. suspended (mem (cpu ?s4)) stk r (?ctx r)" "mem (cpu ?s4) (SCHEDULER_TASK L) = ksp"
    "mem (cpu ?s4) (HHDM_TOP_ADDR_INNER L) + of_nat SCHEDULER_SP_OFFSET = ksp"
    "\<forall>r\<in>set [box1, box2]. mem (cpu ?s4) (r + 8) \<noteq> TASKID_SCHEDULER" "timer_ok (clock ?s4)"
    using s3(2) [unfolded waiting_def] j(2) lay(1,2) s(4) s2(4) s3(3) by simp_all
  obtain s' n e where s': "start_scheduler L Q sel preempt ?s4 = Inr (Running s')"
    "cpu s' = (restore (?ctx box1) n)\<lparr>mem := mem (cpu s')\<rparr>" "sched_inv L elems stk ksp box1 [box2] ?ctx s'"
    "gates s' = Some (t[unat IRQ_LAPIC_CLK := e])" "leads_to sel preempt True e"
    using start_scheduler_run [OF crates(2) g s(3) q, of sel preempt] unfolding list.case by blast
  have c: "?ctx box1 = first_context greedy st1 (rflags (cpu s1))" using lay(2) by simp
  have "rip (cpu s') = greedy" "gpr (cpu s') RSP = st1 - 8" "bit (rflags (cpu s')) 9"
    by (subst s'(2), unfold c, simp add: restore_first)+
  then show ?thesis
    by (intro exI [of _ s2] exI [of _ s3] exI [of _ m'] exI [of _ s'] exI [of _ ?ctx] exI [of _ "rflags (cpu s2)"]
        exI [of _ e] conjI s2(1) s3(1) j(1) s'(1,3,4,5)) simp_all
qed

lemma kmain_tasks_run:
  fixes s :: "('q, 'l, 's, 'm, 'b) sched"
  assumes "x86_64 X" "bit_array B TOTAL_BUDDY_BITS" "page_mapper B M"
    "bit_array LB N_LARGE_KERNEL_STACKS" "bit_array SB N_SMALL_KERNEL_STACKS"
    and crates: "bitflags_crate F task_config_flags" "seg_queue Q elems"
    and h: "hhdm_ok (HHDM_ADDR V)" "HHDM_TOP_ADDR V = HHDM_ADDR V + MAX_PHYS_MAP" "wf_of B (allocator mapall)"
    and ones: "bits SB small_ones = {0..<N_SMALL_KERNEL_STACKS}"
    and s: "NEXT_TASK_ID s = 0x100" "elems (task_queue s) = []" "gates s = Some t" "length t = 64" "timer_ok (clock s)"
    and L: "mem (cpu s) (HHDM_TOP_ADDR_INNER L) = of_nat (HHDM_TOP_ADDR V)" "HHDM_TOP_ADDR_INNER L \<notin> cells (SCHEDULER_TASK L)"
    and st: "st1 = of_nat (small_top (HHDM_ADDR V) 0)" "st2 = of_nat (small_top (HHDM_ADDR V) 1)"
    and lay: "layout L stk (of_nat (HHDM_TOP_ADDR V + SCHEDULER_SP_OFFSET)) {box1, box2}" "box1 \<noteq> box2"
      "window (st1 - 96) 12 \<subseteq> stk box1" "window (st2 - 96) 12 \<subseteq> stk box2"
  shows "\<exists>st. stack_init X M V large_ones small_ones (bit (rflags (cpu s)) 9) mapall = Inr st \<and>
    (if has_chunk (bits B (buddy_bytes (allocator (MAPALL st)))) 2
     then \<exists>s' ctx fl e. kmain_tasks X B LB SB M V F Q L sel preempt greedy coop box1 box2 large_ones small_ones mapall s =
         Inr (Running s') \<and>
       sched_inv L elems stk (of_nat (HHDM_TOP_ADDR V + SCHEDULER_SP_OFFSET)) box1 [box2] ctx s' \<and>
       ctx box2 = first_context coop st2 fl \<and> rip (cpu s') = greedy \<and> gpr (cpu s') RSP = st1 - 8 \<and>
       bit (rflags (cpu s')) 9 \<and> gates s' = Some (t[unat IRQ_LAPIC_CLK := e]) \<and> leads_to sel preempt True e
     else kmain_tasks X B LB SB M V F Q L sel preempt greedy coop box1 box2 large_ones small_ones mapall s = Inl UnwrapFailed)"
proof -
  let ?ksp = "of_nat (HHDM_TOP_ADDR V + SCHEDULER_SP_OFFSET) :: u64"
  note env = stack_envI [OF assms(1-5)]
  obtain st where init: "stack_init X M V large_ones small_ones (bit (rflags (cpu s)) 9) mapall = Inr st"
    and st': "wf_of B (allocator (MAPALL st))" "kernel_small_stacks st = small_ones" "kernel_large_stacks st = large_ones"
    using stack_env.stack_init_ok [OF env h(1,3), of large_ones small_ones "bit (rflags (cpu s)) 9"] by blast
  note sr = scheduler_init_run [OF env h(1,2) st'(1), of L "s\<lparr>stacks := st\<rparr>"]
  show ?thesis
  proof (cases "has_chunk (bits B (buddy_bytes (allocator (MAPALL st)))) 2")
    case False
    then show ?thesis using sr by (intro exI [of _ st] conjI init) (simp add: kmain_tasks_def init)
  next
    case True
    obtain s1 where s1: "scheduler_init X B M V L (MAPALL st) (s\<lparr>stacks := st\<rparr>) = Inr s1"
      "wf_of B (allocator (MAPALL (stacks s1)))" "kernel_small_stacks (stacks s1) = small_ones" "task_queue s1 = task_queue s"
      "NEXT_TASK_ID s1 = NEXT_TASK_ID s" "clock s1 = clock s" "gates s1 = gates s" "mem (cpu s1) (SCHEDULER_TASK L) = ?ksp"
      "\<forall>b. b \<notin> cells (SCHEDULER_TASK L) \<longrightarrow> mem (cpu s1) b = mem (cpu s) b"
      using sr [unfolded eqTrueI [OF True] if_True] st'(2) by - (elim exE conjE, rule that, simp_all)
    have w1: "waiting L elems stk ?ksp [] (\<lambda>_. (False, [])) s1" using s1 s(2) L by (simp add: waiting_def)
    have S1: "bits SB (kernel_small_stacks (stacks s1)) = {0..<N_SMALL_KERNEL_STACKS}" using ones s1(3) by simp
    have k: "NEXT_TASK_ID s1 = 0x100" "gates s1 = Some t" "timer_ok (clock s1)" using s s1(5-7) by simp_all
    obtain s2 s3 m' s' ctx fl e where r: "spawn_task X B LB SB M V F Q L greedy small_kernel 0 None box1 s1 = Inr (box1, s2)"
      "spawn_task X B LB SB M V F Q L coop small_kernel 0 None box2 s2 = Inr (box2, s3)"
      "exec (jump_to_scheduler L) (cpu s3) = Transferred m'" "start_scheduler L Q sel preempt (s3\<lparr>cpu := m'\<rparr>) = Inr (Running s')"
      and p: "sched_inv L elems stk ?ksp box1 [box2] ctx s'" "ctx box2 = first_context coop st2 fl" "rip (cpu s') = greedy"
        "gpr (cpu s') RSP = st1 - 8" "bit (rflags (cpu s')) 9" "gates s' = Some (t[unat IRQ_LAPIC_CLK := e])" "leads_to sel preempt True e"
      using two_tasks_started [OF env crates h(1) s1(2) S1 k(1,2) s(4) k(3) st lay w1, of greedy coop sel preempt] by blast
    have "kmain_tasks X B LB SB M V F Q L sel preempt greedy coop box1 box2 large_ones small_ones mapall s = Inr (Running s')"
      by (simp add: kmain_tasks_def init s1(1) r)
    then show ?thesis unfolding init using True p
      by (intro exI [of _ st] conjI refl) (simp only: if_True, intro exI [of _ s'] exI [of _ ctx] exI [of _ fl] exI [of _ e], simp)
  qed
qed

text \<open>
  C13. The end of the start, from the initialisation of the stacks to the first task, composed of the
  operations of the stacks, the scheduler and the assembly. If four frames are free for the
  scheduler's stack, it does not panic: the greedy task runs from its entry point on the first small
  stack with interrupts enabled, the cooperative task waits with its own context on the second, and
  the invariant of the scheduler holds. Otherwise the kernel panics.
\<close>

theorem kmain_tasks_correct:
  fixes s :: "('q, 'l, 's, 'm, 'b) sched"
  assumes "x86_64 X" "bit_array B TOTAL_BUDDY_BITS" "page_mapper B M"
    "bit_array LB N_LARGE_KERNEL_STACKS" "bit_array SB N_SMALL_KERNEL_STACKS"
    and crates: "bitflags_crate F task_config_flags" "seg_queue Q elems"
    and h: "hhdm_ok (HHDM_ADDR V)" "HHDM_TOP_ADDR V = HHDM_ADDR V + MAX_PHYS_MAP" "wf_of B (allocator mapall)"
    and ones: "bits SB small_ones = {0..<N_SMALL_KERNEL_STACKS}"
    and s: "NEXT_TASK_ID s = 0x100" "elems (task_queue s) = []" "gates s = Some t" "length t = 64" "timer_ok (clock s)"
    and L: "mem (cpu s) (HHDM_TOP_ADDR_INNER L) = of_nat (HHDM_TOP_ADDR V)" "HHDM_TOP_ADDR_INNER L \<notin> cells (SCHEDULER_TASK L)"
    and st: "st1 = of_nat (small_top (HHDM_ADDR V) 0)" "st2 = of_nat (small_top (HHDM_ADDR V) 1)"
    and lay: "layout L stk (of_nat (HHDM_TOP_ADDR V + SCHEDULER_SP_OFFSET)) {box1, box2}" "box1 \<noteq> box2"
      "window (st1 - 96) 12 \<subseteq> stk box1" "window (st2 - 96) 12 \<subseteq> stk box2"
  shows "\<exists>st. stack_init X M V large_ones small_ones (bit (rflags (cpu s)) 9) mapall = Inr st \<and>
    (if has_chunk (bits B (buddy_bytes (allocator (MAPALL st)))) 2
     then \<exists>s' ctx fl e. kmain_tasks X B LB SB M V F Q L sel preempt greedy coop box1 box2 large_ones small_ones mapall s =
         Inr (Running s') \<and>
       sched_inv L elems stk (of_nat (HHDM_TOP_ADDR V + SCHEDULER_SP_OFFSET)) box1 [box2] ctx s' \<and>
       ctx box2 = first_context coop st2 fl \<and> rip (cpu s') = greedy \<and> gpr (cpu s') RSP = st1 - 8 \<and>
       bit (rflags (cpu s')) 9 \<and> gates s' = Some (t[unat IRQ_LAPIC_CLK := e]) \<and> leads_to sel preempt True e
     else kmain_tasks X B LB SB M V F Q L sel preempt greedy coop box1 box2 large_ones small_ones mapall s = Inl UnwrapFailed)"
  using kmain_tasks_run [OF assms] .

text \<open>The guard pages lie in one block of 2 MiB; with its page table in place they take no frame.\<close>

lemma doc_guards:
  assumes "\<And>i. i \<le> n \<Longrightarrow> (p + i * ((1 + k) * 4096)) div 2097152 \<in> set (tables (mapper ma))"
    "init_guards x86_doc (doc_mapper x86_doc bitset) k n ma p = Inr (ma', e)"
  shows "allocator ma' = allocator ma \<and> tables (mapper ma') = tables (mapper ma)"
  using assms
proof (induction n arbitrary: p ma)
  case (Suc n)
  obtain r ma1 where m: "map_to (doc_mapper x86_doc bitset) ma p 0 GUARD_FLAGS = Inr (r, ma1)"
    "allocator ma1 = allocator ma" "tables (mapper ma1) = tables (mapper ma)"
    using Suc.prems(1) [of 0]
    by (cases "map_of (pages (mapper ma)) p") (auto simp: map_to_def doc_mapper_def doc_map_to_def)
  obtain q where q: "page_add x86_doc 4096 p (1 + k) = Inr q"
    "init_guards x86_doc (doc_mapper x86_doc bitset) k n ma1 q = Inr (ma', e)"
    using Suc.prems(2) m(1) by (auto simp: bindR_eq_Inr)
  have "q = p + (1 + k) * 4096" using q(1) by (auto simp: x86_doc_def split: if_splits)
  then have "(q + i * ((1 + k) * 4096)) div 2097152 \<in> set (tables (mapper ma1))" if "i \<le> n" for i
    using Suc.prems(1) [of "Suc i"] that m(3) by (simp add: algebra_simps)
  from Suc.IH [OF this q(2)] show ?case using m by simp
qed simp

definition first_tables :: "(doc_tables, nat set) MapperAllocator" where
  "first_tables = \<lparr>mapper = \<lparr>tables = [0xffff800000000000 div 2097152], pages = []\<rparr>, allocator = eight_free\<rparr>"

definition first_stacks :: "u64 \<Rightarrow> u64 set" where
  "first_stacks p = (if p = 0x4000 then window (0xffff800000162000 - 96) 12 else window (0xffff800000164000 - 96) 12)"

definition first_boot :: "(u64 list, nat set, nat set, doc_tables, nat set) sched" where
  "first_boot = sample_boot\<lparr>gates := Some InterruptDescriptorTable_new,
     cpu := sample_machine\<lparr>mem := (mem sample_machine)(0x2010 := 0xffff802000000000)\<rparr>\<rparr>"

lemma first_boot_sel:
  "NEXT_TASK_ID first_boot = 0x100" "task_queue first_boot = []" "gates first_boot = Some InterruptDescriptorTable_new"
  "length InterruptDescriptorTable_new = 64" "timer_ok (clock first_boot)" "mem (cpu first_boot) 0x2010 = 0xffff802000000000"
  by (simp_all add: first_boot_def sample_boot_def InterruptDescriptorTable_new_def timer_ok_def sample_clock_def)

lemma first_layout: "layout sample_symbols first_stacks 0xffff802000015000 {0x4000, 0x5000}"
  unfolding layout_def kernel_cells_def cells_def first_stacks_def
  by (auto simp: sample_sel LAPIC_EOI_ADDR_def LAPIC_ADDR_def EOI_OFFSET_def dest!: window_range)

lemma first_guards:
  assumes "stack_init x86_doc (doc_mapper x86_doc bitset) sample_vmem large small fl first_tables = Inr st"
  shows "allocator (MAPALL st) = eight_free"
proof -
  let ?M = "doc_mapper x86_doc bitset" let ?h = "0xffff800000000000 :: nat"
  have k: "KERNEL_STACK_SPACE_BOTTOM_OFFSET = 0x100000" "LARGE_KERNEL_STACK_PAGES = 5" "SMALL_KERNEL_STACK_PAGES = 1"
    "N_LARGE_KERNEL_STACKS = 16" "N_SMALL_KERNEL_STACKS + 1 = 33" "HHDM_ADDR sample_vmem = ?h"
    by (simp_all add: layout_defs sample_vmem_def)
  have a: "va_add x86_doc ?h 0x100000 = Inr (?h + 0x100000)"
    by (rule x86_64.va_add [OF x86d.x86_64_axioms]) (simp_all add: canonical_def)
  have b: "(?h + 0x100000 + i * ((1 + 5) * 4096)) div 2097152 = ?h div 2097152" if "i \<le> 16" for i
    using that by (intro div_nat_eqI) auto
  have b': "(?h + 0x160000 + i * ((1 + 1) * 4096)) div 2097152 = ?h div 2097152" if "i \<le> 33" for i
    using that by (intro div_nat_eqI) auto
  have wf: "wf_of bitset (allocator first_tables)" by (simp add: first_tables_def eight_free_facts(2))
  note env = stack_envI [OF x86d.x86_64_axioms bset.bit_array_axioms docm.page_mapper_axioms bset.bit_array_axioms bset.bit_array_axioms]
  have c: "canonical (?h + n)" if "n < 2 ^ 38" for n
    using hhdm_canonical [OF sample_hhdm(1) that] by (simp add: k(6))
  have c1: "canonical (?h + 0x100000 + i * ((1 + 5) * 4096))" if "i \<le> 16" for i
    using c [of "0x100000 + i * 24576"] that by (simp add: add.assoc [symmetric])
  obtain m1 where g1: "init_guards x86_doc ?M 5 16 first_tables (?h + 0x100000) = Inr (m1, ?h + 0x160000)"
    using stack_env.init_guards_ok [OF env, of 16 "?h + 0x100000" 5, OF c1 wf] by auto
  obtain m2 e where g2: "init_guards x86_doc ?M 1 33 m1 (?h + 0x160000) = Inr (m2, e)" "MAPALL st = m2"
    using assms unfolding stack_init_def k by (auto simp: a g1 [simplified] bindR_eq_Inr)
  have t: "tables (mapper first_tables) = [?h div 2097152]" "allocator first_tables = eight_free" by (simp_all add: first_tables_def)
  have 1: "allocator m1 = eight_free \<and> tables (mapper m1) = [?h div 2097152]"
    using doc_guards [OF _ g1] b t by simp
  show ?thesis using doc_guards [OF _ g2(1)] b' 1 g2(2) by simp
qed

lemma first_boot_facts:
  shows "HHDM_TOP_ADDR sample_vmem = HHDM_ADDR sample_vmem + MAX_PHYS_MAP"
    and "of_nat (HHDM_TOP_ADDR sample_vmem + SCHEDULER_SP_OFFSET) = (0xffff802000015000 :: u64)"
    and "0xffff800000162000 = (of_nat (small_top (HHDM_ADDR sample_vmem) 0) :: u64)"
    and "0xffff800000164000 = (of_nat (small_top (HHDM_ADDR sample_vmem) 1) :: u64)"
    and "bits (bitset_ops N_SMALL_KERNEL_STACKS) {0..<32} = {0..<N_SMALL_KERNEL_STACKS}"
    and "wf_of bitset (allocator first_tables)"
    and "mem (cpu first_boot) (HHDM_TOP_ADDR_INNER sample_symbols) = of_nat (HHDM_TOP_ADDR sample_vmem)"
    and "HHDM_TOP_ADDR_INNER sample_symbols \<notin> cells (SCHEDULER_TASK sample_symbols)"
proof -
  have v: "of_nat (HHDM_TOP_ADDR sample_vmem) = (0xffff802000000000 :: u64)" "HHDM_ADDR sample_vmem = 0xffff800000000000"
    by (simp_all add: sample_vmem_def MAX_PHYS_MAP_def layout_defs)
  show "HHDM_TOP_ADDR sample_vmem = HHDM_ADDR sample_vmem + MAX_PHYS_MAP"
    "of_nat (HHDM_TOP_ADDR sample_vmem + SCHEDULER_SP_OFFSET) = (0xffff802000015000 :: u64)"
    by (simp_all add: sample_vmem_def MAX_PHYS_MAP_def layout_defs)
  show "0xffff800000162000 = (of_nat (small_top (HHDM_ADDR sample_vmem) 0) :: u64)"
    "0xffff800000164000 = (of_nat (small_top (HHDM_ADDR sample_vmem) 1) :: u64)"
    by (simp_all add: small_top_eq v(2))
  show "bits (bitset_ops N_SMALL_KERNEL_STACKS) {0..<32} = {0..<N_SMALL_KERNEL_STACKS}"
    by (auto simp: bits_bitset N_SMALL_KERNEL_STACKS_def N_LARGE_KERNEL_STACKS_def)
  show "wf_of bitset (allocator first_tables)" by (simp add: first_tables_def eight_free_facts(2))
  show "mem (cpu first_boot) (HHDM_TOP_ADDR_INNER sample_symbols) = of_nat (HHDM_TOP_ADDR sample_vmem)"
    "HHDM_TOP_ADDR_INNER sample_symbols \<notin> cells (SCHEDULER_TASK sample_symbols)"
    by (simp_all add: first_boot_sel sample_sel v(1) cells_def)
qed

theorem kmain_tasks_correct_witness:
  "\<exists>s'. kmain_tasks x86_doc bitset (bitset_ops N_LARGE_KERNEL_STACKS) (bitset_ops N_SMALL_KERNEL_STACKS)
      (doc_mapper x86_doc bitset) sample_vmem (doc_bitflags task_config_flags) list_queue sample_symbols 8 0x3000
      0x6000 0x6100 0x4000 0x5000 {0..<16} {0..<32} first_tables first_boot = Inr (Running s') \<and>
    rip (cpu s') = 0x6000 \<and> task_queue s' = [0x5000]"
proof -
  note v = first_boot_facts(1,2) and st = first_boot_facts(3,4) and ones = first_boot_facts(5) and wf = first_boot_facts(6)
    and sym = first_boot_facts(7,8)
  have lay: "layout sample_symbols first_stacks (of_nat (HHDM_TOP_ADDR sample_vmem + SCHEDULER_SP_OFFSET)) {0x4000, 0x5000}"
    "(0x4000 :: u64) \<noteq> 0x5000" "window (0xffff800000162000 - 96) 12 \<subseteq> first_stacks 0x4000"
    "window (0xffff800000164000 - 96) 12 \<subseteq> first_stacks 0x5000"
    using first_layout by (simp_all only: v(2)) (simp_all add: first_stacks_def)
  obtain st where init: "stack_init x86_doc (doc_mapper x86_doc bitset) sample_vmem {0..<16 :: nat} {0..<32 :: nat} (bit (rflags (cpu first_boot)) 9)
      first_tables = Inr st"
    and run: "has_chunk (bits bitset (buddy_bytes (allocator (MAPALL st)))) 2 \<Longrightarrow>
      \<exists>s' ctx. kmain_tasks x86_doc bitset (bitset_ops N_LARGE_KERNEL_STACKS) (bitset_ops N_SMALL_KERNEL_STACKS)
        (doc_mapper x86_doc bitset) sample_vmem (doc_bitflags task_config_flags) list_queue sample_symbols 8 0x3000
        0x6000 0x6100 0x4000 0x5000 {0..<16} {0..<32} first_tables first_boot = Inr (Running s') \<and>
       sched_inv sample_symbols (\<lambda>q. q) first_stacks (of_nat (HHDM_TOP_ADDR sample_vmem + SCHEDULER_SP_OFFSET)) 0x4000 [0x5000] ctx s' \<and>
       rip (cpu s') = 0x6000"
    using kmain_tasks_correct [OF x86d.x86_64_axioms bset.bit_array_axioms docm.page_mapper_axioms bset.bit_array_axioms
        bset.bit_array_axioms docfl.bitflags_crate_axioms lq.seg_queue_axioms sample_hhdm(1) v(1) wf ones first_boot_sel(1-5)
        sym st lay, of "{0..<16}" 8 "0x3000" "0x6000" "0x6100"]
    by - (elim exE conjE, rule that, assumption, simp only: if_True, blast)
  have "allocator (MAPALL st) = eight_free" by (rule first_guards [OF init])
  with run eight_free_chunk [of 2] show ?thesis by (auto simp: sched_inv_def Let_def)
qed

end
