(* ===== verification/System.thy ===== *)
theory System
  imports Kernel_Tasks Exceptions Scheduler_Properties
begin

text \<open>
  The running kernel: the two tasks that \<^verbatim>\<open>kmain\<close> starts, the scheduler that switches between them, the
  timer, the exceptions and the serial line together. The functions of the tasks (\<^verbatim>\<open>main.rs\<close>) are what they
  do in order; the instructions the compiler makes of them are any computation on their own stack.

  The theorems say that the kernel goes on: every task does what its function says, in order, in
  turn with the others, and never gets stuck; and when a fault stops one task the others go on.
\<close>

section \<open>The functions of the tasks\<close>

text \<open>What a function does before its loop, and in every round of its loop.\<close>

datatype action = Println string | Halt | Yield_task

type_synonym task_fn = "action list \<times> action list"

definition greedy_task :: task_fn where
  "greedy_task = ([Println ''greedy running''], [Halt, Println ''resumed after preemption''])"

definition coop_task :: task_fn where
  "coop_task = ([Println ''coop running''], [Yield_task, Println ''resumed after yielding''])"

text \<open>The handler of a fault ends in this loop.\<close>

definition halted :: task_fn where
  "halted = ([], [Halt])"

text \<open>What is left to do, at the end of a round from the start of the next.\<close>

definition pending :: "task_fn \<Rightarrow> action list \<Rightarrow> action list" where
  "pending b k = (if k = [] then snd b else k)"

definition actions :: "task_fn \<Rightarrow> action set" where
  "actions b = set (fst b) \<union> set (snd b)"

section \<open>What the scheduler prints\<close>

text \<open>The printers of the crates for the reason of a switch, addresses and task ids.\<close>

record switch_printers =
  resumed_fmt :: "u64 \<Rightarrow> string"
  va_fmt :: "u64 \<Rightarrow> string"
  taskid_fmt :: "u64 \<Rightarrow> string"

text \<open>
  The lines of \<open>resume_scheduler\<close>, which first reports the breakpoint it contains, at the state \<open>m\<close> of the
  scheduler, and of \<open>run_scheduler\<close>.
\<close>

definition run_text :: "switch_printers \<Rightarrow> u64 \<Rightarrow> u64 \<Rightarrow> string" where
  "run_text P tid q =
     ''running scheduler'' @ newline @
     ''running task '' @ taskid_fmt P tid @ '' (at ptr '' @ hex_field 16 q @ '')'' @ newline"

definition resume_text :: "printers \<Rightarrow> switch_printers \<Rightarrow> machine \<Rightarrow> u64 \<Rightarrow> u64 \<Rightarrow> string" where
  "resume_text K P m reason released_stack =
     exception_text K 0 3 0 m @
     ''flags: '' @ resumed_fmt P reason @ newline @
     ''Released stack on '' @ va_fmt P released_stack @ newline"

section \<open>The steps of the system\<close>

record ('q, 'l, 's, 'm, 'b) system =
  sch :: "('q, 'l, 's, 'm, 'b) sched"
  ser :: serial
  todo :: "u64 \<Rightarrow> action list"

abbreviation processor :: "('q, 'l, 's, 'm, 'b) system \<Rightarrow> machine" where
  "processor \<sigma> \<equiv> cpu (sch \<sigma>)"

abbreviation interruptible :: "machine \<Rightarrow> bool" where
  "interruptible m \<equiv> bit (rflags m) 9"

text \<open>The room for an interrupt and for a yield is left on the stack.\<close>

definition fits :: "(u64 \<Rightarrow> u64 set) \<Rightarrow> u64 \<Rightarrow> machine \<Rightarrow> bool" where
  "fits stk p m \<longleftrightarrow> preempt_room m \<subseteq> stk p \<and> yield_room m \<subseteq> stk p"

text \<open>
  The text of a switch from \<open>p\<close>, read from the state after it: the stack pointer stored for \<open>p\<close>, the task
  that runs now and its id. \<open>n\<close> is the processor at the breakpoint in the scheduler.
\<close>

definition switch_text :: "printers \<Rightarrow> switch_printers \<Rightarrow> symbols \<Rightarrow> machine \<Rightarrow> u64 \<Rightarrow> u64 \<Rightarrow> machine \<Rightarrow> string" where
  "switch_text K P L n reason p m =
     (let q = mem m (CURRENT_TASK_PTR L) in resume_text K P n reason (mem m p) @ run_text P (mem m (q + 8)) q)"

text \<open>
  A task prints, halts until an interrupt other than that of the timer has been handled, yields, or is
  preempted, at any point or while it halts. Prints take the interrupt flag of the processor.
\<close>

datatype event = Prints u64 string | Wakes u64 | Yields u64 string | Preempts u64 bool string

inductive sys_step ::
  "printers \<Rightarrow> switch_printers \<Rightarrow> symbols \<Rightarrow> 'q queue_ops \<Rightarrow> u64 bitflags_ops \<Rightarrow> u64 \<Rightarrow> (u64 \<Rightarrow> u64 set) \<Rightarrow> u64 \<Rightarrow> u64 set \<Rightarrow>
   (u64 \<Rightarrow> task_fn) \<Rightarrow> ('q, 'l, 's, 'm, 'b) system \<Rightarrow> event \<Rightarrow> ('q, 'l, 's, 'm, 'b) system \<Rightarrow> bool"
  for K P L Q F h stk ksp T bd \<sigma> where
  prints: "p = mem (processor \<sigma>) (CURRENT_TASK_PTR L) \<Longrightarrow> pending (bd p) (todo \<sigma> p) = Println t # k \<Longrightarrow>
    serial_println t ((ser \<sigma>)\<lparr>ser_interrupts := interruptible (processor \<sigma>)\<rparr>) = Some u \<Longrightarrow>
    task_computes L stk ksp T (processor \<sigma>) m \<Longrightarrow> fits stk p m \<Longrightarrow> interruptible m = ser_interrupts u \<Longrightarrow>
    sys_step K P L Q F h stk ksp T bd \<sigma> (Prints p t)
      (\<sigma>\<lparr>sch := (sch \<sigma>)\<lparr>cpu := m\<rparr>, ser := u, todo := (todo \<sigma>)(p := k)\<rparr>)"
| wakes: "p = mem (processor \<sigma>) (CURRENT_TASK_PTR L) \<Longrightarrow> pending (bd p) (todo \<sigma> p) = Halt # k \<Longrightarrow>
    interruptible (processor \<sigma>) \<Longrightarrow>
    task_computes L stk ksp T (processor \<sigma>) m \<Longrightarrow> fits stk p m \<Longrightarrow> interruptible m \<Longrightarrow>
    sys_step K P L Q F h stk ksp T bd \<sigma> (Wakes p)
      (\<sigma>\<lparr>sch := (sch \<sigma>)\<lparr>cpu := m\<rparr>, todo := (todo \<sigma>)(p := k)\<rparr>)"
| yields: "p = mem (processor \<sigma>) (CURRENT_TASK_PTR L) \<Longrightarrow> pending (bd p) (todo \<sigma> p) = Yield_task # k \<Longrightarrow>
    yield_task L Q F (sch \<sigma>) = Inr (Running s) \<Longrightarrow> w = switch_text K P L n 1 p (cpu s) \<Longrightarrow>
    serial_print w (ser \<sigma>) = Some u \<Longrightarrow>
    sys_step K P L Q F h stk ksp T bd \<sigma> (Yields p w) (\<sigma>\<lparr>sch := s, ser := u, todo := (todo \<sigma>)(p := k)\<rparr>)"
| preempts: "p = mem (processor \<sigma>) (CURRENT_TASK_PTR L) \<Longrightarrow> interruptible (processor \<sigma>) \<Longrightarrow>
    (if halting then pending (bd p) (todo \<sigma> p) = Halt # k else k = todo \<sigma> p) \<Longrightarrow>
    timer_step L Q F h (sch \<sigma>) = Inr (Running s) \<Longrightarrow> w = switch_text K P L n 2 p (cpu s) \<Longrightarrow>
    serial_print w (ser \<sigma>) = Some u \<Longrightarrow>
    sys_step K P L Q F h stk ksp T bd \<sigma> (Preempts p halting w) (\<sigma>\<lparr>sch := s, ser := u, todo := (todo \<sigma>)(p := k)\<rparr>)"

inductive sys_runs ::
  "printers \<Rightarrow> switch_printers \<Rightarrow> symbols \<Rightarrow> 'q queue_ops \<Rightarrow> u64 bitflags_ops \<Rightarrow> u64 \<Rightarrow> (u64 \<Rightarrow> u64 set) \<Rightarrow> u64 \<Rightarrow> u64 set \<Rightarrow>
   (u64 \<Rightarrow> task_fn) \<Rightarrow> ('q, 'l, 's, 'm, 'b) system \<Rightarrow> event list \<Rightarrow> ('q, 'l, 's, 'm, 'b) system \<Rightarrow> bool"
  for K P L Q F h stk ksp T bd \<sigma> where
  started: "sys_runs K P L Q F h stk ksp T bd \<sigma> [] \<sigma>"
| goes_on: "sys_runs K P L Q F h stk ksp T bd \<sigma> tr \<sigma>1 \<Longrightarrow> sys_step K P L Q F h stk ksp T bd \<sigma>1 e \<sigma>2 \<Longrightarrow>
    sys_runs K P L Q F h stk ksp T bd \<sigma> (tr @ [e]) \<sigma>2"

text \<open>What a task does in a run, what is printed, and how often the task that runs changes.\<close>

fun acts :: "u64 \<Rightarrow> event \<Rightarrow> action list" where
  "acts r (Prints p t) = (if r = p then [Println t] else [])"
| "acts r (Wakes p) = (if r = p then [Halt] else [])"
| "acts r (Yields p w) = (if r = p then [Yield_task] else [])"
| "acts r (Preempts p halting w) = (if r = p \<and> halting then [Halt] else [])"

fun event_text :: "event \<Rightarrow> string" where
  "event_text (Prints p t) = t @ newline"
| "event_text (Wakes p) = ''''"
| "event_text (Yields p w) = w"
| "event_text (Preempts p halting w) = w"

fun is_switch :: "event \<Rightarrow> bool" where
  "is_switch (Yields p w) \<longleftrightarrow> True"
| "is_switch (Preempts p halting w) \<longleftrightarrow> True"
| "is_switch (Prints p t) \<longleftrightarrow> False"
| "is_switch (Wakes p) \<longleftrightarrow> False"

definition did :: "u64 \<Rightarrow> event list \<Rightarrow> action list" where
  "did r tr = concat (map (acts r) tr)"

definition output_of :: "event list \<Rightarrow> string" where
  "output_of tr = concat (map event_text tr)"

definition switches :: "event list \<Rightarrow> nat" where
  "switches tr = length (filter is_switch tr)"

lemma run_simps [simp]:
  "did r [] = []" "did r (tr @ [e]) = did r tr @ acts r e" "output_of [] = []"
  "output_of (tr @ [e]) = output_of tr @ event_text e" "switches [] = 0"
  "switches (tr @ [e]) = switches tr + (if is_switch e then 1 else 0)"
  by (simp_all add: did_def output_of_def switches_def)

section \<open>The invariant of the system\<close>

text \<open>
  A function that never yields runs with interrupts enabled, so that the timer can preempt it. A task that
  has yielded continues with interrupts disabled: a function that yields must do so again and again,
  and must not halt.
\<close>

definition good_fn :: "task_fn \<Rightarrow> bool" where
  "good_fn b \<longleftrightarrow> snd b \<noteq> [] \<and> (Yield_task \<in> actions b \<longrightarrow> Halt \<notin> actions b \<and> Yield_task \<in> set (snd b))"

definition runs_on :: "(u64 \<Rightarrow> u64 set) \<Rightarrow> (u64 \<Rightarrow> task_fn) \<Rightarrow> u64 \<Rightarrow> machine \<Rightarrow> bool" where
  "runs_on stk bd p m \<longleftrightarrow> fits stk p m \<and> (Yield_task \<notin> actions (bd p) \<longrightarrow> interruptible m)"

definition sys_inv ::
  "symbols \<Rightarrow> ('q \<Rightarrow> u64 list) \<Rightarrow> (u64 \<Rightarrow> u64 set) \<Rightarrow> u64 \<Rightarrow> (u64 \<Rightarrow> task_fn) \<Rightarrow> u64 \<Rightarrow> u64 list \<Rightarrow> (u64 \<Rightarrow> saved_context) \<Rightarrow>
   ('q, 'l, 's, 'm, 'b) system \<Rightarrow> bool" where
  "sys_inv L elems stk ksp bd p qs ctx \<sigma> \<longleftrightarrow>
     sched_inv L elems stk ksp p qs ctx (sch \<sigma>) \<and> \<not> ser_locked (ser \<sigma>) \<and>
     (\<forall>r\<in>set (p # qs). good_fn (bd r) \<and> set (todo \<sigma> r) \<subseteq> actions (bd r)) \<and>
     runs_on stk bd p (processor \<sigma>) \<and> (\<forall>r\<in>set qs. \<forall>n. runs_on stk bd r (restore (ctx r) n))"

lemma fits_RSP: "gpr m RSP = gpr n RSP \<Longrightarrow> fits stk p m = fits stk p n"
  by (simp add: fits_def preempt_room_def yield_room_def)

lemma runs_on_mem [simp]: "runs_on stk bd p (m\<lparr>mem := M\<rparr>) = runs_on stk bd p m"
  by (simp add: runs_on_def fits_RSP [of "m\<lparr>mem := M\<rparr>" m])

lemma restore_preempted:
  "gpr (restore (preempted_context m p) n) RSP = gpr m RSP" "rflags (restore (preempted_context m p) n) = rflags m"
  by (simp_all add: restore_def preempted_context_def context_length_def preempted_values_def iret_frame_def Let_def)

lemma restore_yielded: "gpr (restore (yielded_context L m) n) RSP = gpr m RSP"
  by (simp add: restore_def yielded_context_def context_length_def released_values_def Let_def)

lemma runs_on_preempted:
  "runs_on stk bd p m \<Longrightarrow> runs_on stk bd p (restore (preempted_context m p) n)"
  unfolding runs_on_def restore_preempted(2) by (simp add: fits_RSP [OF restore_preempted(1)])

lemma runs_on_yielded:
  "runs_on stk bd p m \<Longrightarrow> Yield_task \<in> actions (bd p) \<Longrightarrow> runs_on stk bd p (restore (yielded_context L m) n)"
  unfolding runs_on_def by (simp add: fits_RSP [OF restore_yielded])

lemma pending_actions:
  assumes "pending b k = a # k'" "set k \<subseteq> actions b"
  shows "a \<in> actions b" "set k' \<subseteq> actions b"
  using assms by (auto simp: pending_def actions_def split: if_splits)

lemma pending_next:
  assumes "good_fn b"
  obtains a k' where "pending b k = a # k'"
  using assms by (cases "pending b k") (auto simp: pending_def good_fn_def split: if_splits)

lemma serial_print_Some:
  "serial_print t s = Some u \<Longrightarrow> \<not> ser_locked s \<and> u = s\<lparr>ser_out := ser_out s @ t\<rparr>"
  by (cases "ser_locked s") simp_all

section \<open>Every step keeps the invariant\<close>

text \<open>A task does the next action of its function or none, and prints only its text or that of the scheduler.\<close>

lemma sys_step_does:
  assumes "sys_step K P L Q F h stk ksp T bd \<sigma> e \<sigma>'"
  shows "acts r e @ todo \<sigma>' r = todo \<sigma> r \<or> todo \<sigma> r = [] \<and> acts r e @ todo \<sigma>' r = snd (bd r)"
    "ser_out (ser \<sigma>') = ser_out (ser \<sigma>) @ event_text e"
  using assms
  by (cases rule: sys_step.cases; auto simp: pending_def serial_println_def dest!: serial_print_Some split: if_splits)+

lemma todo_kept:
  assumes "sys_step K P L Q F h stk ksp T bd \<sigma> e \<sigma>'" "set (todo \<sigma> r) \<subseteq> actions (bd r)"
  shows "set (todo \<sigma>' r) \<subseteq> actions (bd r)"
proof -
  have "acts r e @ todo \<sigma>' r = todo \<sigma> r \<or> acts r e @ todo \<sigma>' r = snd (bd r)"
    using sys_step_does(1) [OF assms(1), of r] by blast
  then have "set (acts r e @ todo \<sigma>' r) \<subseteq> actions (bd r)"
    using assms(2) by (elim disjE ssubst) (simp_all add: actions_def)
  then show ?thesis by simp
qed

lemma lock_kept:
  assumes "sys_step K P L Q F h stk ksp T bd \<sigma> e \<sigma>'" "\<not> ser_locked (ser \<sigma>)"
  shows "\<not> ser_locked (ser \<sigma>')"
  using assms by (cases rule: sys_step.cases) (auto simp: serial_println_def dest!: serial_print_Some)

lemma sys_invD:
  assumes "sys_inv L elems stk ksp bd p qs ctx \<sigma>"
  shows "sched_inv L elems stk ksp p qs ctx (sch \<sigma>)" "\<not> ser_locked (ser \<sigma>)"
    "r \<in> set (p # qs) \<Longrightarrow> good_fn (bd r) \<and> set (todo \<sigma> r) \<subseteq> actions (bd r)"
    "runs_on stk bd p (processor \<sigma>)" "r \<in> set qs \<Longrightarrow> runs_on stk bd r (restore (ctx r) n)"
    "mem (processor \<sigma>) (CURRENT_TASK_PTR L) = p"
  using assms sched_invD(1) [of L elems stk ksp p qs ctx "sch \<sigma>"] unfolding sys_inv_def by blast+

text \<open>After a switch: the next task runs with its context, and the last one waits with its own.\<close>

lemma switched_inv:
  assumes inv: "sys_inv L elems stk ksp bd p qs ctx \<sigma>" and q: "qs @ [p] = q # qr"
    and c: "\<And>n. runs_on stk bd p (restore c n)"
    and s: "cpu (sch \<sigma>') = (restore ((ctx(p := c)) q) n)\<lparr>mem := mem (processor \<sigma>')\<rparr>"
      "sched_inv L elems stk ksp q qr (ctx(p := c)) (sch \<sigma>')"
    and k: "\<not> ser_locked (ser \<sigma>')" "\<forall>r\<in>set (p # qs). set (todo \<sigma>' r) \<subseteq> actions (bd r)"
  shows "sys_inv L elems stk ksp bd q qr (ctx(p := c)) \<sigma>'"
proof -
  have set: "set (q # qr) = set (p # qs)" using arg_cong [OF q, of set] by auto
  have r: "runs_on stk bd r (restore ((ctx(p := c)) r) n)" if "r \<in> set (q # qr)" for r n
    using that c sys_invD(5) [OF inv, of r n] unfolding set by auto
  have "runs_on stk bd q (processor \<sigma>')" by (subst s(1)) (simp add: r del: fun_upd_apply)
  moreover have "\<forall>r\<in>set (q # qr). good_fn (bd r) \<and> set (todo \<sigma>' r) \<subseteq> actions (bd r)"
    using k(2) sys_invD(3) [OF inv] unfolding set by blast
  moreover have "\<forall>r\<in>set qr. \<forall>n. runs_on stk bd r (restore ((ctx(p := c)) r) n)" using r by simp
  ultimately show ?thesis using s(2) k(1) unfolding sys_inv_def by blast
qed

lemma computed_inv:
  assumes "sys_inv L elems stk ksp bd p qs ctx \<sigma>" "task_computes L stk ksp (set (p # qs)) (processor \<sigma>) m"
    and "sch \<sigma>' = (sch \<sigma>)\<lparr>cpu := m\<rparr>" "runs_on stk bd p m" "\<not> ser_locked (ser \<sigma>')"
    and "\<forall>r\<in>set (p # qs). set (todo \<sigma>' r) \<subseteq> actions (bd r)"
  shows "sys_inv L elems stk ksp bd p qs ctx \<sigma>'"
  using assms computes_inv [OF sys_invD(1) [OF assms(1)] assms(2)] unfolding sys_inv_def by simp

lemma sys_step_inv:
  assumes Q: "seg_queue Q elems" and F: "bitflags_crate F INTERRUPTED"
    and inv: "sys_inv L elems stk ksp bd p qs ctx \<sigma>" and q: "qs @ [p] = q # qr"
    and step: "sys_step K P L Q F h stk ksp (set (p # qs)) bd \<sigma> e \<sigma>'"
  shows "\<exists>ctx'. if is_switch e then sys_inv L elems stk ksp bd q qr ctx' \<sigma>' else sys_inv L elems stk ksp bd p qs ctx' \<sigma>'"
proof -
  note D = sys_invD [OF inv]
  note fit = D(4) [unfolded runs_on_def fits_def]
  have t: "\<forall>r\<in>set (p # qs). set (todo \<sigma>' r) \<subseteq> actions (bd r)" using todo_kept [OF step] D(3) by blast
  note l = lock_kept [OF step D(2)]
  have tp: "good_fn (bd p)" "set (todo \<sigma> p) \<subseteq> actions (bd p)" using D(3) [of p] by simp_all
  from step show ?thesis
  proof (cases rule: sys_step.cases)
    case (prints p' t k u m)
    have "ser_interrupts u = interruptible (processor \<sigma>)"
      using prints(5) by (auto simp: serial_println_def dest!: serial_print_Some)
    then have "runs_on stk bd p m" using prints D(4,6) by (simp add: runs_on_def)
    then have "sys_inv L elems stk ksp bd p qs ctx \<sigma>'"
      using prints by (intro computed_inv [OF inv _ _ _ l t]) simp_all
    then show ?thesis using prints(1) by auto
  next
    case (wakes p' k m)
    have "runs_on stk bd p m" using wakes D(6) by (simp add: runs_on_def)
    then have "sys_inv L elems stk ksp bd p qs ctx \<sigma>'"
      using wakes by (intro computed_inv [OF inv _ _ _ l t]) simp_all
    then show ?thesis using wakes(1) by auto
  next
    case (yields p' k s w n u)
    have "Yield_task \<in> actions (bd p)" using pending_actions(1) [OF yields(4)] tp(2) D(6) yields(3) by simp
    note c = runs_on_yielded [OF D(4) this, of L]
    obtain n' where "cpu s = (restore ((ctx(p := yielded_context L (processor \<sigma>))) q) n')\<lparr>mem := mem (cpu s)\<rparr>"
      "sched_inv L elems stk ksp q qr (ctx(p := yielded_context L (processor \<sigma>))) s"
      using yield_dispatches [OF Q F D(1) conjunct2 [OF conjunct1 [OF fit]] q] yields(5) by auto
    then have "sys_inv L elems stk ksp bd q qr (ctx(p := yielded_context L (processor \<sigma>))) \<sigma>'"
      using yields(2) by (intro switched_inv [OF inv q c _ _ l t]) simp_all
    then show ?thesis using yields(1) by auto
  next
    case (preempts p' halting k s w n u)
    note c = runs_on_preempted [OF D(4)]
    obtain n' where "cpu s = (restore ((ctx(p := preempted_context (processor \<sigma>) p)) q) n')\<lparr>mem := mem (cpu s)\<rparr>"
      "sched_inv L elems stk ksp q qr (ctx(p := preempted_context (processor \<sigma>) p)) s"
      using timer_step_dispatches [OF Q F D(1) conjunct1 [OF conjunct1 [OF fit]] q, of h] preempts(6) by auto
    then have "sys_inv L elems stk ksp bd q qr (ctx(p := preempted_context (processor \<sigma>) p)) \<sigma>'"
      using preempts(2) by (intro switched_inv [OF inv q c _ _ l t]) simp_all
    then show ?thesis using preempts(1) by auto
  qed
qed

section \<open>The system goes on\<close>

lemma sys_runs_Cons:
  assumes "sys_runs K P L Q F h stk ksp T bd \<sigma>1 tr \<sigma>2" "sys_step K P L Q F h stk ksp T bd \<sigma> e \<sigma>1"
  shows "sys_runs K P L Q F h stk ksp T bd \<sigma> (e # tr) \<sigma>2"
  using assms
proof (induction rule: sys_runs.induct)
  case started
  from sys_runs.goes_on [OF sys_runs.started this] show ?case by simp
next
  case (goes_on tr \<sigma>1 e' \<sigma>2)
  from sys_runs.goes_on [OF goes_on.IH [OF goes_on.prems] goes_on.hyps(2)] show ?case by simp
qed

lemma one_step: "sys_step K P L Q F h stk ksp T bd \<sigma> e \<sigma>' \<Longrightarrow> sys_runs K P L Q F h stk ksp T bd \<sigma> [e] \<sigma>'"
  by (rule sys_runs_Cons [OF sys_runs.started])

lemma preemptible:
  assumes Q: "seg_queue Q elems" and F: "bitflags_crate F INTERRUPTED"
    and inv: "sys_inv L elems stk ksp bd p qs ctx \<sigma>" and i: "interruptible (processor \<sigma>)"
  shows "\<exists>w \<sigma>'. sys_step K P L Q F h stk ksp T bd \<sigma> (Preempts p False w) \<sigma>'"
proof -
  note D = sys_invD [OF inv]
  obtain q qr where q: "qs @ [p] = q # qr" by (cases "qs @ [p]") auto
  have "preempt_room (processor \<sigma>) \<subseteq> stk p" using D(4) by (simp add: runs_on_def fits_def)
  then obtain s where s: "timer_step L Q F h (sch \<sigma>) = Inr (Running s)"
    using timer_step_dispatches [OF Q F D(1) _ q] by blast
  show ?thesis
    by (rule exI, rule exI, rule sys_step.preempts [where bd = bd and p = p and \<sigma> = \<sigma> and k = "todo \<sigma> p", OF _ i _ s refl serial_print_ok])
      (simp_all add: D(2,6))
qed

lemma yielding:
  assumes Q: "seg_queue Q elems" and F: "bitflags_crate F INTERRUPTED"
    and inv: "sys_inv L elems stk ksp bd p qs ctx \<sigma>" and k: "pending (bd p) (todo \<sigma> p) = Yield_task # k"
  shows "\<exists>w \<sigma>'. sys_step K P L Q F h stk ksp T bd \<sigma> (Yields p w) \<sigma>'"
proof -
  note D = sys_invD [OF inv]
  obtain q qr where q: "qs @ [p] = q # qr" by (cases "qs @ [p]") auto
  have "yield_room (processor \<sigma>) \<subseteq> stk p" using D(4) by (simp add: runs_on_def fits_def)
  then obtain s where s: "yield_task L Q F (sch \<sigma>) = Inr (Running s)"
    using yield_dispatches [OF Q F D(1) _ q] by blast
  show ?thesis
    by (rule exI, rule exI, rule sys_step.yields [where bd = bd and p = p and \<sigma> = \<sigma> and k = k, OF _ k s refl serial_print_ok])
      (simp_all add: D(2,6))
qed

lemma printing:
  assumes inv: "sys_inv L elems stk ksp bd p qs ctx \<sigma>" and k: "pending (bd p) (todo \<sigma> p) = Println t # k"
  shows "\<exists>\<sigma>'. sys_step K P L Q F h stk ksp T bd \<sigma> (Prints p t) \<sigma>' \<and> todo \<sigma>' p = k"
proof -
  note D = sys_invD [OF inv]
  let ?i = "interruptible (processor \<sigma>)"
  obtain u where u: "serial_println t ((ser \<sigma>)\<lparr>ser_interrupts := ?i\<rparr>) = Some u" "ser_interrupts u = ?i"
    using D(2) by simp
  have c: "task_computes L stk ksp T (processor \<sigma>) (processor \<sigma>)" "fits stk p (processor \<sigma>)"
    using D(4) by (simp_all add: task_computes_def runs_on_def)
  show ?thesis
    by (rule exI, rule conjI, rule sys_step.prints [where bd = bd and p = p and \<sigma> = \<sigma> and k = k and u = u and m = "processor \<sigma>"])
      (simp_all add: D(6) k u c)
qed

text \<open>A switch can be reached from every state: a task that does not let itself be preempted yields.\<close>

lemma reaches_switch:
  assumes Q: "seg_queue Q elems" and F: "bitflags_crate F INTERRUPTED"
    and inv: "sys_inv L elems stk ksp bd p qs ctx \<sigma>"
  shows "\<exists>tr \<sigma>'. sys_runs K P L Q F h stk ksp (set (p # qs)) bd \<sigma> tr \<sigma>' \<and> switches tr = 1"
proof (cases "Yield_task \<in> actions (bd p)")
  case False
  then have "interruptible (processor \<sigma>)" using sys_invD(4) [OF inv] by (simp add: runs_on_def)
  then obtain w \<sigma>' where "sys_step K P L Q F h stk ksp (set (p # qs)) bd \<sigma> (Preempts p False w) \<sigma>'"
    using preemptible [OF Q F inv] by blast
  from one_step [OF this] show ?thesis by (intro exI conjI) (auto simp: switches_def)
next
  case True
  let ?n = "\<lambda>\<sigma>. length (takeWhile (\<lambda>a. a \<noteq> Yield_task) (todo \<sigma> p @ snd (bd p)))"
  show ?thesis using inv
  proof (induction "?n \<sigma>" arbitrary: \<sigma> ctx rule: less_induct)
    case less
    have g: "good_fn (bd p)" "set (todo \<sigma> p) \<subseteq> actions (bd p)" using sys_invD(3) [OF less.prems, of p] by simp_all
    obtain a k where k: "pending (bd p) (todo \<sigma> p) = a # k" using pending_next [OF g(1)] .
    show ?case
    proof (cases a)
      case Halt
      then show ?thesis using pending_actions(1) [OF k g(2)] g(1) True by (simp add: good_fn_def)
    next
      case Yield_task
      then obtain w \<sigma>' where "sys_step K P L Q F h stk ksp (set (p # qs)) bd \<sigma> (Yields p w) \<sigma>'"
        using yielding [OF Q F less.prems] k by blast
      from one_step [OF this] show ?thesis by (intro exI conjI) (auto simp: switches_def)
    next
      case (Println t)
      obtain \<sigma>1 where s: "sys_step K P L Q F h stk ksp (set (p # qs)) bd \<sigma> (Prints p t) \<sigma>1" "todo \<sigma>1 p = k"
        using printing [OF less.prems k [unfolded Println]] by blast
      obtain q qr where q: "qs @ [p] = q # qr" by (cases "qs @ [p]") auto
      obtain ctx1 where inv1: "sys_inv L elems stk ksp bd p qs ctx1 \<sigma>1"
        using sys_step_inv [OF Q F less.prems q s(1)] by auto
      have y: "Yield_task \<in> set (snd (bd p))" using g(1) True by (simp add: good_fn_def)
      have "?n \<sigma>1 < ?n \<sigma>"
      proof (cases "todo \<sigma> p = []")
        case True
        then have "snd (bd p) = Println t # k" using k Println by (simp add: pending_def)
        moreover from this have "Yield_task \<in> set k" using y by auto
        ultimately show ?thesis using True s(2) by (simp add: takeWhile_append1)
      next
        case False
        then show ?thesis using k Println s(2) by (simp add: pending_def)
      qed
      from less.hyps [OF this inv1] obtain tr \<sigma>' where
        "sys_runs K P L Q F h stk ksp (set (p # qs)) bd \<sigma>1 tr \<sigma>'" "switches tr = 1" by blast
      with sys_runs_Cons [OF this(1) s(1)] show ?thesis
        by (intro exI [of _ "Prints p t # tr"] exI [of _ \<sigma>']) (simp add: switches_def)
    qed
  qed
qed

lemma sys_runs_inv:
  assumes Q: "seg_queue Q elems" and F: "bitflags_crate F INTERRUPTED"
    and inv: "sys_inv L elems stk ksp bd p qs ctx \<sigma>"
    and run: "sys_runs K P L Q F h stk ksp (set (p # qs)) bd \<sigma> tr \<sigma>'"
  shows "\<exists>ctx'. sys_inv L elems stk ksp bd (hd (rotate (switches tr) (p # qs))) (tl (rotate (switches tr) (p # qs))) ctx' \<sigma>'"
  using run
proof (induction rule: sys_runs.induct)
  case started
  then show ?case using inv by auto
next
  case (goes_on tr \<sigma>1 e \<sigma>2)
  let ?xs = "rotate (switches tr) (p # qs)"
  obtain ctx1 where inv1: "sys_inv L elems stk ksp bd (hd ?xs) (tl ?xs) ctx1 \<sigma>1" using goes_on.IH by blast
  have "set (p # qs) = set (hd ?xs # tl ?xs)" unfolding rotate_next(2) [OF list.distinct(2)] set_rotate ..
  from goes_on.hyps(2) [unfolded this]
  obtain ctx2 where "if is_switch e then sys_inv L elems stk ksp bd (hd (rotate (Suc (switches tr)) (p # qs)))
      (tl (rotate (Suc (switches tr)) (p # qs))) ctx2 \<sigma>2 else sys_inv L elems stk ksp bd (hd ?xs) (tl ?xs) ctx2 \<sigma>2"
    using sys_step_inv [OF Q F inv1 rotate_next(1) [OF list.distinct(2)]] by blast
  then show ?case by (cases "is_switch e") auto
qed

lemma sys_runs_does:
  assumes "sys_runs K P L Q F h stk ksp T bd \<sigma> tr \<sigma>'"
  shows "\<exists>j. did r tr @ todo \<sigma>' r = todo \<sigma> r @ concat (replicate j (snd (bd r)))"
  using assms
proof (induction rule: sys_runs.induct)
  case started
  then show ?case by (intro exI [of _ 0]) simp
next
  case (goes_on tr \<sigma>1 e \<sigma>2)
  then obtain j where j: "did r tr @ todo \<sigma>1 r = todo \<sigma> r @ concat (replicate j (snd (bd r)))" by blast
  from sys_step_does(1) [OF goes_on.hyps(2), of r] show ?case
  proof
    assume "acts r e @ todo \<sigma>2 r = todo \<sigma>1 r"
    then show ?thesis using j by (intro exI [of _ j]) simp
  next
    assume e: "todo \<sigma>1 r = [] \<and> acts r e @ todo \<sigma>2 r = snd (bd r)"
    have "concat (replicate (Suc j) (snd (bd r))) = concat (replicate j (snd (bd r))) @ snd (bd r)"
      by (induction j) simp_all
    then show ?thesis using j e by (intro exI [of _ "Suc j"]) (simp del: replicate.simps)
  qed
qed

lemma sys_runs_output:
  assumes "sys_runs K P L Q F h stk ksp T bd \<sigma> tr \<sigma>'"
  shows "ser_out (ser \<sigma>') = ser_out (ser \<sigma>) @ output_of tr"
  using assms by (induction rule: sys_runs.induct) (simp_all add: sys_step_does(2))

text \<open>
  A kernel with any number of tasks: the tasks take turns in the order of the queue; each does what its
  function says, in order, however it is interrupted; all lines are printed whole; and the next switch can be
  reached from every state.
\<close>

lemma sys_runs_correct:
  assumes "seg_queue Q elems" "bitflags_crate F INTERRUPTED"
    and "sys_inv L elems stk ksp bd p qs ctx \<sigma>" "sys_runs K P L Q F h stk ksp (set (p # qs)) bd \<sigma> tr \<sigma>'"
  shows "mem (processor \<sigma>') (CURRENT_TASK_PTR L) = (p # qs) ! (switches tr mod length (p # qs)) \<and>
    (\<exists>j. did r tr @ todo \<sigma>' r = todo \<sigma> r @ concat (replicate j (snd (bd r)))) \<and>
    ser_out (ser \<sigma>') = ser_out (ser \<sigma>) @ output_of tr \<and>
    (\<exists>tr' \<sigma>''. sys_runs K P L Q F h stk ksp (set (p # qs)) bd \<sigma>' tr' \<sigma>'' \<and> switches tr' = 1)"
proof -
  let ?xs = "rotate (switches tr) (p # qs)"
  obtain ctx' where inv: "sys_inv L elems stk ksp bd (hd ?xs) (tl ?xs) ctx' \<sigma>'"
    using sys_runs_inv [OF assms] by blast
  have "hd ?xs = (p # qs) ! (switches tr mod length (p # qs))" by (rule hd_rotate_conv_nth) simp
  moreover have "set (hd ?xs # tl ?xs) = set (p # qs)" unfolding rotate_next(2) [OF list.distinct(2)] set_rotate ..
  ultimately show ?thesis
    using sys_invD(6) [OF inv] reaches_switch [OF assms(1,2) inv, of K P h] sys_runs_does [OF assms(4)] sys_runs_output [OF assms(4)]
    by simp
qed

text \<open>
  The kernel after its start: whatever the timer and the other interrupts do, the greedy task and the
  cooperative one take turns.
\<close>

definition boot_tasks :: "u64 \<Rightarrow> u64 \<Rightarrow> task_fn" where
  "boot_tasks box1 r = (if r = box1 then greedy_task else coop_task)"

definition booted :: "('q, 'l, 's, 'm, 'b) sched \<Rightarrow> serial \<Rightarrow> (u64 \<Rightarrow> task_fn) \<Rightarrow> ('q, 'l, 's, 'm, 'b) system" where
  "booted s u bd = \<lparr>sch = s, ser = u, todo = (\<lambda>r. fst (bd r))\<rparr>"

lemma good_fns: "good_fn (boot_tasks box1 r)" "good_fn halted" "Yield_task \<notin> actions halted"
  by (simp_all add: good_fn_def boot_tasks_def greedy_task_def coop_task_def halted_def actions_def)

lemma booted_inv:
  assumes "sched_inv L elems stk ksp box1 [box2] ctx s" "\<not> ser_locked u" "gpr (cpu s) RSP = st1 - 8" "interruptible (cpu s)"
    and "ctx box2 = first_context coop st2 fl"
    and "\<And>m. gpr m RSP = st1 - 8 \<Longrightarrow> fits stk box1 m" "\<And>m. gpr m RSP = st2 - 8 \<Longrightarrow> fits stk box2 m"
  shows "sys_inv L elems stk ksp (boot_tasks box1) box1 [box2] ctx (booted s u (boot_tasks box1))"
proof -
  have "runs_on stk (boot_tasks box1) box1 (cpu s)" using assms(3,4,6) by (simp add: runs_on_def)
  moreover have "runs_on stk (boot_tasks box1) box2 (restore (ctx box2) n)" for n
    using assms(7) unfolding runs_on_def assms(5) by (simp add: restore_first)
  ultimately show ?thesis using assms(1,2) good_fns(1) by (auto simp: sys_inv_def booted_def actions_def)
qed


text \<open>The first two small stacks, each the whole page below its top.\<close>

definition page_stacks :: "u64 \<Rightarrow> u64 set" where
  "page_stacks p = (if p = 0x4000 then window 0xffff800000161000 512 else window 0xffff800000163000 512)"

lemma page_layout:
  "layout sample_symbols page_stacks 0xffff802000015000 {0x4000, 0x5000}"
  "window (0xffff800000162000 - 96) 12 \<subseteq> page_stacks 0x4000" "window (0xffff800000164000 - 96) 12 \<subseteq> page_stacks 0x5000"
proof -
  show "layout sample_symbols page_stacks 0xffff802000015000 {0x4000, 0x5000}"
    unfolding layout_def kernel_cells_def cells_def page_stacks_def
    by (auto simp: sample_sel LAPIC_EOI_ADDR_def LAPIC_ADDR_def EOI_OFFSET_def dest!: window_range)
  show "window (0xffff800000162000 - 96) 12 \<subseteq> page_stacks 0x4000" "window (0xffff800000164000 - 96) 12 \<subseteq> page_stacks 0x5000"
    using window_shift [of 500 12 512 "0xffff800000161000"] window_shift [of 500 12 512 "0xffff800000163000"]
    by (simp_all add: page_stacks_def)
qed

lemma page_fits:
  "gpr m RSP = 0xffff800000162000 - 8 \<Longrightarrow> fits page_stacks 0x4000 m"
  "gpr m RSP = 0xffff800000164000 - 8 \<Longrightarrow> fits page_stacks 0x5000 m"
  using window_shift [of 484 26 512 "0xffff800000161000"] window_shift [of 495 16 512 "0xffff800000161000"]
    window_shift [of 484 26 512 "0xffff800000163000"] window_shift [of 495 16 512 "0xffff800000163000"]
  by (simp_all add: fits_def page_stacks_def preempt_room_def yield_room_def)

definition sample_switch_printers :: switch_printers where
  "sample_switch_printers = \<lparr>resumed_fmt = hex_field 1, va_fmt = hex_field 16, taskid_fmt = hex_field 16\<rparr>"

lemmas sample_crates = x86d.x86_64_axioms bset.bit_array_axioms docm.page_mapper_axioms bset.bit_array_axioms
  bset.bit_array_axioms docfl.bitflags_crate_axioms lq.seg_queue_axioms

lemmas sample_start = sample_hhdm(1) first_boot_facts(1,6,5) first_boot_sel(1-5) first_boot_facts(7,8,3,4)

text \<open>The state of the sample system after its start.\<close>

lemma sample_booted:
  "\<exists>s' ctx. kmain_tasks x86_doc bitset (bitset_ops N_LARGE_KERNEL_STACKS) (bitset_ops N_SMALL_KERNEL_STACKS)
      (doc_mapper x86_doc bitset) sample_vmem (doc_bitflags task_config_flags) list_queue sample_symbols 8 0x3000
      0x6000 0x6100 0x4000 0x5000 {0..<16} {0..<32} first_tables first_boot = Inr (Running s') \<and>
    sys_inv sample_symbols (\<lambda>q. q) page_stacks 0xffff802000015000 (boot_tasks 0x4000) 0x4000 [0x5000] ctx
      (booted s' (SERIAL1 True) (boot_tasks 0x4000)) \<and> interruptible (cpu s')"
proof -
  let ?boot = "kmain_tasks x86_doc bitset (bitset_ops N_LARGE_KERNEL_STACKS) (bitset_ops N_SMALL_KERNEL_STACKS)
      (doc_mapper x86_doc bitset) sample_vmem (doc_bitflags task_config_flags) list_queue sample_symbols 8 0x3000
      0x6000 0x6100 0x4000 0x5000 {0..<16} {0..<32} first_tables first_boot"
  have ne: "(0x4000 :: u64) \<noteq> 0x5000" by simp
  obtain st where init: "stack_init x86_doc (doc_mapper x86_doc bitset) sample_vmem {0..<16 :: nat} {0..<32 :: nat}
      (bit (rflags (cpu first_boot)) 9) first_tables = Inr st"
    and run: "has_chunk (bits bitset (buddy_bytes (allocator (MAPALL st)))) 2 \<Longrightarrow> \<exists>s' ctx fl. ?boot = Inr (Running s') \<and>
       sched_inv sample_symbols (\<lambda>q. q) page_stacks 0xffff802000015000 0x4000 [0x5000] ctx s' \<and>
       ctx 0x5000 = first_context 0x6100 0xffff800000164000 fl \<and> gpr (cpu s') RSP = 0xffff800000162000 - 8 \<and> interruptible (cpu s')"
    using kmain_tasks_run [OF sample_crates sample_start page_layout(1) [folded first_boot_facts(2)] ne page_layout(2,3),
        of "{0..<16}" 8 "0x3000" "0x6000" "0x6100"]
    unfolding first_boot_facts(2) by - (elim exE conjE, rule that, assumption, simp only: if_True, blast)
  have "allocator (MAPALL st) = eight_free" by (rule first_guards [OF init])
  then have "has_chunk (bits bitset (buddy_bytes (allocator (MAPALL st)))) 2" using eight_free_chunk [of 2] by simp
  then obtain s' ctx fl where s': "?boot = Inr (Running s')"
    "sched_inv sample_symbols (\<lambda>q. q) page_stacks 0xffff802000015000 0x4000 [0x5000] ctx s'"
    "ctx 0x5000 = first_context 0x6100 0xffff800000164000 fl" "gpr (cpu s') RSP = 0xffff800000162000 - 8" "interruptible (cpu s')"
    using run by blast
  have u: "\<not> ser_locked (SERIAL1 True)" by (simp add: SERIAL1_def)
  show ?thesis using s'(1,5) booted_inv [OF s'(2) u s'(4,5,3) page_fits] by blast
qed


section \<open>A task that faults\<close>

lemma task_computes_within:
  assumes "sched_inv L elems stk ksp p qs ctx s" "S \<subseteq> stk p" "\<forall>b. b \<notin> S \<longrightarrow> mem m b = mem (cpu s) b"
  shows "task_computes L stk ksp (set (p # qs)) (cpu s) m"
proof -
  have lay: "layout L stk ksp (set (p # qs))" and cur: "mem (cpu s) (CURRENT_TASK_PTR L) = p"
    using assms(1) by (simp_all add: sched_inv_def Let_def)
  have "b \<notin> stk p" if "b \<in> set (kernel_cells L ksp) \<union> (\<Union>r\<in>set (p # qs). cells r) \<union> (\<Union>r\<in>set (p # qs) - {p}. stk r)" for b
    using lay that unfolding layout_def by auto
  then show ?thesis using assms(2,3) unfolding task_computes_def cur by blast
qed

text \<open>A task that halts with interrupts disabled stops the whole system.\<close>

lemma halted_stuck:
  assumes "mem (processor \<sigma>) (CURRENT_TASK_PTR L) = p" "bd p = halted" "todo \<sigma> p = []" "\<not> interruptible (processor \<sigma>)"
  shows "\<not> sys_step K P L Q F h stk ksp T bd \<sigma> e \<sigma>'"
  using assms by (auto simp: pending_def halted_def elim: sys_step.cases)

text \<open>
  C8. A fault in a task, at any point at which it does not hold the serial line. The handler prints the
  report and halts, on the stack of the task and anywhere in its loop. If interrupts were enabled, and the fault
  is not an invalid opcode, only this task has stopped: the invariant of the system holds with a
  function that halts in its place, so that the other tasks go on in turn. Otherwise the
  system never makes another step.
\<close>

theorem fault_stops_task:
  assumes "sys_inv L elems stk ksp bd p qs ctx \<sigma>" "v \<in> exceptions" "v \<noteq> 3"
    and "idt_init I sel s0 = Inr s1" "IDT s1 = Some t"
  shows "\<exists>m1 m2 u. raise_exception t v (error_code v e) (processor \<sigma>) = Some m1 \<and> exec (exception_code R v) m1 = Transferred m2 \<and>
    exception_handler K cr2 v (mem m2) (gpr m2 RDI) (gpr m2 RSI) (ser \<sigma>) = Some (Inr (Halts u)) \<and>
    ser_out u = ser_out (ser \<sigma>) @ exception_text K cr2 v e (processor \<sigma>) \<and>
    (\<forall>m \<sigma>'. task_computes L stk ksp (set (p # qs)) m2 m \<and> fits stk p m \<and> interruptible m = interruptible m2 \<and>
        \<sigma>' = \<sigma>\<lparr>sch := (sch \<sigma>)\<lparr>cpu := m\<rparr>, ser := u, todo := (todo \<sigma>)(p := [])\<rparr> \<longrightarrow>
      (if interruptible (processor \<sigma>) \<and> v \<noteq> 6 then sys_inv L elems stk ksp (bd(p := halted)) p qs ctx \<sigma>'
       else \<forall>ev \<sigma>''. \<not> sys_step K P L Q F h stk ksp (set (p # qs)) (bd(p := halted)) \<sigma>' ev \<sigma>''))"
proof -
  note D = sys_invD [OF assms(1)]
  let ?m = "processor \<sigma>" let ?a = "gpr ?m RSP AND NOT 15"
  obtain m1 m2 where r: "raise_exception t v (error_code v e) ?m = Some m1" "exec (exception_code R v) m1 = Transferred m2"
    "exception_handler K cr2 v (mem m2) (gpr m2 RDI) (gpr m2 RSI) (ser \<sigma>) =
      Some (Inr (Halts ((ser \<sigma>)\<lparr>ser_out := ser_out (ser \<sigma>) @ exception_text K cr2 v e ?m\<rparr>)))"
    and m2: "interruptible m2 \<longleftrightarrow> interruptible ?m \<and> v \<noteq> 6" "\<forall>b. b \<notin> window (?a - 48) 6 \<longrightarrow> mem m2 b = mem ?m b"
    using exception_reports [OF assms(2,4,5) D(2) refl, of e ?m R K cr2] assms(3) by auto
  have "window (?a - 48) 6 \<subseteq> stk p"
    using D(4) window_shift [of 20 6 26 "?a - 208"] by (auto simp: runs_on_def fits_def preempt_room_def)
  from task_computes_within [OF D(1) this m2(2)] have "sched_inv L elems stk ksp p qs ctx ((sch \<sigma>)\<lparr>cpu := m2\<rparr>)"
    by (rule computes_inv [OF D(1)])
  note I2 = computes_inv [OF this, simplified]
  define u where "u = (ser \<sigma>)\<lparr>ser_out := ser_out (ser \<sigma>) @ exception_text K cr2 v e ?m\<rparr>"
  have step: "if interruptible ?m \<and> v \<noteq> 6 then sys_inv L elems stk ksp (bd(p := halted)) p qs ctx \<sigma>'
       else \<forall>ev \<sigma>''. \<not> sys_step K P L Q F h stk ksp (set (p # qs)) (bd(p := halted)) \<sigma>' ev \<sigma>''"
    if m: "task_computes L stk ksp (set (p # qs)) m2 m" "fits stk p m" "interruptible m = interruptible m2"
      and \<sigma>': "\<sigma>' = \<sigma>\<lparr>sch := (sch \<sigma>)\<lparr>cpu := m\<rparr>, ser := u, todo := (todo \<sigma>)(p := [])\<rparr>" for m \<sigma>'
  proof -
    have i: "sched_inv L elems stk ksp p qs ctx (sch \<sigma>')" using I2 [of m] m(1) \<sigma>' by simp
    have p: "p \<notin> set qs" using D(1) by (simp add: sched_inv_def Let_def)
    have "sys_inv L elems stk ksp (bd(p := halted)) p qs ctx \<sigma>'" if "interruptible m"
      using i D(2,3,5) p m(2) that \<sigma>' u_def good_fns(2,3)
      by (auto simp: sys_inv_def runs_on_def)
    moreover have "\<not> sys_step K P L Q F h stk ksp (set (p # qs)) (bd(p := halted)) \<sigma>' ev \<sigma>''" if "\<not> interruptible m" for ev \<sigma>''
      by (rule halted_stuck [where p = p]) (use that \<sigma>' sched_invD(1) [OF i] in simp_all)
    ultimately show ?thesis using m(3) m2(1) by auto
  qed
  show ?thesis
  proof (rule exI [of _ m1], rule exI [of _ m2], rule exI [of _ u], intro conjI allI impI)
    show "exception_handler K cr2 v (mem m2) (gpr m2 RDI) (gpr m2 RSI) (ser \<sigma>) = Some (Inr (Halts u))"
      using r(3) by (simp only: u_def)
    show "ser_out u = ser_out (ser \<sigma>) @ exception_text K cr2 v e ?m" by (simp add: u_def)
  qed (use r(1,2) step in auto)
qed

text \<open>A page fault in the greedy task right after the start: the handler halts, and the kernel goes on.\<close>

theorem fault_stops_task_witness:
  "\<exists>s' ctx s1 t m1 m2 u. kmain_tasks x86_doc bitset (bitset_ops N_LARGE_KERNEL_STACKS) (bitset_ops N_SMALL_KERNEL_STACKS)
      (doc_mapper x86_doc bitset) sample_vmem (doc_bitflags task_config_flags) list_queue sample_symbols 8 0x3000
      0x6000 0x6100 0x4000 0x5000 {0..<16} {0..<32} first_tables first_boot = Inr (Running s') \<and>
    idt_init sample_handlers 8 sample_idt = Inr s1 \<and> IDT s1 = Some t \<and>
    raise_exception t 14 (Some 2) (cpu s') = Some m1 \<and> exec (exception_code (\<lambda>_. 0x4000) 14) m1 = Transferred m2 \<and>
    exception_handler sample_printers 0x10 14 (mem m2) (gpr m2 RDI) (gpr m2 RSI) (SERIAL1 True) = Some (Inr (Halts u)) \<and>
    (\<forall>m. task_computes sample_symbols page_stacks 0xffff802000015000 {0x4000, 0x5000} m2 m \<and> fits page_stacks 0x4000 m \<and>
        interruptible m = interruptible m2 \<longrightarrow>
      sys_inv sample_symbols (\<lambda>q. q) page_stacks 0xffff802000015000 ((boot_tasks 0x4000)(0x4000 := halted)) 0x4000 [0x5000] ctx
        ((booted s' (SERIAL1 True) (boot_tasks 0x4000))\<lparr>sch := s'\<lparr>cpu := m\<rparr>, ser := u,
          todo := (todo (booted s' (SERIAL1 True) (boot_tasks 0x4000)))(0x4000 := [])\<rparr>))"
proof -
  obtain s' ctx where s': "kmain_tasks x86_doc bitset (bitset_ops N_LARGE_KERNEL_STACKS) (bitset_ops N_SMALL_KERNEL_STACKS)
      (doc_mapper x86_doc bitset) sample_vmem (doc_bitflags task_config_flags) list_queue sample_symbols 8 0x3000
      0x6000 0x6100 0x4000 0x5000 {0..<16} {0..<32} first_tables first_boot = Inr (Running s')"
    and inv: "sys_inv sample_symbols (\<lambda>q. q) page_stacks 0xffff802000015000 (boot_tasks 0x4000) 0x4000 [0x5000] ctx
      (booted s' (SERIAL1 True) (boot_tasks 0x4000))" "interruptible (cpu s')" using sample_booted by blast
  obtain s1 t where i: "idt_init sample_handlers 8 sample_idt = Inr s1" "IDT s1 = Some t"
    using idt_init_run [of sample_handlers 8 sample_idt] by auto
  let ?\<sigma> = "booted s' (SERIAL1 True) (boot_tasks 0x4000)"
  have b: "sch ?\<sigma> = s'" "ser ?\<sigma> = SERIAL1 True" "error_code 14 2 = Some 2" "(14 :: nat) \<in> exceptions" "(14 :: nat) \<noteq> 3"
    by (simp_all add: booted_def error_code_def exceptions_def)
  from fault_stops_task [OF inv(1) b(4,5) i, of 2 "\<lambda>_. 0x4000" sample_printers "0x10", unfolded b(1-3)]
  obtain m1 m2 u where f: "raise_exception t 14 (Some 2) (cpu s') = Some m1" "exec (exception_code (\<lambda>_. 0x4000) 14) m1 = Transferred m2"
    "exception_handler sample_printers 0x10 14 (mem m2) (gpr m2 RDI) (gpr m2 RSI) (SERIAL1 True) = Some (Inr (Halts u))"
    "\<forall>m \<sigma>'. task_computes sample_symbols page_stacks 0xffff802000015000 (set (0x4000 # [0x5000])) m2 m \<and> fits page_stacks 0x4000 m \<and>
      interruptible m = interruptible m2 \<and> \<sigma>' = ?\<sigma>\<lparr>sch := s'\<lparr>cpu := m\<rparr>, ser := u, todo := (todo ?\<sigma>)(0x4000 := [])\<rparr> \<longrightarrow>
      (if interruptible (cpu s') \<and> (14 :: nat) \<noteq> 6
       then sys_inv sample_symbols (\<lambda>q. q) page_stacks 0xffff802000015000 ((boot_tasks 0x4000)(0x4000 := halted)) 0x4000 [0x5000] ctx \<sigma>'
       else \<forall>ev \<sigma>''. \<not> sys_step sample_printers sample_switch_printers sample_symbols list_queue (doc_bitflags INTERRUPTED) 0x3000
         page_stacks 0xffff802000015000 (set (0x4000 # [0x5000])) ((boot_tasks 0x4000)(0x4000 := halted)) \<sigma>' ev \<sigma>'')"
    by blast
  show ?thesis
    by (rule exI [of _ s'], rule exI [of _ ctx], rule exI [of _ s1], rule exI [of _ t], rule exI [of _ m1], rule exI [of _ m2], rule exI [of _ u],
        intro conjI s' i f(1-3)) (use f(4) inv(2) in auto)
qed

end
