(* ===== verification/Spec2Isabelle.thy ===== *)
theory Spec2Isabelle
  imports Frame_Properties Mapper_Allocator Stack Context_Switch Bitfields Idt Acpi Apic Timers
    Scheduler_Properties Spawn Heap_Properties Heap_List Uacpi
    Framebuffer Gdt Serial Exceptions Dormant Kernel_Devices Kernel_Tasks System
begin

text \<open>
  A verification of the kernel \<^verbatim>\<open>titanium\<close>, an x86-64 kernel in Rust that the Limine boot loader
  starts. File names below are relative to \<^verbatim>\<open>src/src\<close>.

  \<^bold>\<open>The program.\<close> \<^verbatim>\<open>kmain\<close> sets up the address space (\<^verbatim>\<open>vmem.rs\<close>), the interrupt table
  (\<^verbatim>\<open>idt.rs\<close>), the allocator of physical frames (\<^verbatim>\<open>paging.rs\<close>) and the pair of page table mapper and
  frame allocator (\<^verbatim>\<open>paging/mapall.rs\<close>). It reads the ACPI tables (\<^verbatim>\<open>acpi.rs\<close>, \<^verbatim>\<open>acpi/\<close>), calibrates
  the timer of the local APIC with the interval timer and sets up the other timers (\<^verbatim>\<open>hdint.rs\<close>,
  \<^verbatim>\<open>hdint/\<close>). It makes the stacks (\<^verbatim>\<open>stack.rs\<close>), spawns tasks and jumps into the scheduler
  (\<^verbatim>\<open>scheduler.rs\<close>), which switches tasks at timer interrupts and when a task yields. On the way it
  reads what the boot loader answers (\<^verbatim>\<open>limine.rs\<close>), loads the segments (\<^verbatim>\<open>gdt.rs\<close>), maps the heap
  (\<^verbatim>\<open>heap.rs\<close>), draws on the screen (\<^verbatim>\<open>framebuffer.rs\<close>) and serves the ACPI library (\<^verbatim>\<open>uacpi.rs\<close>).

  \<^bold>\<open>Conventions.\<close> A panic is a value: fallible code returns \<open>panic + 'a\<close> (\<open>'a res\<close> of \<open>Prelude\<close>), with
  \<open>bindR\<close> for sequencing. Arithmetic that Rust checks in debug builds is written with \<open>uadd\<close>, \<open>usub\<close>,
  \<open>umul\<close>, \<open>ushl\<close>, \<open>ushr\<close> on naturals bounded by \<open>2 ^ 64\<close>, and \<open>wadd\<close> and so on on words. Registers
  and memory are words of their width. Crates are parameters: a record of the operations the
  kernel calls and a locale with what their documentation says, each interpreted on a concrete
  instance: \<open>x86_ops\<close> and \<open>x86_64\<close> (addresses, \<open>X86_Crate\<close>), \<open>bit_ops\<close> and \<open>bit_array\<close>
  (\<^verbatim>\<open>bitvec\<close> arrays, \<open>Bit_Array\<close>), \<open>mapper_ops\<close> and \<open>page_mapper\<close> (the page table mapper,
  \<open>Mapper_Allocator\<close>), \<open>bitfield_ops\<close> and \<open>bitflags_ops\<close> (\<open>Bitfields\<close>), \<open>queue_ops\<close> and
  \<open>seg_queue\<close> (the lock-free queue, \<open>Scheduler\<close>), \<open>heap_ops\<close> and \<open>fallback_heap\<close> (the first-fit heap,
  \<open>Heap\<close>), \<open>gdt_ops\<close> and \<open>gdt_crate\<close> (the segment table, \<open>Gdt\<close>), \<open>acpi_ops\<close> and \<open>acpi_library\<close> (the tables of
  the uACPI library and their reference counts, \<open>Acpi\<close>). The checks that the dev profile adds to
  unsafe code, null and misaligned pointers and invalid layouts, are panics too. \<open>Format\<close> has the number
  formats of \<^verbatim>\<open>core::fmt\<close> with lemmas that read the numbers back.

  \<^bold>\<open>Frame allocator.\<close> \<open>Frame_Allocator\<close> is \<^verbatim>\<open>paging.rs\<close>, one definition per function; the buddy
  array is the bit array parameter, its loops are recursive functions with the level or the
  number of frames as measure. \<open>Frame_Meaning\<close> gives the abstraction: the set of free frames
  \<open>free_of\<close> and the well-formedness \<open>wf_of\<close> (no frame is covered twice). \<open>Frame_Correct\<close> proves each
  operation against it inside a locale, and \<open>Frame_Properties\<close> states the results: the
  constructor frees exactly the usable memory, allocation and deallocation refine the
  operations on the set, and three defects.

  \<^bold>\<open>Mapping and stacks.\<close> \<open>Mapper_Allocator\<close> is \<^verbatim>\<open>paging/mapall.rs\<close>: \<open>page_region\<close> is all or nothing
  in its frames, maps only pages of the region, and ignores errors of the mapper. \<open>Vmem\<close> has the
  address constants, \<open>Limine\<close> the types of the memory map. \<open>Stack\<close> is \<^verbatim>\<open>stack.rs\<close>: for every sequence of
  requests the stacks are disjoint from each other and from the guard pages; where they lie.

  \<^bold>\<open>Context switch.\<close> \<open>Asm\<close> is a machine with sixteen registers, flags, two segment registers and
  a memory of quadwords, with the instructions the kernel's assembly uses; the stack is memory,
  and \<open>exec\<close> runs a block to its end or its first jump. \<open>Context_Switch\<close> has every block of
  \<^verbatim>\<open>scheduler.rs\<close> as a list of instructions. Its theorems say which registers a task finds when
  it continues after a preemption, a yield or its creation, and what goes wrong when the timer
  interrupts the scheduler or a resumption.

  \<^bold>\<open>Interrupts and timers.\<close> \<open>Idt\<close> is the table of \<^verbatim>\<open>idt.rs\<close>: the gates and the assembly of the wrappers.
  \<open>Exceptions\<close> has the handlers behind them and the panic handler, with the text that they print: an
  exception in any code of the kernel prints the state of exactly that code, and the report determines it.
  \<open>Acpi\<close> is \<^verbatim>\<open>acpi.rs\<close> and \<^verbatim>\<open>acpi/\<close> over a memory of bytes; the coroutine over the MADT is a lazy list, which
  may be infinite, and the handles of the tables hold and release references of the library. \<open>Apic\<close> is \<^verbatim>\<open>hdint.rs\<close> with the registers of both interrupt controllers as maps;
  the interrupts that arrive while the processor waits are an argument of the wait loop.
  \<open>Timers\<close> is \<^verbatim>\<open>hdint/\<close>: interval timer, real time clock and HPET, whose handlers run on the machine
  of \<open>Asm\<close>. \<open>Bitfields\<close> is \<^verbatim>\<open>util.rs\<close>.

  \<^bold>\<open>Scheduler.\<close> \<open>Scheduler\<close> is the Rust part of \<^verbatim>\<open>scheduler.rs\<close> and \<^verbatim>\<open>scheduler/waker.rs\<close>. The task
  structures are cells of the machine's memory, at the offsets the assembly uses. The invariant
  \<open>sched_inv\<close> says which task runs, which wait, in which order and with which saved contexts, and
  that the memory of tasks, their stacks and the cells of the scheduler are disjoint (\<open>layout\<close>).
  \<open>Scheduler_Properties\<close>: a timer interrupt and a yield continue exactly the next task with
  exactly its saved context, and in every run the tasks take turns. \<open>Spawn\<close>: a spawned task
  joins the queue with a valid identifier and a context that starts it, and starting the
  scheduler establishes the invariant.

  \<^bold>\<open>Heap.\<close> \<open>Heap\<close> is \<^verbatim>\<open>heap.rs\<close>: nine lists of free blocks in front of the heap of the crate. The links
  are stored in the free blocks, so the memory is part of the state. The invariant \<open>heap_inv\<close> says that every region the
  crate handed out is held by one client or lies in one list. \<open>Heap_Properties\<close>: in every run of
  allocations, deallocations and writes of the clients the blocks do not overlap and keep their contents;
  when the heap comes up. \<open>Heap_List\<close> is the unused \<^verbatim>\<open>heap/ll.rs\<close>, whose search is first fit.

  \<^bold>\<open>Callbacks of uACPI.\<close> \<open>Uacpi\<close> has every function of \<^verbatim>\<open>uacpi.rs\<close>, and \<^verbatim>\<open>sys.rs\<close>. The cells of mutexes,
  spinlocks and events are maps from handles, which are addresses of the heap. Memory that is
  handed out and returned leaves the heap as it was, a spinlock restores the interrupt flag, an
  event is a counter.

  \<^bold>\<open>Screen.\<close> \<open>Framebuffer\<close> is \<^verbatim>\<open>framebuffer.rs\<close> and \<^verbatim>\<open>framebuffer/font.rs\<close>. \<open>painted\<close> describes a picture
  pixel by pixel; the icon and a line of text are drawn as such pictures, and nothing else of the video memory changes.

  \<^bold>\<open>Start.\<close> \<open>Boot_Protocol\<close> is \<^verbatim>\<open>limine.rs\<close> and \<^verbatim>\<open>limine/\<close>: the requests of the image and the accessors.
  \<open>Gdt\<close> is \<^verbatim>\<open>gdt.rs\<close>, \<open>Serial\<close> is \<^verbatim>\<open>serial.rs\<close>. \<open>Kernel\<close> is \<^verbatim>\<open>main.rs\<close>: \<open>kmain\<close> composes the operations of all
  components, and its first half, from the answers of the boot loader to the heap, is correct there.
  \<open>Kernel_Devices\<close>: on a well-formed MADT the interrupt controllers and the calibration come out as the table
  says, and a table with an empty record makes the start hang. \<open>Kernel_Tasks\<close>: from the initialisation of
  the stacks to the first running task, with the invariant of the scheduler.

  \<^bold>\<open>The running kernel.\<close> \<open>System\<close> puts the two tasks of \<^verbatim>\<open>main.rs\<close>, the scheduler, the timer, the exceptions and
  the serial line together. A function of a task is the list of what it does before its loop and in
  each round; between its actions a task may be interrupted at any point. From the state in which the
  start ends, every run is fair to both tasks, each does what its function says, in order, every line is
  printed whole, and the next switch can always be reached. A fault stops only the task that faults,
  if interrupts are enabled and it is not an invalid opcode; otherwise it stops the kernel.

  \<^bold>\<open>Code that does not run.\<close> \<open>Dormant\<close> has FRED event delivery (\<^verbatim>\<open>fred.rs\<close> and \<^verbatim>\<open>fred.s\<close>), register fields without a
  user, the debug printers, the structures of stack frames and the stubs.

  \<^bold>\<open>Loops.\<close> Most loops are total functions: structural recursion over the interrupts that arrive,
  over the entries of a list or a counter, or recursion with a measure. None uses fuel. The wait
  loops return \<open>None\<close> when the given interrupts do not end them, and the theorems say exactly
  when they end. Two loops may not end and are partial functions with the value \<open>None\<close> then: the
  search \<open>find_from\<close> of \<open>Heap_List\<close>, which is proved to end on every list without a cycle, and \<open>drain\<close> of \<open>Kernel\<close>,
  the loop over the MADT.

  \<^bold>\<open>Not modelled.\<close> \<^verbatim>\<open>queue.rs\<close>, which declares two unused types without an operation; the build script, the
  linker script and the implementations of \<^verbatim>\<open>Debug\<close> that the compiler derives. The boot loader, the ACPI library, the
  driver of the serial port and the devices are not part of the repository; what they answer is an
  argument, and so is the text that crates print for their own types. In particular \<open>kmain\<close> does not
  follow the calls that the library makes to the callbacks while it is initialised, and the addresses of
  the task structures, boxes of the heap, are arguments. The progress messages of \<open>kmain\<close> and of the timers
  are left out; those of the scheduler are in \<open>System\<close>. The instructions that the compiler makes of
  Rust code are any computation that stays on its stack, with the calls of the modelled functions in order.
  Memory is one quadword per address in the machine of \<open>Asm\<close> and in the heap; unaligned accesses do not occur
  in the modelled code there.
\<close>

end
